(* ===== verification/Prelude.thy ===== *)
theory Prelude
  imports Main "HOL-Library.Word"
begin

text \<open>
  Shared vocabulary of the development: the machine integer types of the Rust sources, byte
  strings, the little-endian layout of \<^verbatim>\<open>repr(C)\<close> structures on x86_64 and the
  generic list lemmas the component theories use. A structure that crosses the process boundary
  (a seccomp message, the result record of a forked child, a quota record) is a value with an
  encoder and a decoder; the locale \<open>fixed_codec\<close> is the contract of such a pair and holds the
  lemmas on reading and writing it through memory.
\<close>

unbundle bit_operations_syntax

section \<open>Machine types\<close>

type_synonym u8 = "8 word"
type_synonym u16 = "16 word"
type_synonym u32 = "32 word"
type_synonym u64 = "64 word"
text \<open>Signed integers are words too; \<^const>\<open>sint\<close> reads them.\<close>
type_synonym i32 = "32 word"
type_synonym i64 = "64 word"

type_synonym bytes = "u8 list"

named_theorems codec_simps \<open>unfolding and length facts for structure layouts\<close>
named_theorems byte_simps \<open>facts on byte buffers\<close>

text \<open>Byte strings of the source text (\<^verbatim>\<open>b"..."\<close> and \<^verbatim>\<open>c_str!("...")\<close> without the
  terminating NUL, which the kernel interface does not see as part of the string).\<close>

definition str :: "string \<Rightarrow> bytes" where
  "str s = map of_char s"

lemma str_Nil [simp]: "str [] = []"
  by (simp add: str_def)

lemma str_Cons [simp]: "str (c # s) = of_char c # str s"
  by (simp add: str_def)

lemma length_str [simp]: "length (str s) = length s"
  by (simp add: str_def)

section \<open>Buffers\<close>

text \<open>\<open>fill old new\<close>: the contents of a buffer \<open>old\<close> after the kernel stored \<open>new\<close> at its
  start; \<open>fit n bs\<close>: exactly \<open>n\<close> bytes of whatever memory holds; \<open>chunk\<close>: a sub-range.\<close>

definition fill :: "'a list \<Rightarrow> 'a list \<Rightarrow> 'a list" where
  "fill old new = take (length old) (new @ drop (length new) old)"

definition fit :: "nat \<Rightarrow> bytes \<Rightarrow> bytes" where
  "fit n bs = take n (bs @ replicate n 0)"

definition chunk :: "nat \<Rightarrow> nat \<Rightarrow> 'a list \<Rightarrow> 'a list" where
  "chunk off n xs = take n (drop off xs)"

lemma length_fill [simp]: "length (fill old new) = length old"
  by (simp add: fill_def)

lemma fill_same_length [simp]: "length new = length old \<Longrightarrow> fill old new = new"
  by (simp add: fill_def)

lemma fill_Nil [simp]: "fill old [] = old"
  by (simp add: fill_def)

lemma take_fill: "n \<le> length new \<Longrightarrow> n \<le> length old \<Longrightarrow> take n (fill old new) = take n new"
  by (simp add: fill_def)

lemma nth_fill:
  "i < length old \<Longrightarrow> fill old new ! i = (if i < length new then new ! i else old ! i)"
  by (simp add: fill_def nth_append)

lemma length_takeWhile_short: "length (takeWhile P xs) < length xs \<longleftrightarrow> (\<exists>x\<in>set xs. \<not> P x)"
  by (induction xs) auto

lemma length_fit [simp]: "length (fit n bs) = n"
  by (simp add: fit_def)

lemma fit_0 [simp]: "fit 0 bs = []"
  by (simp add: fit_def)

lemma fit_id [simp]: "length bs = n \<Longrightarrow> fit n bs = bs"
  by (simp add: fit_def)

lemma length_chunk [byte_simps]: "off + n \<le> length xs \<Longrightarrow> length (chunk off n xs) = n"
  by (simp add: chunk_def)

lemma chunk_0_all [byte_simps]: "length xs = n \<Longrightarrow> chunk 0 n xs = xs"
  by (simp add: chunk_def)

text \<open>Adjacent slices join; a buffer is the concatenation of the slices of its fields.\<close>

lemma chunk_join [byte_simps]: "b = a + n \<Longrightarrow> chunk a n xs @ chunk b m xs = chunk a (n + m) xs"
  by (simp add: chunk_def take_add add.commute [of a n])

lemma chunk_join_append [byte_simps]:
  "b = a + n \<Longrightarrow> chunk a n xs @ chunk b m xs @ ys = chunk a (n + m) xs @ ys"
  by (simp add: chunk_join flip: append_assoc)

lemma chunk_append_left [byte_simps]:
  "off + n \<le> length xs \<Longrightarrow> chunk off n (xs @ ys) = chunk off n xs"
  by (simp add: chunk_def)

lemma chunk_append_right [byte_simps]:
  "length xs \<le> off \<Longrightarrow> chunk off n (xs @ ys) = chunk (off - length xs) n ys"
  by (simp add: chunk_def)

lemma chunk_chunk:
  "m + k \<le> n \<Longrightarrow> chunk m k (chunk off n xs) = chunk (off + m) k xs"
  by (simp add: chunk_def take_drop min_def add.commute)

section \<open>Little-endian words\<close>

definition le_bytes :: "nat \<Rightarrow> 'a::len word \<Rightarrow> bytes" where
  "le_bytes n w = map (\<lambda>i. ucast (drop_bit (8 * i) w)) [0..<n]"

primrec le_word :: "bytes \<Rightarrow> 'a::len word" where
  "le_word [] = 0"
| "le_word (b # bs) = (ucast b OR push_bit 8 (le_word bs))"

lemma length_le_bytes [simp]: "length (le_bytes n w) = n"
  by (simp add: le_bytes_def)

lemma bit_le_word:
  "bit (le_word bs :: 'a::len word) i \<longleftrightarrow>
     i < LENGTH('a) \<and> i div 8 < length bs \<and> bit (bs ! (i div 8)) (i mod 8)"
proof (induction bs arbitrary: i)
  case Nil
  then show ?case by simp
next
  case (Cons b bs)
  show ?case
  proof (cases "i < 8")
    case True
    then show ?thesis
      by (auto simp: bit_simps)
  next
    case False
    then have "i div 8 = Suc ((i - 8) div 8)" and "i mod 8 = (i - 8) mod 8"
      by (simp_all add: le_div_geq le_mod_geq)
    moreover have "\<not> bit b i"
      using False by (auto dest: bit_imp_le_length)
    ultimately show ?thesis
      using False by (auto simp: bit_simps Cons.IH)
  qed
qed

lemma bit_le_bytes:
  "i < n \<Longrightarrow> bit (le_bytes n (w :: 'a::len word) ! i) j \<longleftrightarrow> j < 8 \<and> bit w (8 * i + j)"
  by (auto simp: le_bytes_def bit_simps dest: bit_imp_le_length)

lemma le_word_le_bytes:
  assumes "LENGTH('a) \<le> 8 * n"
  shows "le_word (le_bytes n w) = (w :: 'a::len word)"
proof (rule bit_eqI)
  fix i
  assume "possible_bit TYPE('a word) i"
  then have i: "i < LENGTH('a)" by simp
  with assms have "i div 8 < n" by simp
  with i show "bit (le_word (le_bytes n w) :: 'a word) i \<longleftrightarrow> bit w i"
    by (simp add: bit_le_word bit_le_bytes)
qed

lemma le_bytes_le_word:
  assumes "LENGTH('a) = 8 * n" and "length bs = n"
  shows "le_bytes n (le_word bs :: 'a::len word) = bs"
proof (rule nth_equalityI)
  show "length (le_bytes n (le_word bs :: 'a word)) = length bs"
    using assms by simp
next
  fix i
  assume "i < length (le_bytes n (le_word bs :: 'a word))"
  then have i: "i < n" by simp
  show "le_bytes n (le_word bs :: 'a word) ! i = bs ! i"
  proof (rule bit_eqI)
    fix j
    assume "possible_bit TYPE(8 word) j"
    then have j: "j < 8" by simp
    with i assms have "8 * i + j < LENGTH('a)" by simp
    with i j assms show "bit (le_bytes n (le_word bs :: 'a word) ! i) j \<longleftrightarrow> bit (bs ! i) j"
      by (simp add: bit_le_bytes bit_le_word)
  qed
qed

lemma le_bytes_zero: "le_bytes n (0 :: 'a::len word) = replicate n 0"
  by (simp add: le_bytes_def map_replicate_const)

lemma le_word_zero [simp]: "le_word (replicate n 0) = (0 :: 'a::len word)"
  by (induction n) simp_all

text \<open>The four word widths of the structures.\<close>

lemma le_word_u16 [simp]: "le_word (le_bytes 2 w) = (w :: u16)"
  by (rule le_word_le_bytes) simp

lemma le_word_u32 [simp]: "le_word (le_bytes 4 w) = (w :: u32)"
  by (rule le_word_le_bytes) simp

lemma le_word_u64 [simp]: "le_word (le_bytes 8 w) = (w :: u64)"
  by (rule le_word_le_bytes) simp

lemma le_bytes_u16 [simp]: "length bs = 2 \<Longrightarrow> le_bytes 2 (le_word bs :: u16) = bs"
  by (rule le_bytes_le_word) simp_all

lemma le_bytes_u32 [simp]: "length bs = 4 \<Longrightarrow> le_bytes 4 (le_word bs :: u32) = bs"
  by (rule le_bytes_le_word) simp_all

lemma le_bytes_u64 [simp]: "length bs = 8 \<Longrightarrow> le_bytes 8 (le_word bs :: u64) = bs"
  by (rule le_bytes_le_word) simp_all

section \<open>The contract of a structure layout\<close>

text \<open>
  \<open>enc\<close> is the memory image of a value, \<open>dec\<close> reads a value back from \<open>sz\<close> bytes. \<open>inv\<close> is what
  the type system guarantees of a value (an array field has its length). Memory images and
  values correspond one to one: padding is part of the value.
\<close>

locale fixed_codec =
  fixes enc :: "'a \<Rightarrow> bytes"
    and dec :: "bytes \<Rightarrow> 'a"
    and sz :: nat
    and inv :: "'a \<Rightarrow> bool"
  assumes length_enc: "inv x \<Longrightarrow> length (enc x) = sz"
    and dec_enc: "inv x \<Longrightarrow> dec (enc x) = x"
    and enc_dec: "length bs = sz \<Longrightarrow> enc (dec bs) = bs"
    and inv_dec: "length bs = sz \<Longrightarrow> inv (dec bs)"
begin

text \<open>Storing a full image over a value replaces it; storing a prefix keeps the invariant.\<close>

lemma dec_fill_full: "inv x \<Longrightarrow> length bs = sz \<Longrightarrow> dec (fill (enc x) bs) = dec bs"
  by (simp add: length_enc)

lemma inv_fill: "inv x \<Longrightarrow> inv (dec (fill (enc x) bs))"
  by (simp add: inv_dec length_enc)

lemma enc_fill: "inv x \<Longrightarrow> enc (dec (fill (enc x) bs)) = fill (enc x) bs"
  by (simp add: enc_dec length_enc)

lemma enc_inj: "inv x \<Longrightarrow> inv y \<Longrightarrow> enc x = enc y \<longleftrightarrow> x = y"
  by (metis dec_enc)

lemma dec_inj: "length bs = sz \<Longrightarrow> length cs = sz \<Longrightarrow> dec bs = dec cs \<longleftrightarrow> bs = cs"
  by (metis enc_dec)

end

text \<open>Plain integers are structures of one field.\<close>

interpretation u32_codec: fixed_codec "le_bytes 4 :: u32 \<Rightarrow> bytes" le_word 4 "\<lambda>_. True"
  by unfold_locales simp_all

interpretation u64_codec: fixed_codec "le_bytes 8 :: u64 \<Rightarrow> bytes" le_word 8 "\<lambda>_. True"
  by unfold_locales simp_all

end
