(* ===== verification/Runtime.thy ===== *)
theory Runtime
  imports Prelude
begin

text \<open>
  The execution model. The kernel, libc and the tokio reactor are not part of the repository:
  a call into them is a value of the type \<open>call\<close>, and the environment \<open>E\<close>, a parameter of every
  definition, answers it. A computation threads the environment's state and a log of all calls
  made so far, each with the process that made it (the daemon, or a child it forked), and ends
  with a value, an error (the \<^verbatim>\<open>Err\<close> that \<^verbatim>\<open>?\<close> propagates) or a panic; \<open>None\<close> is a
  computation that does not return. The second half is the logic of the log: which calls a
  computation can make, whether it returns, and which calls a successful run has made.

  The macros of \<^verbatim>\<open>src/macros.rs\<close> that turn a C return value into a \<^verbatim>\<open>Result\<close> are here too.
\<close>

section \<open>Calls into the environment\<close>

text \<open>The address argument of \<^verbatim>\<open>quotactl(2)\<close>: a null pointer, a path, or a buffer with its
  contents before the call.\<close>

datatype qaddr = QNull | QPath bytes | QBuf bytes

datatype call =
    Alloc nat                                   \<comment> \<open>uninitialised heap memory\<close>
  | Open bytes int u32                          \<comment> \<open>path, flags, mode\<close>
  | Openat int bytes int u32                    \<comment> \<open>directory, path, flags, mode\<close>
  | Close int
  | Read int nat
  | Write int bytes
  | Pread int nat u64                           \<comment> \<open>descriptor, length, offset\<close>
  | Pwrite int bytes u64
  | Fchdir int
  | Chroot bytes
  | Chdir bytes
  | Setns int int
  | Umask u32
  | PrctlGetSecurebits
  | PrctlSetSecurebits u64
  | Setegid u32
  | Setfsgid u32
  | Seteuid u32
  | Setfsuid u32
  | Capset u32 int "(u32 \<times> u32 \<times> u32) list"
  | Getpid
  | Mknodat int bytes u32 u64                   \<comment> \<open>directory, path, mode, device\<close>
  | Quotactl i32 "bytes option" i32 qaddr       \<comment> \<open>command, special file, id, address\<close>
  | Pipe2 int
  | Fork
  | Waitpid int
  | Kill int int
  | Exit int
  | FcntlGetfl int
  | FcntlSetfl int i32
  | Socket int int int
  | Bind int bytes
  | Listen int int
  | Accept4 int int
  | Sendmsg int "bytes list"                    \<comment> \<open>socket, gathered buffers\<close>
  | Recvmsg int "nat list" nat                  \<comment> \<open>socket, buffer sizes, control buffer size\<close>
  | Shutdown int int
  | SeccompGetNotifSizes
  | AsyncFdNew int                              \<comment> \<open>register with the reactor\<close>
  | Readable int
  | Writable int
  | PollReadReady int
  | PollWriteReady int
  | ClearReady int
  | Unlink bytes
  | SdNotify bytes
  | NumCpus
  | BuildRuntime nat                            \<comment> \<open>tokio's runtime, with its number of worker threads\<close>
  | Spawn int                                   \<comment> \<open>hand the task of a connection to the runtime\<close>
  | Print int bytes                             \<comment> \<open>text for a standard stream, through the standard library\<close>

text \<open>What comes back: the C return value, \<^verbatim>\<open>errno\<close>, the bytes stored in the caller's data
  buffers and control buffer, the control length and descriptor arrays.\<close>

record resp =
  r_ret :: int
  r_errno :: i32
  r_data :: bytes
  r_ctl :: bytes
  r_ctllen :: nat
  r_fds :: "int list"

datatype actor = Daemon | Child int

type_synonym event = "actor \<times> call \<times> resp"

abbreviation ev_actor :: "event \<Rightarrow> actor" where "ev_actor e \<equiv> fst e"
abbreviation ev_call :: "event \<Rightarrow> call" where "ev_call e \<equiv> fst (snd e)"
abbreviation ev_resp :: "event \<Rightarrow> resp" where "ev_resp e \<equiv> snd (snd e)"

text \<open>\<^verbatim>\<open>std::io::Error\<close>: an OS error with its code, or an error of some kind without one.\<close>

datatype io_kind = Other | NotFound | UnexpectedEof | InvalidData | InvalidInput | WriteZero

datatype io_error = OsErr i32 | KindErr io_kind

definition io_format_err :: io_error where
  [simp]: "io_format_err = KindErr Other"

text \<open>\<^verbatim>\<open>anyhow::Error\<close>, as far as the sources distinguish what it wraps: \<^verbatim>\<open>nix::Error\<close>,
  \<^verbatim>\<open>std::io::Error\<close>, or anything else (messages of \<^verbatim>\<open>bail!\<close>, UTF-8 errors).\<close>

datatype error = NixErr i32 | IoErr io_error | AnyErr string

text \<open>The environment: the kernel, and the functions of the nix crate that the sources call
  (\<^verbatim>\<open>major\<close>, \<^verbatim>\<open>minor\<close> of a device number, the flags that \<^verbatim>\<open>OFlag::from_bits\<close> knows,
  the socket address of a path), and how errors are displayed.\<close>

record 'w env =
  kern :: "actor \<Rightarrow> call \<Rightarrow> 'w \<Rightarrow> resp \<times> 'w"
  dev_major :: "u64 \<Rightarrow> u64"
  dev_minor :: "u64 \<Rightarrow> u64"
  oflag_known :: "i32 \<Rightarrow> bool"
  unix_addr :: "bytes \<Rightarrow> bytes option"
  display :: "error \<Rightarrow> bytes"

text \<open>The daemon's one global, the lazily initialised \<^verbatim>\<open>SECCOMP_SIZES\<close>
  (\<^verbatim>\<open>notif\<close>, \<^verbatim>\<open>notif_resp\<close>, \<^verbatim>\<open>data\<close>); an initialiser that panics poisons it.\<close>

datatype static = StaticUninit | StaticInit "u16 \<times> u16 \<times> u16" | StaticPoisoned

record 'w mach =
  m_world :: 'w
  m_log :: "event list"
  m_sizes :: static

section \<open>Results\<close>

datatype ('e, 'a) res = Ok 'a | Err 'e | Panic

abbreviation (input) ENOENT :: i32 where "ENOENT \<equiv> 2"
abbreviation (input) EINTR :: i32 where "EINTR \<equiv> 4"
abbreviation (input) EAGAIN :: i32 where "EAGAIN \<equiv> 11"
abbreviation (input) EFAULT :: i32 where "EFAULT \<equiv> 14"
abbreviation (input) EPERM :: i32 where "EPERM \<equiv> 1"
abbreviation (input) EINVAL :: i32 where "EINVAL \<equiv> 22"
abbreviation (input) ERANGE :: i32 where "ERANGE \<equiv> 34"
abbreviation (input) ENOSYS :: i32 where "ENOSYS \<equiv> 38"
abbreviation (input) EOPNOTSUPP :: i32 where "EOPNOTSUPP \<equiv> 95"

definition would_block :: "io_error \<Rightarrow> bool" where
  "would_block e \<longleftrightarrow> e = OsErr EAGAIN"

definition interrupted :: "io_error \<Rightarrow> bool" where
  "interrupted e \<longleftrightarrow> e = OsErr EINTR"

definition raw_os_error :: "io_error \<Rightarrow> i32 option" where
  "raw_os_error e = (case e of OsErr n \<Rightarrow> Some n | KindErr _ \<Rightarrow> None)"

section \<open>Computations\<close>

type_synonym ('w, 'e, 'a) io = "'w mach \<Rightarrow> (('e, 'a) res \<times> 'w mach) option"

definition ret :: "'a \<Rightarrow> ('w, 'e, 'a) io" where
  "ret a = (\<lambda>s. Some (Ok a, s))"

definition raise :: "'e \<Rightarrow> ('w, 'e, 'a) io" where
  "raise e = (\<lambda>s. Some (Err e, s))"

definition panic :: "('w, 'e, 'a) io" where
  "panic = (\<lambda>s. Some (Panic, s))"

definition bindR :: "('w, 'e, 'a) io \<Rightarrow> ('a \<Rightarrow> ('w, 'e, 'b) io) \<Rightarrow> ('w, 'e, 'b) io" where
  "bindR m f = (\<lambda>s. case m s of None \<Rightarrow> None
     | Some (r, s') \<Rightarrow> (case r of Ok a \<Rightarrow> f a s' | Err e \<Rightarrow> Some (Err e, s') | Panic \<Rightarrow> Some (Panic, s')))"

text \<open>\<^verbatim>\<open>map_err\<close> and the error conversion of \<^verbatim>\<open>?\<close>.\<close>

definition map_err :: "('e \<Rightarrow> 'f) \<Rightarrow> ('w, 'e, 'a) io \<Rightarrow> ('w, 'f, 'a) io" where
  "map_err g m = (\<lambda>s. case m s of None \<Rightarrow> None
     | Some (r, s') \<Rightarrow> Some (case r of Ok a \<Rightarrow> Ok a | Err e \<Rightarrow> Err (g e) | Panic \<Rightarrow> Panic, s'))"

text \<open>A \<^verbatim>\<open>match\<close> on a \<^verbatim>\<open>Result\<close>.\<close>

definition matchR ::
  "('w, 'e, 'a) io \<Rightarrow> ('a \<Rightarrow> ('w, 'f, 'b) io) \<Rightarrow> ('e \<Rightarrow> ('w, 'f, 'b) io) \<Rightarrow> ('w, 'f, 'b) io" where
  "matchR m f h = (\<lambda>s. case m s of None \<Rightarrow> None
     | Some (r, s') \<Rightarrow> (case r of Ok a \<Rightarrow> f a s' | Err e \<Rightarrow> h e s' | Panic \<Rightarrow> Some (Panic, s')))"

text \<open>Destructors: \<open>c\<close> runs when \<open>m\<close> is left, whatever its outcome.\<close>

definition ensuring :: "('w, 'e, 'a) io \<Rightarrow> ('w, 'f, unit) io \<Rightarrow> ('w, 'e, 'a) io" where
  "ensuring m c = (\<lambda>s. case m s of None \<Rightarrow> None
     | Some (r, s') \<Rightarrow> (case c s' of None \<Rightarrow> None | Some (_, s'') \<Rightarrow> Some (r, s'')))"

text \<open>Destructors of a value that a successful \<open>m\<close> hands on: \<open>c\<close> runs only when \<open>m\<close> fails.\<close>

definition on_failure :: "('w, 'e, 'a) io \<Rightarrow> ('w, 'f, unit) io \<Rightarrow> ('w, 'e, 'a) io" where
  "on_failure m c = (\<lambda>s. case m s of None \<Rightarrow> None
     | Some (r, s') \<Rightarrow> (case r of Ok a \<Rightarrow> Some (Ok a, s')
         | _ \<Rightarrow> (case c s' of None \<Rightarrow> None | Some (_, s'') \<Rightarrow> Some (r, s''))))"

definition ok_or :: "'e \<Rightarrow> 'a option \<Rightarrow> ('w, 'e, 'a) io" where
  "ok_or e x = (case x of None \<Rightarrow> raise e | Some a \<Rightarrow> ret a)"

definition unwrap :: "'a option \<Rightarrow> ('w, 'e, 'a) io" where
  "unwrap x = (case x of None \<Rightarrow> panic | Some a \<Rightarrow> ret a)"

text \<open>Pure code that can fail or panic (\<^verbatim>\<open>of_res\<close> runs it), and \<^verbatim>\<open>?\<close> between such pieces.\<close>

definition of_res :: "('e, 'a) res \<Rightarrow> ('w, 'e, 'a) io" where
  "of_res r = (\<lambda>s. Some (r, s))"

definition bindP :: "('e, 'a) res \<Rightarrow> ('a \<Rightarrow> ('e, 'b) res) \<Rightarrow> ('e, 'b) res" where
  "bindP m f = (case m of Ok a \<Rightarrow> f a | Err e \<Rightarrow> Err e | Panic \<Rightarrow> Panic)"

text \<open>Every loop of the sources is an instance of one loop: the body maps the loop state to the
  next one (\<open>Inl\<close>) or to the result (\<open>Inr\<close>).\<close>

partial_function (option) loopM ::
  "('a \<Rightarrow> 'w mach \<Rightarrow> (('e, 'a + 'b) res \<times> 'w mach) option) \<Rightarrow> 'a \<Rightarrow> 'w mach
     \<Rightarrow> (('e, 'b) res \<times> 'w mach) option" where
  "loopM body a s = (case body a s of None \<Rightarrow> None
     | Some (r, s') \<Rightarrow> (case r of
          Ok x \<Rightarrow> (case x of Inl a' \<Rightarrow> loopM body a' s' | Inr b \<Rightarrow> Some (Ok b, s'))
        | Err e \<Rightarrow> Some (Err e, s')
        | Panic \<Rightarrow> Some (Panic, s')))"

definition sys :: "'w env \<Rightarrow> actor \<Rightarrow> call \<Rightarrow> ('w, 'e, resp) io" where
  "sys E p c = (\<lambda>s. case kern E p c (m_world s) of
     (r, w) \<Rightarrow> Some (Ok r, s\<lparr>m_world := w, m_log := m_log s @ [(p, c, r)]\<rparr>))"

declare loopM.simps [code]

text \<open>The macros \<^verbatim>\<open>c_result!\<close> and \<^verbatim>\<open>c_try!\<close>: a C call that failed is an OS error.\<close>

definition c_result :: "'w env \<Rightarrow> actor \<Rightarrow> call \<Rightarrow> ('w, io_error, resp) io" where
  "c_result E p c = bindR (sys E p c) (\<lambda>r. if r_ret r = -1 then raise (OsErr (r_errno r)) else ret r)"

text \<open>\<^verbatim>\<open>eprintln!\<close> panics when the text cannot be written.\<close>

definition eprintln :: "'w env \<Rightarrow> actor \<Rightarrow> bytes \<Rightarrow> ('w, 'e, unit) io" where
  "eprintln E p msg = bindR (sys E p (Print 2 (msg @ [10]))) (\<lambda>r. if r_ret r = -1 then panic else ret ())"

text \<open>Dropping an \<^verbatim>\<open>OwnedFd\<close> closes it.\<close>

definition drop_fd :: "'w env \<Rightarrow> actor \<Rightarrow> int \<Rightarrow> ('w, 'e, unit) io" where
  "drop_fd E p fd = bindR (sys E p (Close fd)) (\<lambda>_. ret ())"

primrec drop_fds :: "'w env \<Rightarrow> actor \<Rightarrow> int list \<Rightarrow> ('w, 'e, unit) io" where
  "drop_fds E p [] = ret ()"
| "drop_fds E p (fd # fds) = bindR (drop_fd E p fd) (\<lambda>_. drop_fds E p fds)"

definition owning :: "'w env \<Rightarrow> actor \<Rightarrow> int \<Rightarrow> ('w, 'e, 'a) io \<Rightarrow> ('w, 'e, 'a) io" where
  "owning E p fd m = ensuring m (drop_fd E p fd :: ('w, 'e, unit) io)"


lemmas io_defs = ret_def raise_def panic_def bindR_def map_err_def matchR_def ensuring_def on_failure_def
  ok_or_def unwrap_def of_res_def bindP_def sys_def c_result_def drop_fd_def owning_def

lemma bindR_ret [simp]: "bindR (ret a) f = f a"
  by (simp add: io_defs fun_eq_iff)

lemma bindR_raise [simp]: "bindR (raise e) f = raise e"
  by (simp add: io_defs fun_eq_iff)

lemma bindR_panic [simp]: "bindR panic f = panic"
  by (simp add: io_defs fun_eq_iff)

lemma bindR_assoc: "bindR (bindR m f) g = bindR m (\<lambda>a. bindR (f a) g)"
  by (auto simp: bindR_def fun_eq_iff split: option.splits res.splits)

section \<open>Inversion: what a run that ended well has done\<close>

named_theorems run_simps \<open>inversion of a run by its outcome\<close>

lemma ret_run [run_simps]: "ret a s = Some (r, s') \<longleftrightarrow> r = Ok a \<and> s' = s"
  by (auto simp: ret_def)

lemma raise_run [run_simps]: "raise e s = Some (r, s') \<longleftrightarrow> r = Err e \<and> s' = s"
  by (auto simp: raise_def)

lemma panic_run [run_simps]: "panic s = Some (r, s') \<longleftrightarrow> r = Panic \<and> s' = s"
  by (auto simp: panic_def)

lemma bindR_Ok [run_simps]:
  "bindR m f s = Some (Ok b, s') \<longleftrightarrow> (\<exists>a s1. m s = Some (Ok a, s1) \<and> f a s1 = Some (Ok b, s'))"
  by (auto simp: bindR_def split: option.splits res.splits)

lemma bindR_Err [run_simps]:
  "bindR m f s = Some (Err e, s') \<longleftrightarrow>
     m s = Some (Err e, s') \<or> (\<exists>a s1. m s = Some (Ok a, s1) \<and> f a s1 = Some (Err e, s'))"
  by (auto simp: bindR_def split: option.splits res.splits)

lemma bindR_Panic [run_simps]:
  "bindR m f s = Some (Panic, s') \<longleftrightarrow>
     m s = Some (Panic, s') \<or> (\<exists>a s1. m s = Some (Ok a, s1) \<and> f a s1 = Some (Panic, s'))"
  by (auto simp: bindR_def split: option.splits res.splits)

lemma bindR_run:
  "bindR m f s = Some (r, s') \<longleftrightarrow>
     (\<exists>a s1. m s = Some (Ok a, s1) \<and> f a s1 = Some (r, s'))
     \<or> (\<exists>e. m s = Some (Err e, s') \<and> r = Err e) \<or> (m s = Some (Panic, s') \<and> r = Panic)"
  by (cases r) (auto simp: run_simps)

lemma map_err_Ok [run_simps]: "map_err g m s = Some (Ok a, s') \<longleftrightarrow> m s = Some (Ok a, s')"
  by (auto simp: map_err_def split: option.splits res.splits)

lemma map_err_Err [run_simps]:
  "map_err g m s = Some (Err f, s') \<longleftrightarrow> (\<exists>e. f = g e \<and> m s = Some (Err e, s'))"
  by (auto simp: map_err_def split: option.splits res.splits)

lemma map_err_Panic [run_simps]: "map_err g m s = Some (Panic, s') \<longleftrightarrow> m s = Some (Panic, s')"
  by (auto simp: map_err_def split: option.splits res.splits)

lemma matchR_run [run_simps]:
  "matchR m f h s = Some (r, s') \<longleftrightarrow>
     (\<exists>a s1. m s = Some (Ok a, s1) \<and> f a s1 = Some (r, s'))
     \<or> (\<exists>e s1. m s = Some (Err e, s1) \<and> h e s1 = Some (r, s')) \<or> (m s = Some (Panic, s') \<and> r = Panic)"
  by (cases r) (auto simp: matchR_def split: option.splits res.splits)

lemma ok_or_Ok [run_simps]: "ok_or e x s = Some (Ok a, s') \<longleftrightarrow> x = Some a \<and> s' = s"
  by (auto simp: ok_or_def run_simps split: option.splits)

lemma ok_or_Err [run_simps]: "ok_or e x s = Some (Err f, s') \<longleftrightarrow> x = None \<and> f = e \<and> s' = s"
  by (auto simp: ok_or_def run_simps split: option.splits)

lemma ok_or_Panic [run_simps]: "ok_or e x s \<noteq> Some (Panic, s')"
  by (auto simp: ok_or_def run_simps split: option.splits)

lemma unwrap_Ok [run_simps]: "unwrap x s = Some (Ok a, s') \<longleftrightarrow> x = Some a \<and> s' = s"
  by (auto simp: unwrap_def run_simps split: option.splits)

lemma unwrap_Err [run_simps]: "unwrap x s \<noteq> Some (Err e, s')"
  by (auto simp: unwrap_def run_simps split: option.splits)

lemma unwrap_Panic [run_simps]: "unwrap x s = Some (Panic, s') \<longleftrightarrow> x = None \<and> s' = s"
  by (auto simp: unwrap_def run_simps split: option.splits)

lemma of_res_run [run_simps]: "of_res x s = Some (r, s') \<longleftrightarrow> x = r \<and> s' = s"
  by (auto simp: of_res_def)

lemma bindP_simps [simp]:
  "bindP (Ok a) f = f a"
  "bindP (Err e) f = Err e"
  "bindP Panic f = Panic"
  by (simp_all add: bindP_def)

lemma bindP_Ok [run_simps]: "bindP m f = Ok b \<longleftrightarrow> (\<exists>a. m = Ok a \<and> f a = Ok b)"
  by (cases m) simp_all

lemma ensuring_run:
  "ensuring m c s = Some (r, s') \<longleftrightarrow> (\<exists>s1 r1. m s = Some (r, s1) \<and> c s1 = Some (r1, s'))"
  by (auto simp: ensuring_def split: option.splits)

lemma on_failure_run:
  "on_failure m c s = Some (r, s') \<longleftrightarrow>
     (\<exists>a. r = Ok a \<and> m s = Some (r, s'))
     \<or> ((\<forall>a. r \<noteq> Ok a) \<and> (\<exists>s1 r1. m s = Some (r, s1) \<and> c s1 = Some (r1, s')))"
  by (cases r) (auto simp: on_failure_def split: option.splits res.splits)

lemma on_failure_Ok [run_simps]: "on_failure m c s = Some (Ok a, s') \<longleftrightarrow> m s = Some (Ok a, s')"
  by (simp add: on_failure_run)

text \<open>The state after one call.\<close>

definition after :: "'w env \<Rightarrow> actor \<Rightarrow> call \<Rightarrow> 'w mach \<Rightarrow> 'w mach" where
  "after E p c s = (case kern E p c (m_world s) of
     (r, w) \<Rightarrow> s\<lparr>m_world := w, m_log := m_log s @ [(p, c, r)]\<rparr>)"

definition answer :: "'w env \<Rightarrow> actor \<Rightarrow> call \<Rightarrow> 'w mach \<Rightarrow> resp" where
  "answer E p c s = fst (kern E p c (m_world s))"

lemma sys_eq: "sys E p c s = Some (Ok (answer E p c s), after E p c s)"
  by (simp add: sys_def answer_def after_def split: prod.splits)

lemma m_log_after [simp]: "m_log (after E p c s) = m_log s @ [(p, c, answer E p c s)]"
  by (simp add: after_def answer_def split: prod.splits)

lemma sys_run [run_simps]:
  "sys E p c s = Some (r, s') \<longleftrightarrow> r = Ok (answer E p c s) \<and> s' = after E p c s"
  by (auto simp: sys_eq)

lemma c_result_Ok [run_simps]:
  "c_result E p c s = Some (Ok r, s') \<longleftrightarrow>
     r = answer E p c s \<and> r_ret r \<noteq> -1 \<and> s' = after E p c s"
  by (auto simp: c_result_def run_simps)

lemma c_result_Err [run_simps]:
  "c_result E p c s = Some (Err e, s') \<longleftrightarrow>
     r_ret (answer E p c s) = -1 \<and> e = OsErr (r_errno (answer E p c s)) \<and> s' = after E p c s"
  by (auto simp: c_result_def run_simps)

lemma c_result_Panic [run_simps]: "c_result E p c s \<noteq> Some (Panic, s')"
  by (auto simp: c_result_def run_simps)

lemma drop_fd_run [run_simps]:
  "drop_fd E p fd s = Some (r, s') \<longleftrightarrow> r = Ok () \<and> s' = after E p (Close fd) s"
  by (auto simp: drop_fd_def bindR_run run_simps)

lemma owning_run [run_simps]:
  "owning E p fd m s = Some (r, s') \<longleftrightarrow> (\<exists>s1. m s = Some (r, s1) \<and> s' = after E p (Close fd) s1)"
  by (auto simp: owning_def ensuring_run run_simps)

section \<open>Which calls a computation makes\<close>

text \<open>Calls that only look: they allocate, open, read and close. And the calls by which a process
  changes who it is, what it sees, or the file system.\<close>

definition inspecting :: "call \<Rightarrow> bool" where
  "inspecting c = (case c of Alloc _ \<Rightarrow> True | Openat _ _ _ _ \<Rightarrow> True | Close _ \<Rightarrow> True
     | Read _ _ \<Rightarrow> True | Pread _ _ _ \<Rightarrow> True | _ \<Rightarrow> False)"

definition privileged :: "call \<Rightarrow> bool" where
  "privileged c = (case c of Fchdir _ \<Rightarrow> True | Chroot _ \<Rightarrow> True | Chdir _ \<Rightarrow> True
     | Setns _ _ \<Rightarrow> True | Umask _ \<Rightarrow> True | PrctlSetSecurebits _ \<Rightarrow> True | Setegid _ \<Rightarrow> True
     | Setfsgid _ \<Rightarrow> True | Seteuid _ \<Rightarrow> True | Setfsuid _ \<Rightarrow> True | Capset _ _ _ \<Rightarrow> True
     | Mknodat _ _ _ _ \<Rightarrow> True | Quotactl _ _ _ _ \<Rightarrow> True | _ \<Rightarrow> False)"

lemma inspecting_simps [simp]:
  "inspecting (Alloc n)" "inspecting (Openat d f g m)" "inspecting (Close fd)"
  "inspecting (Read fd n)" "inspecting (Pread fd n ofs)"
  by (simp_all add: inspecting_def)

lemma inspecting_not_privileged: "inspecting c \<Longrightarrow> \<not> privileged c"
  by (simp add: inspecting_def privileged_def split: call.splits)

text \<open>\<open>along P h t\<close>: every event of \<open>t\<close> satisfies \<open>P\<close>, which also sees the history before the
  event; the history starts as \<open>h\<close>. \<open>emits P m\<close>: however \<open>m\<close> ends, it only extends the log, by
  events that satisfy \<open>P\<close>.\<close>

fun along :: "(event list \<Rightarrow> event \<Rightarrow> bool) \<Rightarrow> event list \<Rightarrow> event list \<Rightarrow> bool" where
  "along P h [] = True"
| "along P h (e # t) = (P h e \<and> along P (h @ [e]) t)"

definition emits :: "(event list \<Rightarrow> event \<Rightarrow> bool) \<Rightarrow> ('w, 'e, 'a) io \<Rightarrow> bool" where
  "emits P m \<longleftrightarrow> (\<forall>s r s'. m s = Some (r, s') \<longrightarrow> (\<exists>t. m_log s' = m_log s @ t \<and> along P (m_log s) t))"

lemma along_append [simp]: "along P h (t @ u) \<longleftrightarrow> along P h t \<and> along P (h @ t) u"
  by (induction t arbitrary: h) simp_all

lemma along_mono: "along P h t \<Longrightarrow> (\<And>h e. P h e \<Longrightarrow> Q h e) \<Longrightarrow> along Q h t"
  by (induction t arbitrary: h) auto

lemma along_const: "along (\<lambda>h. P) h t \<longleftrightarrow> list_all P t"
  by (induction t arbitrary: h) simp_all

text \<open>Every event of a log satisfies the predicate at its place.\<close>

lemma alongD: "along P h (t @ e # u) \<Longrightarrow> P (h @ t) e"
  by simp

named_theorems emits_intros \<open>rules for \<open>emits\<close>, one per construct and component\<close>

lemma emitsD:
  assumes "emits P m" and "m s = Some (r, s')"
  obtains t where "m_log s' = m_log s @ t" and "along P (m_log s) t"
  using assms unfolding emits_def by blast

lemma emits_mono: "emits P m \<Longrightarrow> (\<And>h e. P h e \<Longrightarrow> Q h e) \<Longrightarrow> emits Q m"
  unfolding emits_def by (metis along_mono)

lemma emits_ret [emits_intros]: "emits P (ret a)"
  by (simp add: emits_def run_simps)

lemma emits_raise [emits_intros]: "emits P (raise e)"
  by (simp add: emits_def run_simps)

lemma emits_panic [emits_intros]: "emits P panic"
  by (simp add: emits_def run_simps)

lemma emits_sys [emits_intros]: "(\<And>h r. P h (p, c, r)) \<Longrightarrow> emits P (sys E p c)"
  by (simp add: emits_def run_simps)

lemma emits_bindR [emits_intros]:
  assumes m: "emits P m" and f: "\<And>a. emits P (f a)"
  shows "emits P (bindR m f)"
  unfolding emits_def
proof (intro allI impI)
  fix s r s'
  assume "bindR m f s = Some (r, s')"
  then consider (ok) a s1 where "m s = Some (Ok a, s1)" "f a s1 = Some (r, s')"
    | (stop) r' where "m s = Some (r', s')"
    by (auto simp: bindR_run)
  then show "\<exists>t. m_log s' = m_log s @ t \<and> along P (m_log s) t"
  proof cases
    case ok
    obtain t1 where "m_log s1 = m_log s @ t1" "along P (m_log s) t1" using m ok(1) by (rule emitsD)
    moreover obtain t2 where "m_log s' = m_log s1 @ t2" "along P (m_log s1) t2"
      using f ok(2) by (rule emitsD)
    ultimately show ?thesis by auto
  next
    case stop
    then show ?thesis using m by (auto simp: emits_def)
  qed
qed

lemma emits_map_err [emits_intros]: "emits P m \<Longrightarrow> emits P (map_err g m)"
  unfolding emits_def map_err_def by (auto split: option.splits)

lemma emits_matchR [emits_intros]:
  assumes m: "emits P m" and f: "\<And>a. emits P (f a)" and h: "\<And>e. emits P (h e)"
  shows "emits P (matchR m f h)"
proof -
  have "\<exists>t. m_log s' = m_log s @ t \<and> along P (m_log s) t" if "matchR m f h s = Some (r, s')" for s r s'
  proof -
    from that m obtain s1 t1 where "m_log s1 = m_log s @ t1" "along P (m_log s) t1"
      and "(\<exists>a. f a s1 = Some (r, s')) \<or> (\<exists>e. h e s1 = Some (r, s')) \<or> s' = s1"
      by (auto simp: matchR_run emits_def) blast+
    with f h show ?thesis by (fastforce elim: emitsD)
  qed
  then show ?thesis by (simp add: emits_def)
qed

lemma emits_ensuring [emits_intros]:
  assumes m: "emits P m" and c: "emits P c"
  shows "emits P (ensuring m c)"
  unfolding emits_def
proof (intro allI impI)
  fix s r s'
  assume "ensuring m c s = Some (r, s')"
  then obtain s1 r1 where run: "m s = Some (r, s1)" "c s1 = Some (r1, s')"
    by (auto simp: ensuring_run)
  obtain t1 where "m_log s1 = m_log s @ t1" "along P (m_log s) t1" using m run(1) by (rule emitsD)
  moreover obtain t2 where "m_log s' = m_log s1 @ t2" "along P (m_log s1) t2"
    using c run(2) by (rule emitsD)
  ultimately show "\<exists>t. m_log s' = m_log s @ t \<and> along P (m_log s) t" by auto
qed

lemma emits_on_failure [emits_intros]:
  assumes m: "emits P m" and c: "emits P c"
  shows "emits P (on_failure m c)"
  unfolding emits_def
proof (intro allI impI)
  fix s r s'
  assume "on_failure m c s = Some (r, s')"
  then obtain s1 r1 where run: "m s = Some (r, s1)" "s' = s1 \<or> c s1 = Some (r1, s')"
    by (auto simp: on_failure_run)
  obtain t1 where "m_log s1 = m_log s @ t1" "along P (m_log s) t1" using m run(1) by (rule emitsD)
  with run(2) c show "\<exists>t. m_log s' = m_log s @ t \<and> along P (m_log s) t"
    by (fastforce elim: emitsD)
qed

lemma emits_if [emits_intros]: "(b \<Longrightarrow> emits P m) \<Longrightarrow> (\<not> b \<Longrightarrow> emits P n) \<Longrightarrow> emits P (if b then m else n)"
  by simp

lemma emits_case_option [emits_intros]:
  "(x = None \<Longrightarrow> emits P m) \<Longrightarrow> (\<And>a. x = Some a \<Longrightarrow> emits P (f a))
     \<Longrightarrow> emits P (case x of None \<Rightarrow> m | Some a \<Rightarrow> f a)"
  by (cases x) simp_all

lemma emits_case_prod [emits_intros]:
  "(\<And>a b. x = (a, b) \<Longrightarrow> emits P (f a b)) \<Longrightarrow> emits P (case x of (a, b) \<Rightarrow> f a b)"
  by (cases x) simp

lemma emits_case_list [emits_intros]:
  "(x = [] \<Longrightarrow> emits P m) \<Longrightarrow> (\<And>a as. x = a # as \<Longrightarrow> emits P (f a as))
     \<Longrightarrow> emits P (case x of [] \<Rightarrow> m | a # as \<Rightarrow> f a as)"
  by (cases x) simp_all

lemma emits_let [emits_intros]: "(\<And>a. a = x \<Longrightarrow> emits P (f a)) \<Longrightarrow> emits P (let a = x in f a)"
  by simp

text \<open>The continuation only ever sees values the first part returned.\<close>

lemma emits_bindR_result:
  assumes m: "emits P m" and f: "\<And>a s s1. m s = Some (Ok a, s1) \<Longrightarrow> emits P (f a)"
  shows "emits P (bindR m f)"
proof -
  have "bindR m f = bindR m (\<lambda>a. if \<exists>s s1. m s = Some (Ok a, s1) then f a else panic)"
    by (auto simp: bindR_def fun_eq_iff split: option.splits res.splits)
  moreover have "emits P (bindR m (\<lambda>a. if \<exists>s s1. m s = Some (Ok a, s1) then f a else panic))"
    using m f by (intro emits_intros) blast+
  ultimately show ?thesis by simp
qed

lemma emits_ok_or [emits_intros]: "emits P (ok_or e x)"
  unfolding ok_or_def by (intro emits_intros)

lemma emits_of_res [emits_intros]: "emits P (of_res x)"
  by (simp add: emits_def run_simps)

lemma emits_unwrap [emits_intros]: "emits P (unwrap x)"
  unfolding unwrap_def by (intro emits_intros)

lemma emits_c_result [emits_intros]: "(\<And>h r. P h (p, c, r)) \<Longrightarrow> emits P (c_result E p c)"
  unfolding c_result_def by (intro emits_intros)

lemma emits_eprintln [emits_intros]: "(\<And>h bs r. P h (p, Print 2 bs, r)) \<Longrightarrow> emits P (eprintln E p msg)"
  unfolding eprintln_def by (intro emits_intros)

lemma emits_drop_fd [emits_intros]: "(\<And>h r. P h (p, Close fd, r)) \<Longrightarrow> emits P (drop_fd E p fd)"
  unfolding drop_fd_def by (intro emits_intros)

lemma emits_drop_fds [emits_intros]:
  "(\<And>h fd r. P h (p, Close fd, r)) \<Longrightarrow> emits P (drop_fds E p fds)"
  by (induction fds) (auto intro!: emits_intros)

lemma emits_owning [emits_intros]:
  "emits P m \<Longrightarrow> (\<And>h r. P h (p, Close fd, r)) \<Longrightarrow> emits P (owning E p fd m)"
  unfolding owning_def by (intro emits_intros)

text \<open>A loop emits what its body emits: fixpoint induction, once.\<close>

lemma loopM_extends:
  fixes body :: "'a \<Rightarrow> ('w, 'e, 'a + 'b) io"
  assumes body: "\<And>a. emits P (body a)" and run: "loopM body a s = Some y"
  shows "\<exists>t. m_log (snd y) = m_log s @ t \<and> along P (m_log s) t"
proof -
  let ?Q = "\<lambda>(b :: 'a \<Rightarrow> ('w, 'e, 'a + 'b) io) (a :: 'a) (s :: 'w mach) (y :: ('e, 'b) res \<times> 'w mach).
       (\<forall>a. emits P (b a)) \<longrightarrow> (\<exists>t. m_log (snd y) = m_log s @ t \<and> along P (m_log s) t)"
  have "?Q body a s y"
  proof (rule loopM.raw_induct [where P = ?Q, OF _ run])
    fix loop :: "('a \<Rightarrow> ('w, 'e, 'a + 'b) io) \<Rightarrow> 'a \<Rightarrow> ('w, 'e, 'b) io" and b a s y
    assume IH: "\<And>b a s y. loop b a s = Some y \<Longrightarrow> ?Q b a s y"
      and step: "(case b a s of None \<Rightarrow> None
         | Some (r, s') \<Rightarrow> (case r of
              Ok x \<Rightarrow> (case x of Inl a' \<Rightarrow> loop b a' s' | Inr b \<Rightarrow> Some (Ok b, s'))
            | Err e \<Rightarrow> Some (Err e, s') | Panic \<Rightarrow> Some (Panic, s'))) = Some y"
    show "?Q b a s y"
    proof
      assume b: "\<forall>a. emits P (b a)"
      from step obtain r s1 where s1: "b a s = Some (r, s1)"
        by (auto split: option.splits)
      with b obtain t1 where t1: "m_log s1 = m_log s @ t1" "along P (m_log s) t1"
        by (blast elim: emitsD)
      from step s1 consider (again) a' where "loop b a' s1 = Some y" | (stop) "snd y = s1"
        by (auto split: res.splits sum.splits)
      then show "\<exists>t. m_log (snd y) = m_log s @ t \<and> along P (m_log s) t"
      proof cases
        case again
        with IH b obtain t2 where "m_log (snd y) = m_log s1 @ t2" "along P (m_log s1) t2" by blast
        with t1 show ?thesis by auto
      next
        case stop
        with t1 show ?thesis by auto
      qed
    qed
  qed
  with body show ?thesis by simp
qed

lemma emits_loopM [emits_intros]:
  assumes "\<And>a. emits P (body a)"
  shows "emits P (loopM body a)"
  unfolding emits_def using loopM_extends [OF assms] by fastforce

section \<open>The last round of a loop\<close>

text \<open>How one round of a loop ends it.\<close>

definition ends_loop :: "('e, 'a + 'b) res \<Rightarrow> ('e, 'b) res \<Rightarrow> bool" where
  "ends_loop x r = (case x of Ok y \<Rightarrow> (case y of Inl a \<Rightarrow> False | Inr b \<Rightarrow> r = Ok b)
     | Err e \<Rightarrow> r = Err e | Panic \<Rightarrow> r = Panic)"

lemma ends_loop_simps [simp]:
  "ends_loop x (Ok b) \<longleftrightarrow> x = Ok (Inr b)"
  "ends_loop x (Err e) \<longleftrightarrow> x = Err e"
  "ends_loop x Panic \<longleftrightarrow> x = Panic"
  by (auto simp: ends_loop_def split: res.splits sum.splits)

text \<open>A loop that ends has a last round, and an invariant holds when it begins.\<close>

lemma loopM_last:
  fixes body :: "'a \<Rightarrow> ('w, 'e, 'a + 'b) io"
  assumes run: "loopM body a s = Some (r, s')" and start: "I a s"
    and step: "\<And>a s a' s'. I a s \<Longrightarrow> body a s = Some (Ok (Inl a'), s') \<Longrightarrow> I a' s'"
  obtains a1 s1 x where "I a1 s1" and "body a1 s1 = Some (x, s')" and "ends_loop x r"
proof -
  let ?Q = "\<lambda>(b :: 'a \<Rightarrow> ('w, 'e, 'a + 'b) io) (a :: 'a) (s :: 'w mach) (y :: ('e, 'b) res \<times> 'w mach).
       b = body \<longrightarrow> I a s \<longrightarrow> (\<exists>a1 s1 x. I a1 s1 \<and> b a1 s1 = Some (x, snd y) \<and> ends_loop x (fst y))"
  have "?Q body a s (r, s')"
  proof (rule loopM.raw_induct [where P = ?Q, OF _ run])
    fix loop :: "('a \<Rightarrow> ('w, 'e, 'a + 'b) io) \<Rightarrow> 'a \<Rightarrow> ('w, 'e, 'b) io" and b a s y
    assume IH: "\<And>b a s y. loop b a s = Some y \<Longrightarrow> ?Q b a s y"
      and round: "(case b a s of None \<Rightarrow> None
         | Some (r, s') \<Rightarrow> (case r of
              Ok x \<Rightarrow> (case x of Inl a' \<Rightarrow> loop b a' s' | Inr b \<Rightarrow> Some (Ok b, s'))
            | Err e \<Rightarrow> Some (Err e, s') | Panic \<Rightarrow> Some (Panic, s'))) = Some y"
    show "?Q b a s y"
    proof (intro impI)
      assume b: "b = body" and inv: "I a s"
      from round obtain x s1 where x: "b a s = Some (x, s1)" by (auto split: option.splits)
      show "\<exists>a1 s1 x. I a1 s1 \<and> b a1 s1 = Some (x, snd y) \<and> ends_loop x (fst y)"
      proof (cases "\<exists>a'. x = Ok (Inl a')")
        case True
        then obtain a' where a': "x = Ok (Inl a')" by blast
        with round x have "loop b a' s1 = Some y" by simp
        moreover have "I a' s1" using step inv x b a' by simp
        ultimately show ?thesis using IH b by blast
      next
        case False
        with round x have "ends_loop x (fst y) \<and> snd y = s1"
          by (auto simp: ends_loop_def split: res.splits sum.splits)
        with inv x show ?thesis by auto
      qed
    qed
  qed
  with start that show thesis by auto
qed

text \<open>The privileged calls of a log, in order, each with the process that made it.\<close>

definition priv :: "event list \<Rightarrow> (actor \<times> call) list" where
  "priv t = map (\<lambda>e. (ev_actor e, ev_call e)) (filter (\<lambda>e. privileged (ev_call e)) t)"

lemma priv_append [simp]: "priv (t @ u) = priv t @ priv u"
  by (simp add: priv_def)

lemma priv_Cons [simp]: "priv (e # t) =
     (if privileged (ev_call e) then (ev_actor e, ev_call e) # priv t else priv t)"
  by (simp add: priv_def)

lemma priv_Nil [simp]: "priv [] = []"
  by (simp add: priv_def)

lemma priv_quiet: "list_all (\<lambda>e. \<not> privileged (ev_call e)) t \<Longrightarrow> priv t = []"
  by (induction t) (simp_all add: priv_def)

lemma quietD:
  assumes "emits (\<lambda>h e. \<not> privileged (ev_call e)) m" and "m s = Some (r, s')"
  shows "priv (m_log s') = priv (m_log s)"
  using assms by (auto elim!: emitsD simp: priv_quiet along_const)

lemma privileged_simps [simp]:
  "privileged (Fchdir fd)" "privileged (Chroot f)" "privileged (Chdir f)" "privileged (Setns fd t)"
  "privileged (Umask m)" "privileged (PrctlSetSecurebits b)" "privileged (Setegid u)"
  "privileged (Setfsgid u)" "privileged (Seteuid u)" "privileged (Setfsuid u)"
  "privileged (Capset v pid cs)" "privileged (Mknodat d f m dev)" "privileged (Quotactl q sp i a)"
  "\<not> privileged (Open f fl m)" "\<not> privileged (Write fd bs)" "\<not> privileged (Close fd)"
  "\<not> privileged (Openat d f fl m)" "\<not> privileged PrctlGetSecurebits" "\<not> privileged Getpid" "\<not> privileged (Print fd bs)"
  by (simp_all add: privileged_def)

section \<open>Sample environments\<close>

text \<open>Concrete environments for evaluation: one that answers each call by a fixed function, with
  Linux' encoding of device numbers.\<close>

definition linux_major :: "u64 \<Rightarrow> u64" where
  "linux_major dev = (drop_bit 8 dev AND 0xfff) OR (drop_bit 32 dev AND NOT 0xfff)"

definition linux_minor :: "u64 \<Rightarrow> u64" where
  "linux_minor dev = (dev AND 0xff) OR (drop_bit 12 dev AND NOT 0xff)"

definition env_of :: "(actor \<Rightarrow> call \<Rightarrow> 'w \<Rightarrow> resp \<times> 'w) \<Rightarrow> 'w env" where
  "env_of k = \<lparr>kern = k, dev_major = linux_major, dev_minor = linux_minor,
     oflag_known = (\<lambda>_. True), unix_addr = Some, display = (\<lambda>_. [])\<rparr>"

definition returns :: "int \<Rightarrow> resp" where
  "returns n = \<lparr>r_ret = n, r_errno = 0, r_data = [], r_ctl = [], r_ctllen = 0, r_fds = []\<rparr>"

definition fails :: "i32 \<Rightarrow> resp" where
  "fails errno = \<lparr>r_ret = -1, r_errno = errno, r_data = [], r_ctl = [], r_ctllen = 0, r_fds = []\<rparr>"

definition delivers :: "bytes \<Rightarrow> resp" where
  "delivers bs = \<lparr>r_ret = int (length bs), r_errno = 0, r_data = bs, r_ctl = [], r_ctllen = 0, r_fds = []\<rparr>"

text \<open>The world of a script is the list of answers still to come.\<close>

definition script :: "resp list env" where
  "script = env_of (\<lambda>p c w. case w of [] \<Rightarrow> (returns 0, []) | r # rs \<Rightarrow> (r, rs))"

definition boot :: "'w \<Rightarrow> 'w mach" where
  "boot w = \<lparr>m_world = w, m_log = [], m_sizes = StaticUninit\<rparr>"

lemmas sample_defs = env_of_def returns_def fails_def delivers_def script_def boot_def

end
