(* ===== verification/Seccomp.thy ===== *)
theory Seccomp
  imports Runtime
begin

text \<open>
  \<^verbatim>\<open>src/seccomp.rs\<close>: the kernel's seccomp notification structures, their memory layout
  on x86_64, and the check that the kernel's view of their sizes is the one compiled in. Field
  names carry a letter for their structure (\<open>d\<close>ata, \<open>n\<close>otif, res\<open>p\<close>onse, si\<open>z\<close>es).
\<close>

record SeccompData =
  d_nr :: i32
  d_arch :: u32
  d_instruction_pointer :: u64
  d_args :: "u64 list"

record SeccompNotif =
  n_id :: u64
  n_pid :: u32
  n_flags :: u32
  n_data :: SeccompData

record SeccompNotifResp =
  p_id :: u64
  p_val :: i64
  p_error :: i32
  p_flags :: u32

record SeccompNotifSizes =
  z_notif :: u16
  z_notif_resp :: u16
  z_data :: u16

section \<open>Memory layout\<close>

definition sizeof_SeccompData :: nat where "sizeof_SeccompData = 64"
definition sizeof_SeccompNotif :: nat where "sizeof_SeccompNotif = 80"
definition sizeof_SeccompNotifResp :: nat where "sizeof_SeccompNotifResp = 24"
definition sizeof_SeccompNotifSizes :: nat where "sizeof_SeccompNotifSizes = 6"

lemmas sizeof_seccomp = sizeof_SeccompData_def sizeof_SeccompNotif_def
  sizeof_SeccompNotifResp_def sizeof_SeccompNotifSizes_def

definition enc_SeccompData :: "SeccompData \<Rightarrow> bytes" where
  "enc_SeccompData d = le_bytes 4 (d_nr d) @ le_bytes 4 (d_arch d)
     @ le_bytes 8 (d_instruction_pointer d) @ concat (map (le_bytes 8) (d_args d))"

definition dec_SeccompData :: "bytes \<Rightarrow> SeccompData" where
  "dec_SeccompData bs = \<lparr>d_nr = le_word (chunk 0 4 bs), d_arch = le_word (chunk 4 4 bs),
     d_instruction_pointer = le_word (chunk 8 8 bs),
     d_args = map (\<lambda>i. le_word (chunk (16 + 8 * i) 8 bs)) [0..<6]\<rparr>"

text \<open>\<^verbatim>\<open>args: [u64; 6]\<close>.\<close>

definition wf_SeccompData :: "SeccompData \<Rightarrow> bool" where
  "wf_SeccompData d \<longleftrightarrow> length (d_args d) = 6"

definition enc_SeccompNotif :: "SeccompNotif \<Rightarrow> bytes" where
  "enc_SeccompNotif n = le_bytes 8 (n_id n) @ le_bytes 4 (n_pid n) @ le_bytes 4 (n_flags n)
     @ enc_SeccompData (n_data n)"

definition dec_SeccompNotif :: "bytes \<Rightarrow> SeccompNotif" where
  "dec_SeccompNotif bs = \<lparr>n_id = le_word (chunk 0 8 bs), n_pid = le_word (chunk 8 4 bs),
     n_flags = le_word (chunk 12 4 bs), n_data = dec_SeccompData (chunk 16 64 bs)\<rparr>"

definition wf_SeccompNotif :: "SeccompNotif \<Rightarrow> bool" where
  "wf_SeccompNotif n \<longleftrightarrow> wf_SeccompData (n_data n)"

definition enc_SeccompNotifResp :: "SeccompNotifResp \<Rightarrow> bytes" where
  "enc_SeccompNotifResp r = le_bytes 8 (p_id r) @ le_bytes 8 (p_val r) @ le_bytes 4 (p_error r)
     @ le_bytes 4 (p_flags r)"

definition dec_SeccompNotifResp :: "bytes \<Rightarrow> SeccompNotifResp" where
  "dec_SeccompNotifResp bs = \<lparr>p_id = le_word (chunk 0 8 bs), p_val = le_word (chunk 8 8 bs),
     p_error = le_word (chunk 16 4 bs), p_flags = le_word (chunk 20 4 bs)\<rparr>"

definition enc_SeccompNotifSizes :: "SeccompNotifSizes \<Rightarrow> bytes" where
  "enc_SeccompNotifSizes z = le_bytes 2 (z_notif z) @ le_bytes 2 (z_notif_resp z)
     @ le_bytes 2 (z_data z)"

definition dec_SeccompNotifSizes :: "bytes \<Rightarrow> SeccompNotifSizes" where
  "dec_SeccompNotifSizes bs = \<lparr>z_notif = le_word (chunk 0 2 bs), z_notif_resp = le_word (chunk 2 2 bs),
     z_data = le_word (chunk 4 2 bs)\<rparr>"

text \<open>The layouts are one-to-one, field by field.\<close>

lemma length_concat_le: "length (concat (map (le_bytes 8) ws)) = 8 * length ws"
  by (induction ws) simp_all

lemma chunk_args:
  assumes "i < length ws"
  shows "chunk (8 * i) 8 (concat (map (le_bytes 8) ws)) = le_bytes 8 (ws ! i)"
  using assms
proof (induction ws arbitrary: i)
  case Nil
  then show ?case by simp
next
  case (Cons w ws)
  then show ?case
    by (cases i) (simp_all add: chunk_def)
qed

lemma concat_chunks:
  "length bs = 8 * n \<Longrightarrow> concat (map (\<lambda>i. chunk (8 * i) 8 bs) [0..<n]) = bs"
proof (induction n arbitrary: bs)
  case 0
  then show ?case by simp
next
  case (Suc n)
  then have "concat (map (\<lambda>i. chunk (8 * i) 8 (take (8 * n) bs)) [0..<n]) = take (8 * n) bs"
    by simp
  moreover have "map (\<lambda>i. chunk (8 * i) 8 (take (8 * n) bs)) [0..<n] = map (\<lambda>i. chunk (8 * i) 8 bs) [0..<n]"
    by (rule map_cong) (auto simp: chunk_def take_drop min_def)
  moreover have "chunk (8 * n) 8 bs = drop (8 * n) bs"
    using Suc.prems by (simp add: chunk_def)
  ultimately show ?case using Suc.prems by simp
qed

interpretation SeccompData_codec:
  fixed_codec enc_SeccompData dec_SeccompData sizeof_SeccompData wf_SeccompData
proof unfold_locales
  fix d
  assume wf: "wf_SeccompData d"
  let ?a = "concat (map (le_bytes 8) (d_args d))"
  show "length (enc_SeccompData d) = sizeof_SeccompData"
    using wf by (simp add: enc_SeccompData_def wf_SeccompData_def sizeof_seccomp length_concat_le)
  have "chunk (16 + 8 * i) 8 (enc_SeccompData d) = chunk (8 * i) 8 ?a" for i
    by (simp add: enc_SeccompData_def chunk_def)
  then have "d_args (dec_SeccompData (enc_SeccompData d)) = d_args d"
    using wf by (intro nth_equalityI) (auto simp: dec_SeccompData_def wf_SeccompData_def chunk_args)
  then show "dec_SeccompData (enc_SeccompData d) = d"
    by (cases d) (simp add: dec_SeccompData_def enc_SeccompData_def chunk_def)
next
  fix bs :: bytes
  assume len: "length bs = sizeof_SeccompData"
  have "concat (map (\<lambda>i. chunk (8 * i) 8 (drop 16 bs)) [0..<6]) = drop 16 bs"
    using len by (intro concat_chunks) (simp add: sizeof_seccomp)
  moreover have "map (le_bytes 8) (d_args (dec_SeccompData bs)) = map (\<lambda>i. chunk (8 * i) 8 (drop 16 bs)) [0..<6]"
    using len by (auto simp: dec_SeccompData_def chunk_def sizeof_seccomp add.commute intro!: map_cong le_bytes_u64)
  ultimately have "concat (map (le_bytes 8) (d_args (dec_SeccompData bs))) = chunk 16 48 bs"
    using len by (simp add: chunk_def sizeof_seccomp)
  then show "enc_SeccompData (dec_SeccompData bs) = bs"
    using len by (simp add: enc_SeccompData_def dec_SeccompData_def byte_simps sizeof_seccomp)
  show "wf_SeccompData (dec_SeccompData bs)"
    by (simp add: wf_SeccompData_def dec_SeccompData_def)
qed


interpretation SeccompNotif_codec:
  fixed_codec enc_SeccompNotif dec_SeccompNotif sizeof_SeccompNotif wf_SeccompNotif
proof unfold_locales
  fix n
  assume wf: "wf_SeccompNotif n"
  then have len: "length (enc_SeccompData (n_data n)) = 64"
    using SeccompData_codec.length_enc by (simp add: wf_SeccompNotif_def sizeof_seccomp)
  then show "length (enc_SeccompNotif n) = sizeof_SeccompNotif"
    by (simp add: enc_SeccompNotif_def sizeof_seccomp)
  show "dec_SeccompNotif (enc_SeccompNotif n) = n"
    using wf len SeccompData_codec.dec_enc
    by (cases n) (simp add: dec_SeccompNotif_def enc_SeccompNotif_def chunk_def wf_SeccompNotif_def)
next
  fix bs :: bytes
  assume len: "length bs = sizeof_SeccompNotif"
  then have "length (chunk 16 64 bs) = sizeof_SeccompData"
    by (simp add: sizeof_seccomp chunk_def)
  then show "enc_SeccompNotif (dec_SeccompNotif bs) = bs" "wf_SeccompNotif (dec_SeccompNotif bs)"
    using len SeccompData_codec.enc_dec SeccompData_codec.inv_dec
    by (simp_all add: enc_SeccompNotif_def dec_SeccompNotif_def byte_simps sizeof_seccomp wf_SeccompNotif_def)
qed

interpretation SeccompNotifResp_codec:
  fixed_codec enc_SeccompNotifResp dec_SeccompNotifResp sizeof_SeccompNotifResp "\<lambda>_. True"
proof unfold_locales
  fix r
  show "length (enc_SeccompNotifResp r) = sizeof_SeccompNotifResp"
    by (simp add: enc_SeccompNotifResp_def sizeof_seccomp)
  show "dec_SeccompNotifResp (enc_SeccompNotifResp r) = r"
    by (cases r) (simp add: dec_SeccompNotifResp_def enc_SeccompNotifResp_def chunk_def)
next
  fix bs :: bytes
  assume "length bs = sizeof_SeccompNotifResp"
  then show "enc_SeccompNotifResp (dec_SeccompNotifResp bs) = bs"
    by (simp add: enc_SeccompNotifResp_def dec_SeccompNotifResp_def byte_simps sizeof_seccomp)
qed simp

interpretation SeccompNotifSizes_codec:
  fixed_codec enc_SeccompNotifSizes dec_SeccompNotifSizes sizeof_SeccompNotifSizes "\<lambda>_. True"
proof unfold_locales
  fix z
  show "length (enc_SeccompNotifSizes z) = sizeof_SeccompNotifSizes"
    by (simp add: enc_SeccompNotifSizes_def sizeof_seccomp)
  show "dec_SeccompNotifSizes (enc_SeccompNotifSizes z) = z"
    by (cases z) (simp add: dec_SeccompNotifSizes_def enc_SeccompNotifSizes_def chunk_def)
next
  fix bs :: bytes
  assume "length bs = sizeof_SeccompNotifSizes"
  then show "enc_SeccompNotifSizes (dec_SeccompNotifSizes bs) = bs"
    by (simp add: enc_SeccompNotifSizes_def dec_SeccompNotifSizes_def byte_simps sizeof_seccomp)
qed simp

section \<open>Agreement with the kernel\<close>

definition SeccompNotifSizes_get :: "'w env \<Rightarrow> actor \<Rightarrow> ('w, io_error, SeccompNotifSizes) io" where
  "SeccompNotifSizes_get E p =
     (let this = \<lparr>z_notif = 0, z_notif_resp = 0, z_data = 0\<rparr>
      in bindR (sys E p SeccompGetNotifSizes) (\<lambda>r.
           if r_ret r = 0 then ret (dec_SeccompNotifSizes (fill (enc_SeccompNotifSizes this) (r_data r)))
           else raise (OsErr (r_errno r))))"

definition SeccompNotifSizes_check :: "SeccompNotifSizes \<Rightarrow> (io_error, unit) res" where
  "SeccompNotifSizes_check z =
     (if unat (z_notif z) \<noteq> sizeof_SeccompNotif
         \<or> unat (z_notif_resp z) \<noteq> sizeof_SeccompNotifResp
         \<or> unat (z_data z) \<noteq> sizeof_SeccompData
      then Err (KindErr Other) else Ok ())"

definition SeccompNotifSizes_get_checked ::
  "'w env \<Rightarrow> actor \<Rightarrow> ('w, io_error, SeccompNotifSizes) io" where
  "SeccompNotifSizes_get_checked E p =
     bindR (SeccompNotifSizes_get E p) (\<lambda>this.
     bindR (of_res (SeccompNotifSizes_check this)) (\<lambda>_. ret this))"

text \<open>The only sizes that pass are the ones of the compiled-in structures.\<close>

definition expected_sizes :: SeccompNotifSizes where
  "expected_sizes = \<lparr>z_notif = 80, z_notif_resp = 24, z_data = 64\<rparr>"

lemma check_Ok_iff: "SeccompNotifSizes_check z = Ok () \<longleftrightarrow> z = expected_sizes"
proof
  assume "SeccompNotifSizes_check z = Ok ()"
  then have "unat (z_notif z) = unat (80 :: u16)" "unat (z_notif_resp z) = unat (24 :: u16)"
    "unat (z_data z) = unat (64 :: u16)"
    by (auto simp: SeccompNotifSizes_check_def sizeof_seccomp split: if_splits)
  then have "z_notif z = 80" "z_notif_resp z = 24" "z_data z = 64"
    by (simp_all only: word_unat_eq_iff)
  then show "z = expected_sizes" by (cases z) (simp add: expected_sizes_def)
qed (simp add: SeccompNotifSizes_check_def expected_sizes_def sizeof_seccomp)

lemma get_checked_Ok:
  "SeccompNotifSizes_get_checked E p s = Some (Ok z, s') \<Longrightarrow> z = expected_sizes"
  by (auto simp: SeccompNotifSizes_get_checked_def run_simps check_Ok_iff)

lemma emits_get_checked [emits_intros]:
  "(\<And>h r. P h (p, SeccompGetNotifSizes, r)) \<Longrightarrow> emits P (SeccompNotifSizes_get_checked E p)"
  unfolding SeccompNotifSizes_get_checked_def SeccompNotifSizes_get_def
  by (auto simp: Let_def intro!: emits_intros)

section \<open>Properties\<close>



text \<open>The size check passes for exactly one triple of sizes, the sizes of the compiled-in
  structures; with any other answer of the kernel the query fails.\<close>

theorem get_checked_iff:
  "(\<exists>s'. SeccompNotifSizes_get_checked E p s = Some (Ok z, s')) \<longleftrightarrow>
     r_ret (answer E p SeccompGetNotifSizes s) = 0 \<and> z = expected_sizes
     \<and> fill (replicate 6 0) (r_data (answer E p SeccompGetNotifSizes s)) = enc_SeccompNotifSizes expected_sizes"
proof -
  have zero: "enc_SeccompNotifSizes \<lparr>z_notif = 0, z_notif_resp = 0, z_data = 0\<rparr> = replicate 6 0"
    by (simp add: enc_SeccompNotifSizes_def le_bytes_zero numeral_eq_Suc)
  have dec: "dec_SeccompNotifSizes (fill (replicate 6 0) bs) = expected_sizes
      \<longleftrightarrow> fill (replicate 6 0) bs = enc_SeccompNotifSizes expected_sizes" for bs
    using SeccompNotifSizes_codec.enc_dec [of "fill (replicate 6 0) bs"] SeccompNotifSizes_codec.dec_enc
    by (auto simp: sizeof_SeccompNotifSizes_def)
  show ?thesis
    by (auto simp: SeccompNotifSizes_get_checked_def SeccompNotifSizes_get_def run_simps check_Ok_iff zero
      simp flip: dec)
qed

end
