(* ===== verification/Cmsg.thy ===== *)
theory Cmsg
  imports Runtime
begin

text \<open>
  \<^verbatim>\<open>src/io/cmsg.rs\<close>: the layout of socket control messages and the iterator over a
  received control buffer. Sizes are \<^verbatim>\<open>usize\<close>, so the arithmetic is on 64-bit words;
  an out-of-range slice is a panic. The lemmas give the alignment arithmetic, that the iterator
  makes progress and never reads outside the buffer, and that it reads back a buffer laid out as
  the kernel does it.
\<close>

definition sizeof_cmsghdr :: nat where
  "sizeof_cmsghdr = 16"

definition align :: "u64 \<Rightarrow> u64" where
  "align n = (n + 8 - 1) AND NOT (8 - 1)"

definition space :: "u64 \<Rightarrow> u64" where
  "space n = align (of_nat sizeof_cmsghdr) + align n"

definition capacity :: "nat \<Rightarrow> u64" where
  "capacity sz = space (of_nat sz)"

definition cmsg_buffer :: "'w env \<Rightarrow> actor \<Rightarrow> nat \<Rightarrow> ('w, 'e, bytes) io" where
  "cmsg_buffer E p sz =
     (let cap = unat (capacity sz)
      in bindR (sys E p (Alloc cap)) (\<lambda>r. ret (fit cap (r_data r))))"

record ControlMessageRef =
  cmsg_level :: i32
  cmsg_type :: i32
  cmsg_data :: bytes

text \<open>One step of \<^verbatim>\<open>RawCmsgIterator\<close>: the item and the remaining buffer.\<close>

definition cmsg_next :: "bytes \<Rightarrow> ('e, ControlMessageRef option \<times> bytes) res" where
  "cmsg_next buf =
     (if length buf < sizeof_cmsghdr then Ok (None, buf)
      else
        let cmsg_len = (le_word (chunk 0 8 buf) :: u64);
            level = (le_word (chunk 8 4 buf) :: i32);
            ty = (le_word (chunk 12 4 buf) :: i32);
            data_off = sizeof_cmsghdr;
            data_end = unat cmsg_len;
            next_hdr = unat (align cmsg_len)
        in if data_end < data_off \<or> length buf < data_end then Panic
           else Ok (Some \<lparr>cmsg_level = level, cmsg_type = ty,
                          cmsg_data = chunk data_off (data_end - data_off) buf\<rparr>,
                    if next_hdr \<ge> length buf then [] else drop next_hdr buf))"

section \<open>Alignment\<close>

lemma and_minus_8: "(x :: u64) AND - 8 = push_bit 3 (drop_bit 3 x)"
proof -
  have "(- 8 :: u64) = NOT (mask 3)" by (simp add: mask_eq_exp_minus_1)
  moreover have "x AND NOT (mask 3) = push_bit 3 (drop_bit 3 x)"
    by (rule bit_eqI) (auto simp: bit_simps)
  ultimately show ?thesis by simp
qed

lemma align_eq: "align n = push_bit 3 (drop_bit 3 (n + 7))"
  by (simp add: align_def flip: and_minus_8) (simp add: add.commute)

lemma unat_align:
  assumes "unat n + 7 < 2 ^ 64"
  shows "unat (align n) = (unat n + 7) div 8 * 8"
proof -
  have n7: "unat (n + 7) = unat n + 7"
    using assms by (simp add: unat_word_ariths)
  have "take_bit 64 (unat (n + 7)) = unat (n + 7)"
    using unsigned_less [of "n + 7"] by (intro take_bit_nat_eq_self) simp
  then have "unat (align n) = take_bit 64 (push_bit 3 (drop_bit 3 (unat (n + 7))))"
    by (simp add: align_eq unsigned_push_bit_eq unsigned_drop_bit_eq)
  also have "\<dots> = (unat n + 7) div 8 * 8 mod 2 ^ 64"
    by (simp add: n7 take_bit_eq_mod push_bit_eq_mult drop_bit_eq_div)
  also have "\<dots> = (unat n + 7) div 8 * 8"
    using assms by (intro mod_less) (meson div_times_less_eq_dividend le_less_trans)
  finally show ?thesis .
qed

lemma align_bounds:
  assumes "unat n + 7 < 2 ^ 64"
  shows "unat n \<le> unat (align n)" and "unat (align n) < unat n + 8" and "8 dvd unat (align n)"
  unfolding unat_align [OF assms] by (simp_all, linarith?)

section \<open>Progress and bounds of the iterator\<close>

text \<open>A Rust slice has at most \<^verbatim>\<open>isize::MAX\<close> bytes.\<close>

abbreviation slice_ok :: "bytes \<Rightarrow> bool" where
  "slice_ok buf \<equiv> length buf < 2 ^ 63"

lemma cmsg_next_None: "cmsg_next buf = Ok (None, rest) \<longleftrightarrow> length buf < sizeof_cmsghdr \<and> rest = buf"
  by (auto simp: cmsg_next_def Let_def)

lemma cmsg_next_Some:
  assumes "cmsg_next buf = Ok (Some m, rest)" and "slice_ok buf"
  shows "length rest < length buf"
    and "cmsg_data m = chunk 16 (length (cmsg_data m)) buf"
    and "16 + length (cmsg_data m) \<le> length buf"
proof -
  let ?l = "le_word (chunk 0 8 buf) :: u64"
  from assms have len: "16 \<le> unat ?l" "unat ?l \<le> length buf"
    and rest: "rest = (if unat (align ?l) \<ge> length buf then [] else drop (unat (align ?l)) buf)"
    and m: "cmsg_data m = chunk 16 (unat ?l - 16) buf"
    by (auto simp: cmsg_next_def Let_def sizeof_cmsghdr_def split: if_splits)
  from len assms(2) have "unat ?l \<le> unat (align ?l)"
    by (intro align_bounds(1)) simp
  with len show "length rest < length buf" by (auto simp: rest)
  have "length (cmsg_data m) = unat ?l - 16"
    using len by (simp add: m length_chunk)
  with len m show "cmsg_data m = chunk 16 (length (cmsg_data m)) buf"
    and "16 + length (cmsg_data m) \<le> length buf" by simp_all
qed

section \<open>Reading back a laid out buffer\<close>

text \<open>A control message as the kernel lays it out: header, data, padding to the alignment.\<close>

definition put_cmsg :: "ControlMessageRef \<Rightarrow> bytes" where
  "put_cmsg m =
     (let l = 16 + length (cmsg_data m)
      in le_bytes 8 (of_nat l :: u64) @ le_bytes 4 (cmsg_level m) @ le_bytes 4 (cmsg_type m)
         @ cmsg_data m @ replicate ((l + 7) div 8 * 8 - l) 0)"

text \<open>The items of the first \<open>n\<close> calls of \<^verbatim>\<open>next\<close>.\<close>

primrec cmsg_take :: "nat \<Rightarrow> bytes \<Rightarrow> ('e, ControlMessageRef list) res" where
  "cmsg_take 0 buf = Ok []"
| "cmsg_take (Suc n) buf = bindP (cmsg_next buf) (\<lambda>(m, rest). case m of
     None \<Rightarrow> Ok [] | Some x \<Rightarrow> bindP (cmsg_take n rest) (\<lambda>xs. Ok (x # xs)))"

lemma cmsg_next_put:
  assumes small: "length (cmsg_data m) < 2 ^ 62"
  shows "cmsg_next (put_cmsg m @ rest) = Ok (Some m, rest)"
proof -
  let ?l = "16 + length (cmsg_data m)"
  let ?buf = "put_cmsg m @ rest"
  have l: "unat (of_nat ?l :: u64) = ?l"
    using small by (simp add: unat_of_nat del: of_nat_add)
  have al: "unat (align (of_nat ?l)) = (?l + 7) div 8 * 8"
    using small unat_align [of "of_nat ?l"] by (simp only: l) simp
  have lp: "length (put_cmsg m) = (?l + 7) div 8 * 8"
    by (simp add: put_cmsg_def Let_def)
  have "chunk 0 8 ?buf = le_bytes 8 (of_nat ?l :: u64)" "chunk 8 4 ?buf = le_bytes 4 (cmsg_level m)"
    "chunk 12 4 ?buf = le_bytes 4 (cmsg_type m)" "chunk 16 (?l - 16) ?buf = cmsg_data m"
    by (simp_all add: put_cmsg_def Let_def chunk_def)
  moreover have "?l \<le> length ?buf"
    using lp by simp
  ultimately show ?thesis
    using l al lp by (simp add: cmsg_next_def Let_def sizeof_cmsghdr_def)
qed

section \<open>Properties\<close>

text \<open>C35: The control message iterator makes progress and stays inside its buffer: an item's data
  is a part of the buffer behind the header, the rest is strictly shorter, and it stops exactly when
  less than a header is left. (A Rust slice has fewer than \<open>2\<^sup>6\<^sup>3\<close> bytes.)\<close>

theorem cmsg_next_progress:
  assumes "slice_ok buf" and "cmsg_next buf = Ok (item, rest)"
  shows "case item of
      None \<Rightarrow> length buf < sizeof_cmsghdr \<and> rest = buf
    | Some m \<Rightarrow> length rest < length buf \<and> 16 + length (cmsg_data m) \<le> length buf
        \<and> cmsg_data m = chunk 16 (length (cmsg_data m)) buf"
proof (cases item)
  case None
  with assms show ?thesis by (simp add: cmsg_next_None)
next
  case (Some m)
  from cmsg_next_Some [OF assms(2) [unfolded Some] assms(1)] Some show ?thesis by simp
qed

theorem cmsg_next_progress_witness:
  "cmsg_next (put_cmsg \<lparr>cmsg_level = 1, cmsg_type = 1, cmsg_data = [5, 0, 0, 0]\<rparr>)
     = (Ok (Some \<lparr>cmsg_level = 1, cmsg_type = 1, cmsg_data = [5, 0, 0, 0]\<rparr>, []) :: (unit, _) res)
   \<and> 20 \<le> length (put_cmsg \<lparr>cmsg_level = 1, cmsg_type = 1, cmsg_data = [5, 0, 0, 0]\<rparr>)"
proof -
  let ?m = "\<lparr>cmsg_level = 1, cmsg_type = 1, cmsg_data = [5, 0, 0, 0]\<rparr>"
  have run: "slice_ok (put_cmsg ?m)" "cmsg_next (put_cmsg ?m) = (Ok (Some ?m, []) :: (unit, _) res)"
    using cmsg_next_put [of ?m "[]"] by (simp_all add: put_cmsg_def)
  with cmsg_next_progress [OF run] show ?thesis by simp
qed

text \<open>C36: The iterator reads back what the kernel lays out: from the concatenation of padded
  control messages it yields exactly these messages, in order.\<close>

theorem cmsg_iter_roundtrip:
  assumes "list_all (\<lambda>m. length (cmsg_data m) < 2 ^ 62) ms"
  shows "cmsg_take (Suc (length ms)) (concat (map put_cmsg ms)) = Ok ms"
  using assms
proof (induction ms)
  case Nil
  then show ?case by (simp add: cmsg_next_def sizeof_cmsghdr_def)
next
  case (Cons m ms)
  then show ?case
    by (simp add: cmsg_next_put del: cmsg_take.simps(2) add: cmsg_take.simps(2) [of "Suc (length ms)"])
qed

theorem cmsg_iter_roundtrip_witness:
  "cmsg_take (Suc (Suc 0)) (put_cmsg \<lparr>cmsg_level = 1, cmsg_type = 1, cmsg_data = [5, 0, 0, 0, 6, 0, 0, 0]\<rparr>)
     = Ok [\<lparr>cmsg_level = 1, cmsg_type = 1, cmsg_data = [5, 0, 0, 0, 6, 0, 0, 0]\<rparr>]"
  using cmsg_iter_roundtrip [of "[\<lparr>cmsg_level = 1, cmsg_type = 1, cmsg_data = [5, 0, 0, 0, 6, 0, 0, 0]\<rparr>]"]
  by (simp del: cmsg_take.simps)

end
