(* ===== verification/Io.thy ===== *)
theory Io
  imports Cmsg
begin

text \<open>
  \<^verbatim>\<open>src/io/mod.rs\<close>, \<^verbatim>\<open>src/io/pipe.rs\<close>, \<^verbatim>\<open>src/io/seq_packet.rs\<close> and
  \<^verbatim>\<open>src/tools.rs\<close>: descriptors registered with the reactor, pipes, the seqpacket socket, and
  the pieces of the standard library's file interface the other components use (\<^verbatim>\<open>write_all\<close>,
  buffered line reading, \<^verbatim>\<open>read_to_end\<close>). An \<^verbatim>\<open>.await\<close> is the call it waits for.
\<close>

section \<open>Wrappers\<close>

text \<open>Results of reactor operations: tokio reports either an OS error or one of its own.\<close>

definition tokio_result :: "'w env \<Rightarrow> actor \<Rightarrow> call \<Rightarrow> ('w, io_error, resp) io" where
  "tokio_result E p c = bindR (sys E p c) (\<lambda>r.
     if r_ret r = -1 then raise (if r_errno r = 0 then KindErr Other else OsErr (r_errno r)) else ret r)"

text \<open>Calls through the nix crate fail with the plain error number.\<close>

definition nix_result :: "'w env \<Rightarrow> actor \<Rightarrow> call \<Rightarrow> ('w, i32, resp) io" where
  "nix_result E p c = bindR (sys E p c) (\<lambda>r. if r_ret r = -1 then raise (r_errno r) else ret r)"

text \<open>\<^verbatim>\<open>OwnedFd::from_raw_fd\<close> asserts that the descriptor is not \<open>-1\<close>.\<close>

definition owned_fd :: "int \<Rightarrow> ('w, 'e, int) io" where
  "owned_fd fd = (if fd = -1 then panic else ret fd)"

definition vec_uninitialized :: "'w env \<Rightarrow> actor \<Rightarrow> nat \<Rightarrow> ('w, 'e, bytes) io" where
  "vec_uninitialized E p len = bindR (sys E p (Alloc len)) (\<lambda>r. ret (fit len (r_data r)))"

abbreviation (input) O_RDONLY :: int where "O_RDONLY \<equiv> 0"
abbreviation (input) O_WRONLY :: int where "O_WRONLY \<equiv> 1"
abbreviation (input) O_RDWR :: int where "O_RDWR \<equiv> 2"
abbreviation (input) O_CREAT :: int where "O_CREAT \<equiv> 0x40"
abbreviation (input) O_TRUNC :: int where "O_TRUNC \<equiv> 0x200"
abbreviation (input) O_NONBLOCK :: i32 where "O_NONBLOCK \<equiv> 0x800"
abbreviation (input) O_DIRECTORY :: int where "O_DIRECTORY \<equiv> 0x10000"
abbreviation (input) O_CLOEXEC :: int where "O_CLOEXEC \<equiv> 0x80000"

definition set_fd_nonblocking :: "'w env \<Rightarrow> actor \<Rightarrow> int \<Rightarrow> bool \<Rightarrow> ('w, i32, int) io" where
  "set_fd_nonblocking E p fd on =
     bindR (nix_result E p (FcntlGetfl fd)) (\<lambda>r.
     let bits = (word_of_int (r_ret r) :: i32) in
     bindR (unwrap (if oflag_known E bits then Some bits else None)) (\<lambda>flags.
     let flags = (if on then flags OR O_NONBLOCK else flags AND NOT O_NONBLOCK) in
     bindR (nix_result E p (FcntlSetfl fd flags)) (\<lambda>r. ret (r_ret r))))"

section \<open>Waiting for readiness (src/io/mod.rs)\<close>

definition wrap_read :: "'w env \<Rightarrow> actor \<Rightarrow> int \<Rightarrow> ('w, io_error, 'a) io \<Rightarrow> ('w, io_error, 'a) io" where
  "wrap_read E p fd call = loopM (\<lambda>_.
     bindR (tokio_result E p (Readable fd)) (\<lambda>_.
     matchR call (\<lambda>v. ret (Inr v)) (\<lambda>err.
       if would_block err then bindR (sys E p (ClearReady fd)) (\<lambda>_. ret (Inl ()))
       else raise err))) ()"

definition wrap_write :: "'w env \<Rightarrow> actor \<Rightarrow> int \<Rightarrow> ('w, io_error, 'a) io \<Rightarrow> ('w, io_error, 'a) io" where
  "wrap_write E p fd call = loopM (\<lambda>_.
     bindR (tokio_result E p (Writable fd)) (\<lambda>_.
     matchR call (\<lambda>v. ret (Inr v)) (\<lambda>err.
       if would_block err then bindR (sys E p (ClearReady fd)) (\<lambda>_. ret (Inl ()))
       else raise err))) ()"

section \<open>The seqpacket socket (src/io/seq_packet.rs)\<close>

abbreviation (input) AF_UNIX :: int where "AF_UNIX \<equiv> 1"
abbreviation (input) SOCK_SEQPACKET :: int where "SOCK_SEQPACKET \<equiv> 5"
abbreviation (input) SOCK_CLOEXEC :: int where "SOCK_CLOEXEC \<equiv> 0x80000"
abbreviation (input) SOCK_NONBLOCK :: int where "SOCK_NONBLOCK \<equiv> 0x800"

definition async_fd_new :: "'w env \<Rightarrow> actor \<Rightarrow> int \<Rightarrow> ('w, io_error, int) io" where
  "async_fd_new E p fd = matchR (tokio_result E p (AsyncFdNew fd))
     (\<lambda>_. ret fd)
     (\<lambda>e. bindR (drop_fd E p fd) (\<lambda>_. raise e))"

definition seq_packet_socket :: "'w env \<Rightarrow> actor \<Rightarrow> int \<Rightarrow> ('w, i32, int) io" where
  "seq_packet_socket E p flags =
     bindR (nix_result E p (Socket AF_UNIX SOCK_SEQPACKET (flags OR SOCK_CLOEXEC))) (\<lambda>r.
     owned_fd (r_ret r))"

text \<open>A step that fails while a fresh descriptor is owned closes it.\<close>

definition closing_on_error :: "'w env \<Rightarrow> actor \<Rightarrow> int \<Rightarrow> ('w, 'e, 'a) io \<Rightarrow> ('w, 'e, 'a) io" where
  "closing_on_error E p fd m = on_failure m (drop_fd E p fd :: ('w, 'e, unit) io)"

definition SeqPacketListener_bind :: "'w env \<Rightarrow> actor \<Rightarrow> bytes \<Rightarrow> ('w, error, int) io" where
  "SeqPacketListener_bind E p address =
     bindR (map_err NixErr (seq_packet_socket E p 0)) (\<lambda>fd.
     bindR (closing_on_error E p fd (
        bindR (map_err NixErr (nix_result E p (Bind fd address))) (\<lambda>_.
        map_err NixErr (nix_result E p (Listen fd 16))))) (\<lambda>_.
     map_err IoErr (async_fd_new E p fd)))"

definition SeqPacketSocket_new :: "'w env \<Rightarrow> actor \<Rightarrow> int \<Rightarrow> ('w, io_error, int) io" where
  "SeqPacketSocket_new E p fd = async_fd_new E p fd"

definition SeqPacketListener_accept :: "'w env \<Rightarrow> actor \<Rightarrow> int \<Rightarrow> ('w, io_error, int) io" where
  "SeqPacketListener_accept E p listener =
     bindR (wrap_read E p listener (c_result E p (Accept4 listener (SOCK_CLOEXEC OR SOCK_NONBLOCK)))) (\<lambda>r.
     bindR (owned_fd (r_ret r)) (\<lambda>fd.
     SeqPacketSocket_new E p fd))"

definition sendmsg_vectored :: "'w env \<Rightarrow> actor \<Rightarrow> int \<Rightarrow> bytes list \<Rightarrow> ('w, io_error, int) io" where
  "sendmsg_vectored E p socket iov =
     bindR (wrap_write E p socket (c_result E p (Sendmsg socket iov))) (\<lambda>r. ret (r_ret r))"

text \<open>Receiving fills the buffers of \<open>iov\<close> in order and the control buffer; the result is the
  data size, the control length and the new contents.\<close>

primrec scatter :: "bytes list \<Rightarrow> bytes \<Rightarrow> bytes list" where
  "scatter [] bs = []"
| "scatter (b # iov) bs = fill b bs # scatter iov (drop (length b) bs)"

definition recvmsg_vectored ::
  "'w env \<Rightarrow> actor \<Rightarrow> int \<Rightarrow> bytes list \<Rightarrow> bytes
     \<Rightarrow> ('w, io_error, int \<times> nat \<times> bytes list \<times> bytes) io" where
  "recvmsg_vectored E p socket iov cmsg_buf =
     bindR (wrap_read E p socket
        (c_result E p (Recvmsg socket (map length iov) (length cmsg_buf)))) (\<lambda>r.
     ret (r_ret r, r_ctllen r, scatter iov (r_data r), fill cmsg_buf (r_ctl r)))"

definition SeqPacketSocket_shutdown :: "'w env \<Rightarrow> actor \<Rightarrow> int \<Rightarrow> int \<Rightarrow> ('w, i32, unit) io" where
  "SeqPacketSocket_shutdown E p socket how =
     bindR (nix_result E p (Shutdown socket how)) (\<lambda>_. ret ())"

section \<open>Pipes (src/io/pipe.rs)\<close>

definition pipe_fds :: "'w env \<Rightarrow> actor \<Rightarrow> ('w, io_error, int \<times> int) io" where
  "pipe_fds E p =
     bindR (c_result E p (Pipe2 O_CLOEXEC)) (\<lambda>r.
     let pfd = fill [0, 0] (r_fds r) in
     bindR (owned_fd (pfd ! 0)) (\<lambda>fd_in.
     bindR (closing_on_error E p fd_in (owned_fd (pfd ! 1))) (\<lambda>fd_out.
     ret (fd_in, fd_out))))"

text \<open>\<^verbatim>\<open>TryFrom<PipeFd> for Pipe\<close>.\<close>

definition Pipe_try_from :: "'w env \<Rightarrow> actor \<Rightarrow> int \<Rightarrow> ('w, io_error, int) io" where
  "Pipe_try_from E p fd = async_fd_new E p fd"

definition pipe :: "'w env \<Rightarrow> actor \<Rightarrow> ('w, io_error, int \<times> int) io" where
  "pipe E p =
     bindR (pipe_fds E p) (\<lambda>(fd_in, fd_out).
     bindR (closing_on_error E p fd_out (Pipe_try_from E p fd_in)) (\<lambda>r.
     bindR (closing_on_error E p r (Pipe_try_from E p fd_out)) (\<lambda>w.
     ret (r, w))))"

datatype 'a poll = Ready 'a | Pending

text \<open>A \<^verbatim>\<open>ReadBuf\<close>: the filled part and the capacity. \<^verbatim>\<open>poll_read\<close> returns the buffer
  with what one \<^verbatim>\<open>read(2)\<close> added.\<close>

record ReadBuf =
  rb_filled :: bytes
  rb_cap :: nat

definition poll_read :: "'w env \<Rightarrow> actor \<Rightarrow> int \<Rightarrow> ReadBuf \<Rightarrow> ('w, io_error, ReadBuf poll) io" where
  "poll_read E p fd buf =
     bindR (tokio_result E p (PollReadReady fd)) (\<lambda>g.
     if r_ret g = 0 then ret Pending
     else
       let room = rb_cap buf - length (rb_filled buf) in
       matchR (c_result E p (Read fd room))
         (\<lambda>r. let received = r_ret r in
            if received > 0
            then (if nat received \<le> room
                  then ret (Ready (buf\<lparr>rb_filled := rb_filled buf @ fit (nat received) (r_data r)\<rparr>))
                  else panic)
            else ret (Ready buf))
         (\<lambda>err. if would_block err then bindR (sys E p (ClearReady fd)) (\<lambda>_. ret Pending)
                else raise err))"

definition poll_write :: "'w env \<Rightarrow> actor \<Rightarrow> int \<Rightarrow> bytes \<Rightarrow> ('w, io_error, int poll) io" where
  "poll_write E p fd buf =
     bindR (tokio_result E p (PollWriteReady fd)) (\<lambda>g.
     if r_ret g = 0 then ret Pending
     else matchR (c_result E p (Write fd buf))
       (\<lambda>r. ret (Ready (r_ret r)))
       (\<lambda>err. if would_block err then bindR (sys E p (ClearReady fd)) (\<lambda>_. ret Pending)
              else raise err))"

text \<open>\<^verbatim>\<open>AsyncReadExt::read_exact\<close> on a pipe: poll until the buffer is full; no progress is an
  unexpected end of file.\<close>

definition read_exact :: "'w env \<Rightarrow> actor \<Rightarrow> int \<Rightarrow> nat \<Rightarrow> ('w, io_error, bytes) io" where
  "read_exact E p fd n = loopM (\<lambda>buf.
     if length (rb_filled buf) \<ge> rb_cap buf then ret (Inr (rb_filled buf))
     else bindR (poll_read E p fd buf) (\<lambda>res. case res of
         Pending \<Rightarrow> ret (Inl buf)
       | Ready buf' \<Rightarrow> if length (rb_filled buf') = length (rb_filled buf)
                      then raise (KindErr UnexpectedEof) else ret (Inl buf')))
     \<lparr>rb_filled = [], rb_cap = n\<rparr>"

section \<open>Blocking files (standard library)\<close>

definition write_all :: "'w env \<Rightarrow> actor \<Rightarrow> int \<Rightarrow> bytes \<Rightarrow> ('w, io_error, unit) io" where
  "write_all E p fd buf = loopM (\<lambda>buf.
     if buf = [] then ret (Inr ())
     else matchR (c_result E p (Write fd buf))
       (\<lambda>r. if r_ret r = 0 then raise (KindErr WriteZero)
            else if 0 < r_ret r \<and> nat (r_ret r) \<le> length buf then ret (Inl (drop (nat (r_ret r)) buf)) else panic)
       (\<lambda>e. if interrupted e then ret (Inl buf) else raise e)) buf"

text \<open>One \<^verbatim>\<open>read(2)\<close> of a buffered reader, retried when interrupted; empty at end of file.\<close>

definition read_some :: "'w env \<Rightarrow> actor \<Rightarrow> int \<Rightarrow> ('w, io_error, bytes) io" where
  "read_some E p fd = loopM (\<lambda>_.
     matchR (c_result E p (Read fd 8192))
       (\<lambda>r. if 0 \<le> r_ret r \<and> r_ret r \<le> 8192 then ret (Inr (fit (nat (r_ret r)) (r_data r))) else panic)
       (\<lambda>e. if interrupted e then ret (Inl ()) else raise e)) ()"

definition read_to_end :: "'w env \<Rightarrow> actor \<Rightarrow> int \<Rightarrow> ('w, io_error, bytes) io" where
  "read_to_end E p fd = loopM (\<lambda>out.
     bindR (read_some E p fd) (\<lambda>bs. ret (if bs = [] then Inr out else Inl (out @ bs)))) []"

text \<open>\<^verbatim>\<open>BufRead::read_until\<close> a newline: the line without it, and the bytes buffered behind
  it; \<open>None\<close> at the end.\<close>

definition split_newline :: "bytes \<Rightarrow> (bytes \<times> bytes) option" where
  "split_newline buf = (if 10 \<in> set buf
     then Some (takeWhile (\<lambda>b. b \<noteq> 10) buf, tl (dropWhile (\<lambda>b. b \<noteq> 10) buf)) else None)"

definition next_split :: "'w env \<Rightarrow> actor \<Rightarrow> int \<Rightarrow> bytes \<Rightarrow> ('w, io_error, (bytes \<times> bool) option \<times> bytes) io" where
  "next_split E p fd buf = loopM (\<lambda>buf. case split_newline buf of
       Some (line, rest) \<Rightarrow> ret (Inr (Some (line, True), rest))
     | None \<Rightarrow> bindR (read_some E p fd) (\<lambda>bs.
         if bs = [] then ret (Inr (if buf = [] then None else Some (buf, False), []))
         else ret (Inl (buf @ bs)))) buf"


section \<open>Calls made\<close>

lemma emits_tokio_result [emits_intros]: "(\<And>h r. P h (p, c, r)) \<Longrightarrow> emits P (tokio_result E p c)"
  unfolding tokio_result_def by (intro emits_intros)

lemma emits_nix_result [emits_intros]: "(\<And>h r. P h (p, c, r)) \<Longrightarrow> emits P (nix_result E p c)"
  unfolding nix_result_def by (intro emits_intros)

lemma emits_owned_fd [emits_intros]: "emits P (owned_fd fd)"
  unfolding owned_fd_def by (intro emits_intros)

lemma emits_vec_uninitialized [emits_intros]:
  "(\<And>h r. P h (p, Alloc n, r)) \<Longrightarrow> emits P (vec_uninitialized E p n)"
  unfolding vec_uninitialized_def by (intro emits_intros)

lemma emits_cmsg_buffer [emits_intros]:
  "(\<And>h n r. P h (p, Alloc n, r)) \<Longrightarrow> emits P (cmsg_buffer E p sz)"
  unfolding cmsg_buffer_def by (intro emits_intros)

lemma emits_case_poll [emits_intros]:
  "(\<And>a. x = Ready a \<Longrightarrow> emits P (f a)) \<Longrightarrow> (x = Pending \<Longrightarrow> emits P m)
     \<Longrightarrow> emits P (case x of Ready a \<Rightarrow> f a | Pending \<Rightarrow> m)"
  by (cases x) simp_all

lemma emits_set_fd_nonblocking [emits_intros]:
  "(\<And>h r. P h (p, FcntlGetfl fd, r)) \<Longrightarrow> (\<And>h f r. P h (p, FcntlSetfl fd f, r))
     \<Longrightarrow> emits P (set_fd_nonblocking E p fd on)"
  unfolding set_fd_nonblocking_def by (intro emits_intros)

lemma emits_wrap_read [emits_intros]:
  "emits P call \<Longrightarrow> (\<And>h r. P h (p, Readable fd, r)) \<Longrightarrow> (\<And>h r. P h (p, ClearReady fd, r))
     \<Longrightarrow> emits P (wrap_read E p fd call)"
  unfolding wrap_read_def by (intro emits_intros)

lemma emits_wrap_write [emits_intros]:
  "emits P call \<Longrightarrow> (\<And>h r. P h (p, Writable fd, r)) \<Longrightarrow> (\<And>h r. P h (p, ClearReady fd, r))
     \<Longrightarrow> emits P (wrap_write E p fd call)"
  unfolding wrap_write_def by (intro emits_intros)

text \<open>The calls of the event loop: registration, polling and closing, and on sockets waiting and
  message passing.\<close>

definition polling :: "call \<Rightarrow> bool" where
  "polling c = (case c of Close _ \<Rightarrow> True | AsyncFdNew _ \<Rightarrow> True | ClearReady _ \<Rightarrow> True
     | PollReadReady _ \<Rightarrow> True | Read _ _ \<Rightarrow> True | _ \<Rightarrow> False)"

definition messaging :: "call \<Rightarrow> bool" where
  "messaging c = (case c of Readable _ \<Rightarrow> True | Writable _ \<Rightarrow> True | ClearReady _ \<Rightarrow> True
     | Sendmsg _ _ \<Rightarrow> True | Recvmsg _ _ _ \<Rightarrow> True | Shutdown _ _ \<Rightarrow> True | _ \<Rightarrow> False)"

lemma polling_simps [simp]:
  "polling (Close fd)" "polling (AsyncFdNew fd)" "polling (ClearReady fd)" "polling (PollReadReady fd)"
  "polling (Read fd n)"
  by (simp_all add: polling_def)

lemma messaging_simps [simp]:
  "messaging (Readable fd)" "messaging (Writable fd)" "messaging (ClearReady fd)"
  "messaging (Sendmsg fd iov)" "messaging (Recvmsg fd ls n)" "messaging (Shutdown fd how)"
  by (simp_all add: messaging_def)

lemma polling_not_privileged: "polling c \<Longrightarrow> \<not> privileged c"
  by (simp add: polling_def privileged_def split: call.splits)

lemma messaging_not_privileged: "messaging c \<Longrightarrow> \<not> privileged c"
  by (simp add: messaging_def privileged_def split: call.splits)

lemma emits_async_fd_new [emits_intros]:
  "(\<And>h c r. polling c \<Longrightarrow> P h (p, c, r)) \<Longrightarrow> emits P (async_fd_new E p fd)"
  unfolding async_fd_new_def by (intro emits_intros) simp_all

lemma emits_sendmsg_vectored [emits_intros]:
  "(\<And>h c r. messaging c \<Longrightarrow> P h (p, c, r)) \<Longrightarrow> emits P (sendmsg_vectored E p fd iov)"
  unfolding sendmsg_vectored_def by (intro emits_intros) simp_all

lemma emits_recvmsg_vectored [emits_intros]:
  "(\<And>h c r. messaging c \<Longrightarrow> P h (p, c, r)) \<Longrightarrow> emits P (recvmsg_vectored E p fd iov b)"
  unfolding recvmsg_vectored_def by (intro emits_intros) simp_all

lemma emits_shutdown [emits_intros]:
  "(\<And>h c r. messaging c \<Longrightarrow> P h (p, c, r)) \<Longrightarrow> emits P (SeqPacketSocket_shutdown E p fd how)"
  unfolding SeqPacketSocket_shutdown_def by (intro emits_intros) simp_all

lemma emits_poll_read [emits_intros]:
  "(\<And>h c r. polling c \<Longrightarrow> P h (p, c, r)) \<Longrightarrow> emits P (poll_read E p fd buf)"
  unfolding poll_read_def by (intro emits_intros) simp_all

lemma emits_read_exact [emits_intros]:
  "(\<And>h c r. polling c \<Longrightarrow> P h (p, c, r)) \<Longrightarrow> emits P (read_exact E p fd n)"
  unfolding read_exact_def by (intro emits_intros) simp_all

lemma emits_pipe_fds [emits_intros]:
  "(\<And>h f r. P h (p, Pipe2 f, r)) \<Longrightarrow> (\<And>h c r. polling c \<Longrightarrow> P h (p, c, r)) \<Longrightarrow> emits P (pipe_fds E p)"
  unfolding pipe_fds_def closing_on_error_def by (intro emits_intros) simp_all

lemma emits_write_all [emits_intros]:
  "(\<And>h b r. P h (p, Write fd b, r)) \<Longrightarrow> emits P (write_all E p fd buf)"
  unfolding write_all_def by (intro emits_intros)

lemma emits_read_some [emits_intros]:
  "(\<And>h c r. inspecting c \<Longrightarrow> P h (p, c, r)) \<Longrightarrow> emits P (read_some E p fd)"
  unfolding read_some_def by (intro emits_intros) simp_all

lemma emits_read_to_end [emits_intros]:
  "(\<And>h c r. inspecting c \<Longrightarrow> P h (p, c, r)) \<Longrightarrow> emits P (read_to_end E p fd)"
  unfolding read_to_end_def by (intro emits_intros) simp_all

lemma emits_next_split [emits_intros]:
  "(\<And>h c r. inspecting c \<Longrightarrow> P h (p, c, r)) \<Longrightarrow> emits P (next_split E p fd buf)"
  unfolding next_split_def by (intro emits_intros) simp_all

section \<open>The readiness loop\<close>

text \<open>What happens while waiting: the reactor is asked, readiness is cleared, and attempts at the
  call \<open>c\<close> fail.\<close>

definition waiting :: "actor \<Rightarrow> call \<Rightarrow> int \<Rightarrow> call \<Rightarrow> event \<Rightarrow> bool" where
  "waiting p ready fd c e \<longleftrightarrow> ev_actor e = p \<and>
     (ev_call e = ready \<or> ev_call e = ClearReady fd \<or> (ev_call e = c \<and> r_ret (ev_resp e) = -1))"

lemma tokio_result_Ok [run_simps]:
  "tokio_result E p c s = Some (Ok r, s') \<longleftrightarrow>
     r = answer E p c s \<and> r_ret r \<noteq> -1 \<and> s' = after E p c s"
  by (auto simp: tokio_result_def run_simps)

lemma tokio_result_Err [run_simps]:
  "tokio_result E p c s = Some (Err e, s') \<longleftrightarrow> r_ret (answer E p c s) = -1 \<and> s' = after E p c s
     \<and> e = (if r_errno (answer E p c s) = 0 then KindErr Other else OsErr (r_errno (answer E p c s)))"
  by (auto simp: tokio_result_def run_simps)

lemma tokio_result_Panic [run_simps]: "tokio_result E p c s \<noteq> Some (Panic, s')"
  by (auto simp: tokio_result_def run_simps)

text \<open>The loop of \<^verbatim>\<open>wrap_read\<close> and \<^verbatim>\<open>wrap_write\<close> around one C call: it ends with the one
  attempt that succeeded, or with an error other than \<^verbatim>\<open>EAGAIN\<close> of the call, or because the
  reactor failed.\<close>

lemma readiness_loop:
  assumes run: "loopM (\<lambda>_. bindR (tokio_result E p ready) (\<lambda>_.
       matchR (c_result E p c) (\<lambda>v. ret (Inr v)) (\<lambda>err.
         if would_block err then bindR (sys E p (ClearReady fd)) (\<lambda>_. ret (Inl ()))
         else raise err))) () s = Some (x, s')"
  obtains (ended) t r where "x = Ok r" "m_log s' = m_log s @ t @ [(p, c, r)]" "r_ret r \<noteq> -1"
      "list_all (waiting p ready fd c) t"
  | (failed) t e where "x = Err e" "m_log s' = m_log s @ t" "list_all (waiting p ready fd c) t"
      "would_block e \<Longrightarrow> \<exists>r u. t = u @ [(p, ready, r)] \<and> r_ret r = -1"
proof -
  let ?I = "\<lambda>(_ :: unit) s1. \<exists>t. m_log s1 = m_log s @ t \<and> list_all (waiting p ready fd c) t"
  have start: "?I () s" by simp
  obtain u1 s1 y where inv: "?I u1 s1" and last: "bindR (tokio_result E p ready) (\<lambda>_.
       matchR (c_result E p c) (\<lambda>v. ret (Inr v)) (\<lambda>err.
         if would_block err then bindR (sys E p (ClearReady fd)) (\<lambda>_. ret (Inl ()))
         else raise err)) s1 = Some (y, s')" and y: "ends_loop y x"
    by (rule loopM_last [OF run, where I = ?I])
       (use start in \<open>fastforce simp: run_simps waiting_def split: if_splits\<close>)+
  from inv obtain t where t: "m_log s1 = m_log s @ t" "list_all (waiting p ready fd c) t" by blast
  show thesis
  proof (cases x)
    case (Ok r)
    with last y t show thesis
      by (intro ended [of r "t @ [(p, ready, answer E p ready s1)]"])
         (auto simp: run_simps waiting_def split: if_splits)
  next
    case (Err e)
    with last y consider (reactor) "r_ret (answer E p ready s1) = -1" "s' = after E p ready s1"
      | (call) "r_ret (answer E p c (after E p ready s1)) = -1" "s' = after E p c (after E p ready s1)"
          "\<not> would_block e"
      by (auto simp: run_simps split: if_splits)
    then show thesis
    proof cases
      case reactor
      with Err t show thesis by (intro failed [of e "t @ [(p, ready, answer E p ready s1)]"]) (auto simp: waiting_def)
    next
      case call
      with Err t show thesis
        by (intro failed [of e "t @ [(p, ready, answer E p ready s1), (p, c, answer E p c (after E p ready s1))]"])
           (auto simp: waiting_def)
    qed
  next
    case Panic
    with last y show thesis by (auto simp: run_simps split: if_splits)
  qed
qed

lemmas wrap_read_cases = readiness_loop [where ready = "Readable fd" and fd = fd for fd,
    folded wrap_read_def, consumes 1, case_names ended failed]
lemmas wrap_write_cases = readiness_loop [where ready = "Writable fd" and fd = fd for fd,
    folded wrap_write_def, consumes 1, case_names ended failed]

section \<open>Properties\<close>

text \<open>A call wrapped by \<^verbatim>\<open>wrap_read\<close> is repeated until it does not block: the result is that
  of the last attempt, the only one that succeeded; all other attempts had failed. \<^verbatim>\<open>EAGAIN\<close> never
  comes out of the wrapper, unless the reactor itself reports it.\<close>

theorem wrap_read_outcome:
  assumes "wrap_read E p fd (c_result E p c) s = Some (x, s')"
  shows "(\<exists>t r. x = Ok r \<and> m_log s' = m_log s @ t @ [(p, c, r)] \<and> r_ret r \<noteq> -1
            \<and> list_all (waiting p (Readable fd) fd c) t)
       \<or> (\<exists>t e. x = Err e \<and> m_log s' = m_log s @ t \<and> list_all (waiting p (Readable fd) fd c) t
            \<and> (would_block e \<longrightarrow> (\<exists>r u. t = u @ [(p, Readable fd, r)] \<and> r_ret r = -1)))"
  using assms by (cases rule: wrap_read_cases) blast+

theorem wrap_read_outcome_witness:
  "\<exists>s' t r. wrap_read script Daemon 3 (c_result script Daemon (Accept4 3 0))
      (boot [returns 0, fails EAGAIN, returns 0, returns 0, returns 9]) = Some (Ok r, s')
    \<and> m_log s' = t @ [(Daemon, Accept4 3 0, r)] \<and> r_ret r = 9"
proof -
  have "\<exists>s'. wrap_read script Daemon 3 (c_result script Daemon (Accept4 3 0))
      (boot [returns 0, fails EAGAIN, returns 0, returns 0, returns 9]) = Some (Ok (returns 9), s')"
    by (simp add: wrap_read_def loopM.simps tokio_result_def would_block_def io_defs sample_defs)
  then obtain s' where run: "wrap_read script Daemon 3 (c_result script Daemon (Accept4 3 0))
      (boot [returns 0, fails EAGAIN, returns 0, returns 0, returns 9]) = Some (Ok (returns 9), s')" by blast
  from wrap_read_outcome [OF run] run show ?thesis by (auto simp: boot_def returns_def)
qed

text \<open>The bytes an event moved: what a read of a pipe delivered, what a write accepted.\<close>

definition read_bytes :: "actor \<Rightarrow> int \<Rightarrow> event \<Rightarrow> bytes" where
  "read_bytes p fd e = (case ev_call e of
     Read fd' n \<Rightarrow> if ev_actor e = p \<and> fd' = fd \<and> r_ret (ev_resp e) > 0
       then fit (nat (r_ret (ev_resp e))) (r_data (ev_resp e)) else [] | _ \<Rightarrow> [])"

definition written_bytes :: "actor \<Rightarrow> int \<Rightarrow> event \<Rightarrow> bytes" where
  "written_bytes p fd e = (case ev_call e of
     Write fd' bs \<Rightarrow> if ev_actor e = p \<and> fd' = fd \<and> r_ret (ev_resp e) > 0
       then take (nat (r_ret (ev_resp e))) bs else [] | _ \<Rightarrow> [])"

lemma poll_read_Ok:
  assumes "poll_read E p fd buf s = Some (Ok x, s')"
  shows "\<exists>t. m_log s' = m_log s @ t \<and> (case x of Pending \<Rightarrow> concat (map (read_bytes p fd) t) = []
     | Ready buf' \<Rightarrow> rb_filled buf' = rb_filled buf @ concat (map (read_bytes p fd) t) \<and> rb_cap buf' = rb_cap buf
         \<and> length (rb_filled buf') \<le> max (rb_cap buf) (length (rb_filled buf)))"
  using assms
  by (auto simp: poll_read_def run_simps Let_def read_bytes_def split: if_splits)

lemma read_exact_bytes:
  assumes "read_exact E p fd n s = Some (Ok bs, s')"
  shows "length bs = n \<and> (\<exists>t. m_log s' = m_log s @ t \<and> bs = concat (map (read_bytes p fd) t))"
proof -
  let ?body = "\<lambda>buf. if length (rb_filled buf) \<ge> rb_cap buf then ret (Inr (rb_filled buf))
     else bindR (poll_read E p fd buf) (\<lambda>res. case res of
         Pending \<Rightarrow> ret (Inl buf)
       | Ready buf' \<Rightarrow> if length (rb_filled buf') = length (rb_filled buf)
                      then raise (KindErr UnexpectedEof) else ret (Inl buf'))"
  define I where "I b s1 \<longleftrightarrow> rb_cap b = n \<and> length (rb_filled b) \<le> n
     \<and> (\<exists>t. m_log s1 = m_log s @ t \<and> rb_filled b = concat (map (read_bytes p fd) t))"
    for b :: ReadBuf and s1 :: "'a mach"
  have start: "I \<lparr>rb_filled = [], rb_cap = n\<rparr> s" by (simp add: I_def)
  have step: "I b' s2" if inv: "I b s1" and body: "?body b s1 = Some (Ok (Inl b'), s2)" for b s1 b' s2
  proof -
    from body have "\<not> rb_cap b \<le> length (rb_filled b)"
      by (cases "rb_cap b \<le> length (rb_filled b)") (simp_all add: ret_run)
    with body obtain x s3 where x: "poll_read E p fd b s1 = Some (Ok x, s3)"
      and k: "(case x of Pending \<Rightarrow> ret (Inl b) | Ready buf' \<Rightarrow>
         if length (rb_filled buf') = length (rb_filled b)
         then raise (KindErr UnexpectedEof) else ret (Inl buf')) s3 = Some (Ok (Inl b' :: ReadBuf + bytes), s2)"
      by (simp only: if_False bindR_Ok) blast
    from k have "s3 = s2 \<and> b' = (case x of Pending \<Rightarrow> b | Ready c \<Rightarrow> c)"
      by (cases x) (simp_all add: ret_run raise_run split: if_splits)
    with poll_read_Ok [OF x] inv show ?thesis unfolding I_def by (cases x) auto
  qed
  obtain b s1 x where inv: "I b s1" and last: "?body b s1 = Some (x, s')" "ends_loop x (Ok bs)"
    by (rule loopM_last [where I = I, OF assms [unfolded read_exact_def] start]) (rule step)
  from last have "bs = rb_filled b \<and> s' = s1 \<and> rb_cap b \<le> length (rb_filled b)"
    by (auto simp: run_simps split: if_splits poll.splits) (metis poll.exhaust)
  with inv show ?thesis by (auto simp: I_def)
qed

text \<open>However \<^verbatim>\<open>write_all\<close> ends, what it wrote is the beginning of its buffer, and all of it on success.\<close>

lemma write_all_prefix:
  assumes "write_all E p fd buf s = Some (r, s')"
  shows "\<exists>t rest. m_log s' = m_log s @ t \<and> concat (map (written_bytes p fd) t) @ rest = buf \<and> (r = Ok () \<longrightarrow> rest = [])"
proof -
  let ?body = "\<lambda>buf. if buf = [] then ret (Inr ())
     else matchR (c_result E p (Write fd buf))
       (\<lambda>r. if r_ret r = 0 then raise (KindErr WriteZero)
            else if 0 < r_ret r \<and> nat (r_ret r) \<le> length buf then ret (Inl (drop (nat (r_ret r)) buf)) else panic)
       (\<lambda>e. if interrupted e then ret (Inl buf) else raise e)"
  define I where "I b s1 \<longleftrightarrow> (\<exists>t. m_log s1 = m_log s @ t \<and> concat (map (written_bytes p fd) t) @ b = buf)"
    for b and s1 :: "'a mach"
  have start: "I buf s" by (simp add: I_def)
  have step: "I b' s2" if inv: "I b s1" and body: "?body b s1 = Some (Ok (Inl b'), s2)" for b s1 b' s2
  proof -
    let ?e = "(p, Write fd b, answer E p (Write fd b) s1)"
    from body have "s2 = after E p (Write fd b) s1" "written_bytes p fd ?e @ b' = b"
      by (auto simp: run_simps written_bytes_def split: if_splits)
    moreover from inv obtain t where "m_log s1 = m_log s @ t" "concat (map (written_bytes p fd) t) @ b = buf"
      by (auto simp: I_def)
    ultimately show ?thesis by (auto simp: I_def intro!: exI [of _ "t @ [?e]"])
  qed
  obtain b s1 x where inv: "I b s1" and last: "?body b s1 = Some (x, s')" "ends_loop x r"
    by (rule loopM_last [where I = I, OF assms [unfolded write_all_def] start]) (rule step)
  from inv obtain t where t: "m_log s1 = m_log s @ t" "concat (map (written_bytes p fd) t) @ b = buf"
    by (auto simp: I_def)
  let ?e = "(p, Write fd b, answer E p (Write fd b) s1)"
  show ?thesis
  proof (cases "b = []")
    case True
    with last have "s' = s1" by (simp add: run_simps)
    with t True show ?thesis by auto
  next
    case False
    with last have "s' = after E p (Write fd b) s1" "r \<noteq> Ok ()"
      by (cases r; auto simp: run_simps matchR_run split: if_splits)+
    moreover have "\<exists>rest. written_bytes p fd ?e @ rest = b" by (auto simp: written_bytes_def) (metis append_take_drop_id)
    ultimately show ?thesis using t by (auto intro!: exI [of _ "t @ [?e]"])
  qed
qed

lemma write_all_bytes:
  assumes "write_all E p fd buf s = Some (Ok u, s')"
  shows "\<exists>t. m_log s' = m_log s @ t \<and> concat (map (written_bytes p fd) t) = buf"
  using write_all_prefix [OF assms] by auto

end
