(* ===== verification/Text.thy ===== *)
theory Text
  imports Io
begin

text \<open>
  The text processing of the standard library as \<^verbatim>\<open>src/process/pid_fd.rs\<close> uses it on the
  files of \<^verbatim>\<open>/proc\<close>: splitting, integer parsing and printing, UTF-8 validation and reading
  line by line. A Rust string is its UTF-8 bytes.
\<close>

section \<open>Splitting\<close>

fun split_on :: "(u8 \<Rightarrow> bool) \<Rightarrow> bytes \<Rightarrow> bytes list" where
  "split_on P [] = [[]]"
| "split_on P (b # bs) = (if P b then [] # split_on P bs
     else (case split_on P bs of [] \<Rightarrow> [[b]] | w # ws \<Rightarrow> (b # w) # ws))"

definition is_ascii_whitespace :: "u8 \<Rightarrow> bool" where
  "is_ascii_whitespace b \<longleftrightarrow> b = 32 \<or> b = 9 \<or> b = 10 \<or> b = 12 \<or> b = 13"

definition split_ascii_whitespace :: "bytes \<Rightarrow> bytes list" where
  "split_ascii_whitespace bs = filter (\<lambda>w. w \<noteq> []) (split_on is_ascii_whitespace bs)"

fun splitn :: "nat \<Rightarrow> (u8 \<Rightarrow> bool) \<Rightarrow> bytes \<Rightarrow> bytes list" where
  "splitn 0 P bs = []"
| "splitn (Suc 0) P bs = [bs]"
| "splitn (Suc (Suc n)) P bs =
     (if list_ex P bs
      then takeWhile (\<lambda>b. \<not> P b) bs # splitn (Suc n) P (tl (dropWhile (\<lambda>b. \<not> P b) bs))
      else [bs])"

definition nth_opt :: "'a list \<Rightarrow> nat \<Rightarrow> 'a option" where
  "nth_opt xs i = (if i < length xs then Some (xs ! i) else None)"

section \<open>Numbers\<close>

definition digit_of :: "nat \<Rightarrow> u8 \<Rightarrow> nat option" where
  "digit_of radix b =
     (let d = (if 48 \<le> b \<and> b \<le> 57 then Some (unat b - 48)
               else if 97 \<le> b \<and> b \<le> 122 then Some (unat b - 87)
               else if 65 \<le> b \<and> b \<le> 90 then Some (unat b - 55) else None)
      in case d of None \<Rightarrow> None | Some n \<Rightarrow> if n < radix then Some n else None)"

fun parse_digits :: "nat \<Rightarrow> nat \<Rightarrow> bytes \<Rightarrow> nat option" where
  "parse_digits radix acc [] = Some acc"
| "parse_digits radix acc (b # bs) = (case digit_of radix b of
     None \<Rightarrow> None | Some d \<Rightarrow> parse_digits radix (acc * radix + d) bs)"

text \<open>\<^verbatim>\<open>from_str_radix\<close> for an unsigned type: an optional plus sign, at least one digit, and the
  value has to fit.\<close>

definition from_str_radix :: "nat \<Rightarrow> bytes \<Rightarrow> 'a::len word option" where
  "from_str_radix radix bs = (case bs of [] \<Rightarrow> None
     | b # rest \<Rightarrow>
        (let ds = (if b = 43 then rest else bs)
         in if ds = [] then None
            else case parse_digits radix 0 ds of None \<Rightarrow> None
                 | Some n \<Rightarrow> if n < 2 ^ LENGTH('a) then Some (of_nat n) else None))"

definition parse_u32 :: "bytes \<Rightarrow> u32 option" where
  "parse_u32 = from_str_radix 10"

definition parse_i32 :: "bytes \<Rightarrow> int option" where
  "parse_i32 bs = (case bs of [] \<Rightarrow> None
     | b # rest \<Rightarrow>
        (let neg = (b = 45); ds = (if b = 43 \<or> neg then rest else bs)
         in if ds = [] then None
            else case parse_digits 10 0 ds of None \<Rightarrow> None
                 | Some n \<Rightarrow> if neg then (if n \<le> 2 ^ 31 then Some (- int n) else None)
                            else (if n < 2 ^ 31 then Some (int n) else None)))"

function show_nat :: "nat \<Rightarrow> bytes" where
  "show_nat n = (if n < 10 then [of_nat (48 + n)] else show_nat (n div 10) @ [of_nat (48 + n mod 10)])"
  by pat_completeness auto
termination by (relation "measure id") auto

declare show_nat.simps [simp del]

definition show_int :: "int \<Rightarrow> bytes" where
  "show_int i = (if i < 0 then 45 # show_nat (nat (- i)) else show_nat (nat i))"

text \<open>Parsing reads back what printing wrote.\<close>

lemma digit_of_decimal: "d < 10 \<Longrightarrow> digit_of 10 (of_nat (48 + d)) = Some d"
proof -
  assume d: "d < 10"
  then have "unat (of_nat (48 + d) :: u8) = 48 + d"
    by (simp add: unat_of_nat del: of_nat_add)
  moreover have "(48 :: u8) \<le> of_nat (48 + d)" "(of_nat (48 + d) :: u8) \<le> 57"
    using d calculation by (simp_all add: word_le_nat_alt)
  ultimately show ?thesis using d by (simp add: digit_of_def)
qed

lemma parse_digits_append:
  "parse_digits r a (xs @ ys) = (case parse_digits r a xs of None \<Rightarrow> None | Some m \<Rightarrow> parse_digits r m ys)"
  by (induction xs arbitrary: a) (auto split: option.splits)

lemma parse_show_nat: "parse_digits 10 0 (show_nat n) = Some n"
proof (induction n rule: show_nat.induct)
  case (1 n)
  show ?case
  proof (cases "n < 10")
    case True
    then show ?thesis by (simp add: show_nat.simps [of n] digit_of_decimal del: of_nat_add)
  next
    case False
    with 1 show ?thesis
      by (simp add: show_nat.simps [of n] parse_digits_append digit_of_decimal del: of_nat_add)
  qed
qed

lemma show_nat_nonempty [simp]: "show_nat n \<noteq> []"
  by (subst show_nat.simps) simp

lemma hd_show_nat_digit: "\<exists>d < 10. hd (show_nat n) = of_nat (48 + d)"
proof (induction n rule: show_nat.induct)
  case (1 n)
  then show ?case
    by (cases "n < 10") (auto simp: show_nat.simps [of n] simp del: of_nat_add)
qed

lemma decimal_digit_not_sign: "d < 10 \<Longrightarrow> (of_nat (48 + d) :: u8) \<noteq> 43 \<and> (of_nat (48 + d) :: u8) \<noteq> 45"
proof -
  assume "d < 10"
  then have "unat (of_nat (48 + d) :: u8) = 48 + d"
    by (simp add: unat_of_nat del: of_nat_add)
  then show ?thesis by (auto simp del: of_nat_add)
qed

lemma hd_show_nat: "hd (show_nat n) \<noteq> 43" "hd (show_nat n) \<noteq> 45"
  using hd_show_nat_digit [of n] decimal_digit_not_sign by (metis)+

lemma from_str_show_nat:
  assumes "n < 2 ^ LENGTH('a)"
  shows "from_str_radix 10 (show_nat n) = Some (of_nat n :: 'a::len word)"
proof -
  obtain c cs where sh: "show_nat n = c # cs"
    by (cases "show_nat n") auto
  then have "c \<noteq> 43" and "parse_digits 10 0 (c # cs) = Some n"
    using hd_show_nat(1) [of n] parse_show_nat [of n] by simp_all
  then show ?thesis
    using assms sh by (simp add: from_str_radix_def Let_def del: parse_digits.simps)
qed

lemma parse_i32_show_int:
  assumes "- (2 ^ 31) \<le> i" and "i < 2 ^ 31"
  shows "parse_i32 (show_int i) = Some i"
proof -
  obtain c cs where sh: "show_nat (nat i) = c # cs"
    by (cases "show_nat (nat i)") auto
  then have "c \<noteq> 43" "c \<noteq> 45" and "parse_digits 10 0 (c # cs) = Some (nat i)"
    using hd_show_nat [of "nat i"] parse_show_nat [of "nat i"] by simp_all
  then show ?thesis
    using assms sh by (auto simp: parse_i32_def show_int_def Let_def parse_show_nat
      simp del: parse_digits.simps)
qed

section \<open>UTF-8\<close>

definition utf8_cont :: "u8 \<Rightarrow> bool" where
  "utf8_cont b \<longleftrightarrow> 0x80 \<le> b \<and> b \<le> 0xBF"

text \<open>\<^verbatim>\<open>std::str::from_utf8\<close>: no overlong forms, no surrogates, nothing above U+10FFFF.\<close>

fun utf8_valid :: "bytes \<Rightarrow> bool" where
  "utf8_valid [] = True"
| "utf8_valid (b # bs) =
     (if b < 0x80 then utf8_valid bs
      else if 0xC2 \<le> b \<and> b \<le> 0xDF then
        (case bs of b1 # r \<Rightarrow> utf8_cont b1 \<and> utf8_valid r | [] \<Rightarrow> False)
      else if 0xE0 \<le> b \<and> b \<le> 0xEF then
        (case bs of b1 # b2 # r \<Rightarrow>
            utf8_cont b1 \<and> (b = 0xE0 \<longrightarrow> 0xA0 \<le> b1) \<and> (b = 0xED \<longrightarrow> b1 \<le> 0x9F)
            \<and> utf8_cont b2 \<and> utf8_valid r
         | _ \<Rightarrow> False)
      else if 0xF0 \<le> b \<and> b \<le> 0xF4 then
        (case bs of b1 # b2 # b3 # r \<Rightarrow>
            utf8_cont b1 \<and> (b = 0xF0 \<longrightarrow> 0x90 \<le> b1) \<and> (b = 0xF4 \<longrightarrow> b1 \<le> 0x8F)
            \<and> utf8_cont b2 \<and> utf8_cont b3 \<and> utf8_valid r
         | _ \<Rightarrow> False)
      else False)"

lemma utf8_valid_ascii: "list_all (\<lambda>b. b < 0x80) bs \<Longrightarrow> utf8_valid bs"
  by (induction bs) simp_all

section \<open>Lines\<close>

text \<open>\<^verbatim>\<open>BufRead::lines\<close>: the next line without its line ending, validated.\<close>

definition next_line ::
  "'w env \<Rightarrow> actor \<Rightarrow> int \<Rightarrow> bytes \<Rightarrow> ('w, io_error, bytes option \<times> bytes) io" where
  "next_line E p fd buf = bindR (next_split E p fd buf) (\<lambda>(x, rest). case x of
       None \<Rightarrow> ret (None, rest)
     | Some (line, nl) \<Rightarrow>
         if utf8_valid line
         then ret (Some (if nl \<and> line \<noteq> [] \<and> last line = 13 then butlast line else line), rest)
         else raise (KindErr InvalidData))"

lemma emits_next_line [emits_intros]:
  "(\<And>h c r. inspecting c \<Longrightarrow> P h (p, c, r)) \<Longrightarrow> emits P (next_line E p fd buf)"
  unfolding next_line_def by (intro emits_intros)

text \<open>A loop over the lines of a reader: \<open>f\<close> handles a line (\<open>Inr\<close> leaves the loop), \<open>g\<close> is
  the code after the loop.\<close>

definition for_lines ::
  "'w env \<Rightarrow> actor \<Rightarrow> int \<Rightarrow> (bytes \<Rightarrow> 'a \<Rightarrow> (io_error, 'a + 'b) res) \<Rightarrow> ('a \<Rightarrow> (io_error, 'b) res)
     \<Rightarrow> 'a \<Rightarrow> ('w, io_error, 'b) io" where
  "for_lines E p fd f g a0 = loopM (\<lambda>(buf, a).
     bindR (next_line E p fd buf) (\<lambda>(l, rest). case l of
         None \<Rightarrow> bindR (of_res (g a)) (\<lambda>b. ret (Inr b))
       | Some line \<Rightarrow> bindR (of_res (f line a)) (\<lambda>x. ret (case x of Inl a' \<Rightarrow> Inl (rest, a') | Inr b \<Rightarrow> Inr b))))
     ([], a0)"

lemma emits_for_lines [emits_intros]:
  "(\<And>h c r. inspecting c \<Longrightarrow> P h (p, c, r)) \<Longrightarrow> emits P (for_lines E p fd f g a)"
  unfolding for_lines_def by (intro emits_intros)

section \<open>Reading a file to its end\<close>

text \<open>The contract of sequential \<^verbatim>\<open>read(2)\<close> on a file: the reads return the chunks \<open>cs\<close> of its
  contents, one after the other, then 0 (twice, as often as a reader asks).\<close>

fun serves :: "'w env \<Rightarrow> actor \<Rightarrow> int \<Rightarrow> bytes list \<Rightarrow> 'w \<Rightarrow> bool" where
  "serves E p fd [] w = (case kern E p (Read fd 8192) w of (r, w') \<Rightarrow>
     r_ret r = 0 \<and> r_ret (fst (kern E p (Read fd 8192) w')) = 0)"
| "serves E p fd (c # cs) w = (case kern E p (Read fd 8192) w of (r, w') \<Rightarrow>
     c \<noteq> [] \<and> length c \<le> 8192 \<and> r_ret r = int (length c) \<and> r_data r = c \<and> serves E p fd cs w')"

text \<open>The lines of a text, each with whether a newline ended it.\<close>

lemma split_newline_Some:
  assumes "split_newline bs = Some (l, rest)"
  shows "bs = l @ 10 # rest" and "10 \<notin> set l"
proof -
  let ?d = "dropWhile (\<lambda>b. b \<noteq> 10) bs"
  from assms have 10: "10 \<in> set bs" and l: "l = takeWhile (\<lambda>b. b \<noteq> 10) bs" and rest: "rest = tl ?d"
    by (auto simp: split_newline_def split: if_splits)
  from 10 have "?d \<noteq> []" "hd ?d = 10" by (auto simp: dropWhile_eq_Nil_conv) (metis (mono_tags, lifting) hd_dropWhile dropWhile_eq_Nil_conv)
  then have "?d = 10 # rest" using rest by (metis list.collapse)
  then show "bs = l @ 10 # rest" using l by (metis takeWhile_dropWhile_id)
  show "10 \<notin> set l" using l by (auto dest: set_takeWhileD)
qed

lemma split_newline_append:
  "split_newline bs = Some (l, rest) \<Longrightarrow> split_newline (bs @ cs) = Some (l, rest @ cs)"
  by (auto simp: split_newline_def takeWhile_append1 dropWhile_append1 dest: split_newline_Some split: if_splits)

lemma split_newline_line: "10 \<notin> set l \<Longrightarrow> split_newline (l @ 10 # bs) = Some (l, bs)"
  by (induction l) (auto simp: split_newline_def)

function raw_lines :: "bytes \<Rightarrow> (bytes \<times> bool) list" where
  "raw_lines bs = (case split_newline bs of
       Some (l, rest) \<Rightarrow> (l, True) # raw_lines rest
     | None \<Rightarrow> if bs = [] then [] else [(bs, False)])"
  by pat_completeness auto
termination
  by (relation "measure length") (auto dest: split_newline_Some(1))

declare raw_lines.simps [simp del]

lemma raw_lines_Nil [simp]: "raw_lines [] = []"
  by (simp add: raw_lines.simps split_newline_def)

lemma raw_lines_line: "10 \<notin> set l \<Longrightarrow> raw_lines (l @ 10 # bs) = (l, True) # raw_lines bs"
  by (subst raw_lines.simps) (simp add: split_newline_line)

definition clean_line :: "bytes \<times> bool \<Rightarrow> (io_error, bytes) res" where
  "clean_line x = (case x of (line, nl) \<Rightarrow>
     if utf8_valid line then Ok (if nl \<and> line \<noteq> [] \<and> last line = 13 then butlast line else line)
     else Err (KindErr InvalidData))"

fun fold_lines :: "(bytes \<Rightarrow> 'a \<Rightarrow> (io_error, 'a + 'b) res) \<Rightarrow> ('a \<Rightarrow> (io_error, 'b) res) \<Rightarrow> 'a
     \<Rightarrow> (bytes \<times> bool) list \<Rightarrow> (io_error, 'b) res" where
  "fold_lines f g a [] = g a"
| "fold_lines f g a (x # xs) = bindP (clean_line x) (\<lambda>l. bindP (f l a) (\<lambda>y.
     case y of Inl a' \<Rightarrow> fold_lines f g a' xs | Inr b \<Rightarrow> Ok b))"

lemma m_world_after: "m_world (after E p c s) = snd (kern E p c (m_world s))"
  by (simp add: after_def split: prod.splits)

lemma read_some_once:
  assumes "0 \<le> r_ret (answer E p (Read fd 8192) s)" and "r_ret (answer E p (Read fd 8192) s) \<le> 8192"
  shows "read_some E p fd s = Some (Ok (fit (nat (r_ret (answer E p (Read fd 8192) s)))
     (r_data (answer E p (Read fd 8192) s))), after E p (Read fd 8192) s)"
  using assms
  by (simp add: read_some_def loopM.simps matchR_def c_result_def bindR_def sys_eq ret_def)

lemma next_split_unfold:
  "next_split E p fd buf = (case split_newline buf of
       Some (line, rest) \<Rightarrow> ret (Some (line, True), rest)
     | None \<Rightarrow> bindR (read_some E p fd) (\<lambda>bs.
         if bs = [] then ret (if buf = [] then None else Some (buf, False), [])
         else next_split E p fd (buf @ bs)))"
  unfolding next_split_def
  by (rule ext, subst loopM.simps)
     (auto simp: ret_def bindR_def split: option.splits prod.splits res.splits)

text \<open>One line is taken off what is buffered and still to come.\<close>

lemma next_split_serves:
  assumes "serves E p fd cs (m_world s)"
  shows "\<exists>s'. case raw_lines (buf @ concat cs) of
      [] \<Rightarrow> next_split E p fd buf s = Some (Ok (None, []), s')
    | (l, nl) # ls \<Rightarrow> \<exists>rest cs'. next_split E p fd buf s = Some (Ok (Some (l, nl), rest), s')
        \<and> raw_lines (rest @ concat cs') = ls
        \<and> (if nl then serves E p fd cs' (m_world s') else rest = [] \<and> cs' = []
              \<and> r_ret (fst (kern E p (Read fd 8192) (m_world s'))) = 0)"
  using assms
proof (induction cs arbitrary: buf s)
  case Nil
  show ?case
  proof (cases "split_newline buf")
    case None
    have "r_ret (answer E p (Read fd 8192) s) = 0"
      "r_ret (fst (kern E p (Read fd 8192) (m_world (after E p (Read fd 8192) s)))) = 0"
      using Nil by (auto simp: answer_def m_world_after split: prod.splits)
    moreover from this None read_some_once [of E p fd s] have "next_split E p fd buf s
        = Some (Ok (if buf = [] then None else Some (buf, False), []), after E p (Read fd 8192) s)"
      by (simp add: next_split_unfold [of E p fd buf] bindR_def ret_def)
    moreover have "raw_lines buf = (if buf = [] then [] else [(buf, False)])" "raw_lines [] = []"
      using None by (simp_all add: raw_lines.simps split_newline_def)
    ultimately show ?thesis by (cases "buf = []") (auto intro!: exI [of _ "[]"])
  next
    case (Some lr)
    with Nil show ?thesis
      by (cases lr) (auto simp: raw_lines.simps [of buf] next_split_unfold [of E p fd buf] ret_def intro!: exI [of _ "[]"])
  qed
next
  case (Cons c cs)
  show ?case
  proof (cases "split_newline buf")
    case None
    let ?s = "after E p (Read fd 8192) s"
    from Cons.prems have c: "c \<noteq> []" "r_ret (answer E p (Read fd 8192) s) = int (length c)"
      "length c \<le> 8192" "r_data (answer E p (Read fd 8192) s) = c" and more: "serves E p fd cs (m_world ?s)"
      by (auto simp: answer_def m_world_after split: prod.splits)
    with read_some_once [of E p fd s] have "read_some E p fd s = Some (Ok c, ?s)" by simp
    with None c(1) have eq: "next_split E p fd buf s = next_split E p fd (buf @ c) ?s"
      by (simp add: next_split_unfold [of E p fd buf] bindR_def)
    from Cons.IH [OF more, of "buf @ c"] show ?thesis
      unfolding eq by (simp only: concat.simps append_assoc)
  next
    case (Some lr)
    then obtain l rest where lr: "lr = (l, rest)" by (cases lr)
    with Some have "raw_lines (buf @ concat (c # cs)) = (l, True) # raw_lines (rest @ concat (c # cs))"
      using split_newline_append [of buf l rest] by (subst raw_lines.simps) simp
    moreover have "next_split E p fd buf s = Some (Ok (Some (l, True), rest), s)"
      using Some lr by (simp add: next_split_unfold [of E p fd buf] ret_def)
    ultimately show ?thesis using Cons.prems by (auto simp del: serves.simps intro!: exI [of _ "c # cs"])
  qed
qed

text \<open>A loop that takes line after line off a reader, given as a step on the raw line.\<close>

definition raw_body ::
  "'w env \<Rightarrow> actor \<Rightarrow> int \<Rightarrow> (io_error \<Rightarrow> 'e) \<Rightarrow> (bytes \<times> bool \<Rightarrow> 'a \<Rightarrow> ('e, 'a + 'b) res) \<Rightarrow> ('a \<Rightarrow> ('e, 'b) res)
     \<Rightarrow> bytes \<times> 'a \<Rightarrow> ('w, 'e, (bytes \<times> 'a) + 'b) io" where
  "raw_body E p fd G f g = (\<lambda>(buf, a).
     bindR (map_err G (next_split E p fd buf)) (\<lambda>(x, rest). case x of
         None \<Rightarrow> bindR (of_res (g a)) (\<lambda>b. ret (Inr b))
       | Some line \<Rightarrow> bindR (of_res (f line a)) (\<lambda>y. ret (case y of Inl a' \<Rightarrow> Inl (rest, a') | Inr b \<Rightarrow> Inr b))))"

fun fold_raw :: "(bytes \<times> bool \<Rightarrow> 'a \<Rightarrow> ('e, 'a + 'b) res) \<Rightarrow> ('a \<Rightarrow> ('e, 'b) res) \<Rightarrow> 'a
     \<Rightarrow> (bytes \<times> bool) list \<Rightarrow> ('e, 'b) res" where
  "fold_raw f g a [] = g a"
| "fold_raw f g a (x # xs) = bindP (f x a) (\<lambda>y. case y of Inl a' \<Rightarrow> fold_raw f g a' xs | Inr b \<Rightarrow> Ok b)"

lemma loopM_raw_step:
  assumes "next_split E p fd buf s = Some (Ok (Some x, rest), s')"
  shows "loopM (raw_body E p fd G f g) (buf, a) s = (case f x a of
      Ok y \<Rightarrow> (case y of Inl a' \<Rightarrow> loopM (raw_body E p fd G f g) (rest, a') s' | Inr b \<Rightarrow> Some (Ok b, s'))
    | Err e \<Rightarrow> Some (Err e, s') | Panic \<Rightarrow> Some (Panic, s'))"
  by (subst loopM.simps)
     (auto simp: raw_body_def bindR_def map_err_def ret_def of_res_def assms split: res.split sum.split)

lemma loopM_raw_end:
  assumes "next_split E p fd buf s = Some (Ok (None, rest), s')"
  shows "loopM (raw_body E p fd G f g) (buf, a) s = Some (g a, s')"
  by (subst loopM.simps)
     (auto simp: raw_body_def bindR_def map_err_def ret_def of_res_def assms split: res.splits)

text \<open>Over a served file the loop ends, with the result of folding over the file's lines.\<close>

lemma loopM_raw:
  assumes "serves E p fd cs (m_world s)"
  shows "\<exists>s'. loopM (raw_body E p fd G f g) (buf, a) s = Some (fold_raw f g a (raw_lines (buf @ concat cs)), s')"
  using assms
proof (induction "raw_lines (buf @ concat cs)" arbitrary: buf cs s a)
  case Nil
  from next_split_serves [OF Nil.prems, of buf] Nil.hyps show ?case
    by (auto simp flip: Nil.hyps intro: loopM_raw_end)
next
  case (Cons x ls)
  obtain l nl where x: "x = (l, nl)" by (cases x)
  from next_split_serves [OF Cons.prems, of buf] Cons.hyps(2) x obtain s' rest cs' where
    split: "next_split E p fd buf s = Some (Ok (Some (l, nl), rest), s')"
    and ls: "raw_lines (rest @ concat cs') = ls"
    and more: "if nl then serves E p fd cs' (m_world s') else rest = [] \<and> cs' = []
              \<and> r_ret (fst (kern E p (Read fd 8192) (m_world s'))) = 0"
    by (auto simp flip: Cons.hyps(2))
  have later: "\<exists>s''. loopM (raw_body E p fd G f g) (rest, a') s' = Some (fold_raw f g a' ls, s'')" for a'
  proof (cases nl)
    case True
    with more Cons.hyps(1) [of rest cs' s' a'] ls show ?thesis by simp
  next
    case False
    with more have rest: "rest = []" "cs' = []" "r_ret (answer E p (Read fd 8192) s') = 0"
      by (simp_all add: answer_def)
    then have "next_split E p fd rest s' = Some (Ok (None, []), after E p (Read fd 8192) s')"
      using read_some_once [of E p fd s']
      by (simp add: next_split_unfold [of E p fd "[]"] split_newline_def bindR_def ret_def)
    moreover have "ls = []" using ls rest by (simp add: raw_lines.simps split_newline_def)
    ultimately show ?thesis by (simp add: loopM_raw_end)
  qed
  show ?case
    unfolding loopM_raw_step [OF split] Cons.hyps(2) [symmetric] x fold_raw.simps
    using later by (auto simp: bindP_def split: res.splits sum.splits)
qed

text \<open>Loops over decoded lines are such loops.\<close>

lemma for_lines_raw:
  "for_lines E p fd f g a = loopM (raw_body E p fd id (\<lambda>x a. bindP (clean_line x) (\<lambda>l. f l a)) g) ([], a)"
proof -
  have "bindR (next_line E p fd buf) (\<lambda>(l, rest). case l of
         None \<Rightarrow> bindR (of_res (g a)) (\<lambda>b. ret (Inr b))
       | Some line \<Rightarrow> bindR (of_res (f line a)) (\<lambda>x. ret (case x of Inl a' \<Rightarrow> Inl (rest, a') | Inr b \<Rightarrow> Inr b))) s
     = raw_body E p fd id (\<lambda>x a. bindP (clean_line x) (\<lambda>l. f l a)) g (buf, a) s" for buf a s
    by (auto simp: raw_body_def next_line_def clean_line_def bindR_def map_err_def of_res_def ret_def raise_def bindP_def
      split: option.splits res.splits prod.splits)
  then show ?thesis unfolding for_lines_def by (intro arg_cong2 [where f = loopM]) (auto simp: fun_eq_iff)
qed

lemma fold_lines_raw: "fold_lines f g a xs = fold_raw (\<lambda>x a. bindP (clean_line x) (\<lambda>l. f l a)) g a xs"
  by (induction xs arbitrary: a) (auto simp: bindP_def split: res.splits sum.splits)

lemma for_lines_fold:
  assumes "serves E p fd cs (m_world s)"
  shows "\<exists>s'. for_lines E p fd f g a s = Some (fold_lines f g a (raw_lines (concat cs)), s')"
  unfolding for_lines_raw fold_lines_raw using loopM_raw [OF assms, where buf = "[]"] by simp

section \<open>Decimal fields\<close>

text \<open>Words of a line, with any amount of padding before them.\<close>

lemma split_on_word: "list_all (\<lambda>b. \<not> P b) w \<Longrightarrow> split_on P w = [w]"
  by (induction w) auto

lemma split_on_append:
  "list_all (\<lambda>b. \<not> P b) w \<Longrightarrow> P x \<Longrightarrow> split_on P (w @ x # rest) = w # split_on P rest"
  by (induction w) auto

lemma split_padding: "split_ascii_whitespace (replicate k 32 @ rest) = split_ascii_whitespace rest"
  by (induction k) (simp_all add: split_ascii_whitespace_def is_ascii_whitespace_def)

lemma split_field:
  assumes "list_all (\<lambda>b. \<not> is_ascii_whitespace b) w" and "w \<noteq> []"
  shows "split_ascii_whitespace (w @ 32 # rest) = w # split_ascii_whitespace rest"
    and "split_ascii_whitespace w = [w]"
  using assms by (simp_all add: split_ascii_whitespace_def split_on_append split_on_word is_ascii_whitespace_def)

lemma show_nat_digits: "list_all (\<lambda>b. 48 \<le> b \<and> b \<le> 57) (show_nat n)"
proof (induction n rule: show_nat.induct)
  case (1 n)
  have digit: "48 \<le> (of_nat (48 + d) :: u8) \<and> (of_nat (48 + d) :: u8) \<le> 57" if "d < 10" for d
  proof -
    from that have "unat (of_nat (48 + d) :: u8) = 48 + d" by (simp add: unat_of_nat del: of_nat_add)
    with that show ?thesis by (simp add: word_le_nat_alt)
  qed
  with 1 show ?case
    by (cases "n < 10") (simp_all add: show_nat.simps [of n] del: of_nat_add)
qed

lemma digit_bytes:
  assumes "(48 :: u8) \<le> b" and "b \<le> 57"
  shows "b < 0x80" and "\<not> is_ascii_whitespace b" and "b \<noteq> 10" and "b \<noteq> 13"
  using assms by (auto simp: is_ascii_whitespace_def word_le_nat_alt word_less_nat_alt)

lemma show_nat_plain:
  "list_all (\<lambda>b. b < 0x80) (show_nat n)" "list_all (\<lambda>b. \<not> is_ascii_whitespace b) (show_nat n)"
  "10 \<notin> set (show_nat n)" "13 \<notin> set (show_nat n)"
  using show_nat_digits [of n] by (auto simp: list_all_iff dest: digit_bytes)

section \<open>Reading a whole file\<close>

lemma read_some_serves:
  assumes "serves E p fd (c # cs) (m_world s)"
  shows "read_some E p fd s = Some (Ok c, after E p (Read fd 8192) s)"
    and "serves E p fd cs (m_world (after E p (Read fd 8192) s))" and "c \<noteq> []"
  using assms read_some_once [of E p fd s] by (auto simp: answer_def m_world_after split: prod.splits)

lemma read_to_end_serves:
  assumes "serves E p fd cs (m_world s)"
  shows "\<exists>s'. read_to_end E p fd s = Some (Ok (concat cs), s')"
proof -
  let ?body = "\<lambda>out. bindR (read_some E p fd) (\<lambda>bs. ret (if bs = [] then Inr out else Inl (out @ bs)))"
  have "\<exists>s'. loopM ?body out s = Some (Ok (out @ concat cs), s')" for out
    using assms
  proof (induction cs arbitrary: out s)
    case Nil
    then have "r_ret (answer E p (Read fd 8192) s) = 0" by (auto simp: answer_def split: prod.splits)
    with read_some_once [of E p fd s] have "read_some E p fd s = Some (Ok [], after E p (Read fd 8192) s)" by simp
    then show ?case by (subst loopM.simps) (simp add: bindR_def ret_def)
  next
    case (Cons c cs)
    note r = read_some_serves [OF Cons.prems]
    from r(1,3) have "loopM ?body out s = loopM ?body (out @ c) (after E p (Read fd 8192) s)"
      by (subst loopM.simps) (simp add: bindR_def ret_def)
    with Cons.IH [OF r(2), of "out @ c"] show ?case by simp
  qed
  from this [of "[]"] show ?thesis by (simp add: read_to_end_def)
qed

end
