(* ===== verification/Process.thy ===== *)
theory Process
  imports Text
begin

text \<open>
  \<^verbatim>\<open>src/process/pid_fd.rs\<close>, \<^verbatim>\<open>src/process/mod.rs\<close>, \<^verbatim>\<open>src/process/cgroups.rs\<close>,
  \<^verbatim>\<open>src/process/id_map.rs\<close> and \<^verbatim>\<open>src/nsfd.rs\<close>: a process seen through its
  \<^verbatim>\<open>/proc\<close> directory, what the daemon reads from there, namespace descriptors, and the
  uid/gid mapping of its user namespace.
\<close>

section \<open>Namespaces (src/nsfd.rs)\<close>

datatype ns_type = Mount | User | Cgroup

definition ns_TYPE :: "ns_type \<Rightarrow> int" where
  "ns_TYPE t = (case t of Mount \<Rightarrow> 0x00020000 | User \<Rightarrow> 0x10000000 | Cgroup \<Rightarrow> 0x02000000)"

abbreviation (input) AT_FDCWD :: int where "AT_FDCWD \<equiv> -100"

definition RawNsFd_openat :: "'w env \<Rightarrow> actor \<Rightarrow> int \<Rightarrow> bytes \<Rightarrow> ('w, io_error, int) io" where
  "RawNsFd_openat E p fd path =
     bindR (c_result E p (Openat fd path (O_RDONLY OR O_CLOEXEC) 0)) (\<lambda>r. owned_fd (r_ret r))"

definition RawNsFd_open :: "'w env \<Rightarrow> actor \<Rightarrow> bytes \<Rightarrow> ('w, io_error, int) io" where
  "RawNsFd_open E p path = RawNsFd_openat E p AT_FDCWD path"

definition RawNsFd_setns :: "'w env \<Rightarrow> actor \<Rightarrow> int \<Rightarrow> int \<Rightarrow> ('w, io_error, unit) io" where
  "RawNsFd_setns E p self ty = bindR (c_result E p (Setns self ty)) (\<lambda>_. ret ())"

text \<open>\<^verbatim>\<open>NsFd<T>\<close> is the raw descriptor with its type.\<close>

definition NsFd_openat :: "'w env \<Rightarrow> actor \<Rightarrow> ns_type \<Rightarrow> int \<Rightarrow> bytes \<Rightarrow> ('w, io_error, ns_type \<times> int) io" where
  "NsFd_openat E p t fd path = bindR (RawNsFd_openat E p fd path) (\<lambda>n. ret (t, n))"

definition NsFd_open :: "'w env \<Rightarrow> actor \<Rightarrow> ns_type \<Rightarrow> bytes \<Rightarrow> ('w, io_error, ns_type \<times> int) io" where
  "NsFd_open E p t path = bindR (RawNsFd_open E p path) (\<lambda>n. ret (t, n))"

definition NsFd_setns :: "'w env \<Rightarrow> actor \<Rightarrow> ns_type \<times> int \<Rightarrow> ('w, io_error, unit) io" where
  "NsFd_setns E p ns = RawNsFd_setns E p (snd ns) (ns_TYPE (fst ns))"

section \<open>Pid descriptors\<close>

record PidFd =
  pf_fd :: int
  pf_pid :: int

definition PidFd_open :: "'w env \<Rightarrow> actor \<Rightarrow> int \<Rightarrow> ('w, io_error, PidFd) io" where
  "PidFd_open E p pid =
     (let path = str ''/proc/'' @ show_int pid in
      bindR (c_result E p (Open path (O_DIRECTORY OR O_CLOEXEC) 0)) (\<lambda>r.
      bindR (owned_fd (r_ret r)) (\<lambda>fd.
      ret \<lparr>pf_fd = fd, pf_pid = pid\<rparr>)))"

definition PidFd_current :: "'w env \<Rightarrow> actor \<Rightarrow> ('w, io_error, PidFd) io" where
  "PidFd_current E p = bindR (sys E p Getpid) (\<lambda>r. PidFd_open E p (r_ret r))"

definition mount_namespace :: "'w env \<Rightarrow> actor \<Rightarrow> PidFd \<Rightarrow> ('w, io_error, ns_type \<times> int) io" where
  "mount_namespace E p self = NsFd_openat E p Mount (pf_fd self) (str ''ns/mnt'')"

definition cgroup_namespace :: "'w env \<Rightarrow> actor \<Rightarrow> PidFd \<Rightarrow> ('w, io_error, ns_type \<times> int) io" where
  "cgroup_namespace E p self = NsFd_openat E p Cgroup (pf_fd self) (str ''ns/cgroup'')"

definition user_namespace :: "'w env \<Rightarrow> actor \<Rightarrow> PidFd \<Rightarrow> ('w, io_error, ns_type \<times> int) io" where
  "user_namespace E p self = NsFd_openat E p User (pf_fd self) (str ''ns/user'')"

definition PidFd_fd :: "'w env \<Rightarrow> actor \<Rightarrow> PidFd \<Rightarrow> bytes \<Rightarrow> int \<Rightarrow> u32 \<Rightarrow> ('w, io_error, int) io" where
  "PidFd_fd E p self path flags mode =
     bindR (c_result E p (Openat (pf_fd self) path (flags OR O_CLOEXEC) mode)) (\<lambda>r. owned_fd (r_ret r))"

definition fd_cwd :: "'w env \<Rightarrow> actor \<Rightarrow> PidFd \<Rightarrow> ('w, io_error, int) io" where
  "fd_cwd E p self = PidFd_fd E p self (str ''cwd'') O_DIRECTORY 0"

definition fd_num :: "'w env \<Rightarrow> actor \<Rightarrow> PidFd \<Rightarrow> int \<Rightarrow> int \<Rightarrow> ('w, io_error, int) io" where
  "fd_num E p self num flags = PidFd_fd E p self (str ''fd/'' @ show_int num) flags 0"

definition enter_cwd :: "'w env \<Rightarrow> actor \<Rightarrow> PidFd \<Rightarrow> ('w, io_error, unit) io" where
  "enter_cwd E p self =
     bindR (fd_cwd E p self) (\<lambda>fd. owning E p fd (
       bindR (c_result E p (Fchdir fd)) (\<lambda>_. ret ())))"

definition enter_chroot :: "'w env \<Rightarrow> actor \<Rightarrow> PidFd \<Rightarrow> ('w, io_error, unit) io" where
  "enter_chroot E p self =
     bindR (c_result E p (Fchdir (pf_fd self))) (\<lambda>_.
     bindR (c_result E p (Chroot (str ''root''))) (\<lambda>_.
     bindR (c_result E p (Chdir (str ''/''))) (\<lambda>_.
     ret ())))"

definition open_file :: "'w env \<Rightarrow> actor \<Rightarrow> PidFd \<Rightarrow> bytes \<Rightarrow> int \<Rightarrow> u32 \<Rightarrow> ('w, io_error, int) io" where
  "open_file E p self path flags mode = PidFd_fd E p self path flags mode"

definition open_buffered :: "'w env \<Rightarrow> actor \<Rightarrow> PidFd \<Rightarrow> bytes \<Rightarrow> ('w, io_error, int) io" where
  "open_buffered E p self path = open_file E p self path (O_RDONLY OR O_CLOEXEC) 0"

definition read_file :: "'w env \<Rightarrow> actor \<Rightarrow> PidFd \<Rightarrow> bytes \<Rightarrow> ('w, io_error, bytes) io" where
  "read_file E p self file =
     bindR (open_file E p self file (O_RDONLY OR O_CLOEXEC) 0) (\<lambda>reader.
     owning E p reader (read_to_end E p reader))"

subsection \<open>The pid\<close>

definition pid_line :: "bytes \<Rightarrow> unit \<Rightarrow> (io_error, unit + int) res" where
  "pid_line line u =
     (let parts = split_ascii_whitespace line in
      if nth_opt parts 0 = Some (str ''Pid:'')
      then (case nth_opt parts 1 of None \<Rightarrow> Err (KindErr Other)
            | Some w \<Rightarrow> (case parse_i32 w of None \<Rightarrow> Err (KindErr Other) | Some pid \<Rightarrow> Ok (Inr pid)))
      else Ok (Inl ()))"

definition read_pid :: "'w env \<Rightarrow> actor \<Rightarrow> PidFd \<Rightarrow> ('w, io_error, int) io" where
  "read_pid E p self =
     bindR (open_buffered E p self (str ''status'')) (\<lambda>reader.
     owning E p reader (for_lines E p reader pid_line (\<lambda>_. Err (KindErr NotFound)) ()))"

definition try_from_fd :: "'w env \<Rightarrow> actor \<Rightarrow> int \<Rightarrow> ('w, io_error, PidFd) io" where
  "try_from_fd E p fd =
     (let this = \<lparr>pf_fd = fd, pf_pid = -1\<rparr> in
      bindR (closing_on_error E p fd (read_pid E p this)) (\<lambda>pid.
      ret (this\<lparr>pf_pid := pid\<rparr>)))"

subsection \<open>Credentials\<close>

record Uids =
  ruid :: u32
  euid :: u32
  suid :: u32
  fsuid :: u32
  rgid :: u32
  egid :: u32
  sgid :: u32
  fsgid :: u32

record Capabilities =
  inheritable :: u64
  permitted :: u64
  effective :: u64

record ProcStatus =
  uids :: Uids
  capabilities :: Capabilities
  umask :: u32

definition default_status :: ProcStatus where
  "default_status =
     \<lparr>uids = \<lparr>ruid = 0, euid = 0, suid = 0, fsuid = 0, rgid = 0, egid = 0, sgid = 0, fsgid = 0\<rparr>,
      capabilities = \<lparr>inheritable = 0, permitted = 0, effective = 0\<rparr>,
      umask = 18 \<comment> \<open>octal 022\<close>\<rparr>"

definition check_uid_gid :: "bytes option \<Rightarrow> (io_error, u32) res" where
  "check_uid_gid value = (case value of None \<Rightarrow> Err (KindErr Other)
     | Some w \<Rightarrow> (case parse_u32 w of None \<Rightarrow> Err (KindErr Other) | Some n \<Rightarrow> Ok n))"

definition check_u64_hex :: "bytes option \<Rightarrow> (io_error, u64) res" where
  "check_u64_hex value = (case value of None \<Rightarrow> Err (KindErr Other)
     | Some w \<Rightarrow> (case from_str_radix 16 w of None \<Rightarrow> Err (KindErr Other) | Some n \<Rightarrow> Ok n))"

definition check_u32_oct :: "bytes option \<Rightarrow> (io_error, u32) res" where
  "check_u32_oct value = (case value of None \<Rightarrow> Err (KindErr Other)
     | Some w \<Rightarrow> (case from_str_radix 8 w of None \<Rightarrow> Err (KindErr Other) | Some n \<Rightarrow> Ok n))"

text \<open>One line of \<^verbatim>\<open>/proc/PID/status\<close>.\<close>

definition status_line :: "bytes \<Rightarrow> ProcStatus \<Rightarrow> (io_error, ProcStatus) res" where
  "status_line line st =
     (let parts = split_ascii_whitespace line; key = nth_opt parts 0; ids = uids st; caps = capabilities st in
      if key = Some (str ''Uid:'') then
        bindP (check_uid_gid (nth_opt parts 1)) (\<lambda>r. bindP (check_uid_gid (nth_opt parts 2)) (\<lambda>e.
        bindP (check_uid_gid (nth_opt parts 3)) (\<lambda>s. bindP (check_uid_gid (nth_opt parts 4)) (\<lambda>f.
        Ok (st\<lparr>uids := ids\<lparr>ruid := r, euid := e, suid := s, fsuid := f\<rparr>\<rparr>)))))
      else if key = Some (str ''Gid:'') then
        bindP (check_uid_gid (nth_opt parts 1)) (\<lambda>r. bindP (check_uid_gid (nth_opt parts 2)) (\<lambda>e.
        bindP (check_uid_gid (nth_opt parts 3)) (\<lambda>s. bindP (check_uid_gid (nth_opt parts 4)) (\<lambda>f.
        Ok (st\<lparr>uids := ids\<lparr>rgid := r, egid := e, sgid := s, fsgid := f\<rparr>\<rparr>)))))
      else if key = Some (str ''CapInh:'') then
        bindP (check_u64_hex (nth_opt parts 1)) (\<lambda>n. Ok (st\<lparr>capabilities := caps\<lparr>inheritable := n\<rparr>\<rparr>))
      else if key = Some (str ''CapPrm:'') then
        bindP (check_u64_hex (nth_opt parts 1)) (\<lambda>n. Ok (st\<lparr>capabilities := caps\<lparr>permitted := n\<rparr>\<rparr>))
      else if key = Some (str ''CapEff:'') then
        bindP (check_u64_hex (nth_opt parts 1)) (\<lambda>n. Ok (st\<lparr>capabilities := caps\<lparr>effective := n\<rparr>\<rparr>))
      else if key = Some (str ''Umask:'') then
        bindP (check_u32_oct (nth_opt parts 1)) (\<lambda>n. Ok (st\<lparr>umask := n\<rparr>))
      else Ok st)"

definition get_status :: "'w env \<Rightarrow> actor \<Rightarrow> PidFd \<Rightarrow> ('w, io_error, ProcStatus) io" where
  "get_status E p self =
     bindR (open_buffered E p self (str ''status'')) (\<lambda>reader.
     owning E p reader (for_lines E p reader
       (\<lambda>line st. bindP (status_line line st) (\<lambda>st'. Ok (Inl st'))) Ok default_status))"

subsection \<open>Control groups (src/process/cgroups.rs)\<close>

record CGroups =
  cg_v1 :: "(bytes \<Rightarrow> bytes option) option"
  cg_v2 :: "bytes option"

definition CGroups_new :: CGroups where
  "CGroups_new = \<lparr>cg_v1 = None, cg_v2 = None\<rparr>"

definition CGroups_get :: "CGroups \<Rightarrow> bytes \<Rightarrow> bytes option" where
  "CGroups_get self name = (case cg_v1 self of None \<Rightarrow> None | Some v1 \<Rightarrow> v1 name)"

definition CGroups_v2 :: "CGroups \<Rightarrow> bytes option" where
  "CGroups_v2 self = cg_v2 self"

definition has_v1 :: "CGroups \<Rightarrow> bool" where
  "has_v1 self \<longleftrightarrow> cg_v1 self \<noteq> None"

definition insert_v1 :: "bytes \<Rightarrow> CGroups \<Rightarrow> bytes \<Rightarrow> CGroups" where
  "insert_v1 path cg entry =
     (let v1 = (case cg_v1 cg of None \<Rightarrow> Map.empty | Some m \<Rightarrow> m)
      in cg\<lparr>cg_v1 := Some (v1(entry \<mapsto> path))\<rparr>)"

text \<open>One line of \<^verbatim>\<open>/proc/PID/cgroup\<close>: hierarchy id, controllers, path.\<close>

definition cgroup_line :: "bytes \<Rightarrow> CGroups \<Rightarrow> (error, CGroups) res" where
  "cgroup_line line cg =
     (let parts = splitn 3 (\<lambda>b. b = 58) line in
      case (nth_opt parts 0, nth_opt parts 1, nth_opt parts 2) of
        (Some num, Some name, Some path) \<Rightarrow>
          if \<not> utf8_valid name then Err (AnyErr ''invalid utf-8'')
          else if name = [] then Ok (cg\<lparr>cg_v2 := Some path\<rparr>)
          else Ok (foldl (insert_v1 path) cg (split_on (\<lambda>b. b = 44) name))
      | _ \<Rightarrow> Err (AnyErr ''failed to parse cgroup line''))"

definition get_cgroups :: "'w env \<Rightarrow> actor \<Rightarrow> PidFd \<Rightarrow> ('w, error, CGroups) io" where
  "get_cgroups E p self =
     bindR (map_err IoErr (open_buffered E p self (str ''cgroup''))) (\<lambda>reader.
     owning E p reader (loopM (\<lambda>(buf, cg).
       bindR (map_err IoErr (next_split E p reader buf)) (\<lambda>(x, rest). case x of
           None \<Rightarrow> ret (Inr cg)
         | Some (line, nl) \<Rightarrow> bindR (of_res (cgroup_line line cg)) (\<lambda>cg'. ret (Inl (rest, cg')))))
       ([], CGroups_new)))"

section \<open>Id mapping (src/process/id_map.rs)\<close>

record IdMapEntry =
  e_ns :: u64
  e_host :: u64
  e_range :: u64

type_synonym IdMap = "IdMapEntry list"

fun map_into :: "IdMap \<Rightarrow> u64 \<Rightarrow> u64 option" where
  "map_into [] i = None"
| "map_into (entry # entries) i =
     (if e_host entry \<le> i \<and> e_host entry + e_range entry > i
      then Some (e_ns entry + i - e_host entry) else map_into entries i)"

fun map_from :: "IdMap \<Rightarrow> u64 \<Rightarrow> u64 option" where
  "map_from [] i = None"
| "map_from (entry # entries) i =
     (if e_ns entry \<le> i \<and> e_ns entry + e_range entry > i
      then Some (e_host entry + i - e_ns entry) else map_from entries i)"

definition id_map_line :: "bytes \<Rightarrow> IdMap \<Rightarrow> (io_error, IdMap) res" where
  "id_map_line line entries =
     (let parts = split_ascii_whitespace line in
      bindP (check_uid_gid (nth_opt parts 0)) (\<lambda>ns.
      bindP (check_uid_gid (nth_opt parts 1)) (\<lambda>host.
      bindP (check_uid_gid (nth_opt parts 2)) (\<lambda>range.
      Ok (entries @ [\<lparr>e_ns = ucast ns, e_host = ucast host, e_range = ucast range\<rparr>])))))"

definition get_uid_gid_map :: "'w env \<Rightarrow> actor \<Rightarrow> PidFd \<Rightarrow> bytes \<Rightarrow> ('w, error, IdMap) io" where
  "get_uid_gid_map E p self file =
     bindR (map_err IoErr (open_buffered E p self file)) (\<lambda>reader.
     owning E p reader (map_err IoErr (for_lines E p reader
       (\<lambda>line m. bindP (id_map_line line m) (\<lambda>m'. Ok (Inl m'))) Ok [])))"

definition get_uid_map :: "'w env \<Rightarrow> actor \<Rightarrow> PidFd \<Rightarrow> ('w, error, IdMap) io" where
  "get_uid_map E p self = get_uid_gid_map E p self (str ''uid_map'')"

definition get_gid_map :: "'w env \<Rightarrow> actor \<Rightarrow> PidFd \<Rightarrow> ('w, error, IdMap) io" where
  "get_gid_map E p self = get_uid_gid_map E p self (str ''gid_map'')"

section \<open>Calls made\<close>

text \<open>Looking at a process only opens, reads and closes.\<close>

lemma emits_PidFd_fd [emits_intros]:
  "(\<And>h c r. inspecting c \<Longrightarrow> P h (p, c, r)) \<Longrightarrow> emits P (PidFd_fd E p self path flags mode)"
  unfolding PidFd_fd_def by (intro emits_intros) simp

lemmas file_open_defs = fd_cwd_def fd_num_def open_file_def open_buffered_def

lemma emits_file_opens [emits_intros]:
  assumes "\<And>h c r. inspecting c \<Longrightarrow> P h (p, c, r)"
  shows "emits P (fd_cwd E p self)" "emits P (fd_num E p self num flags)"
    "emits P (open_file E p self path flags mode)" "emits P (open_buffered E p self path)"
  unfolding file_open_defs using assms by (intro emits_intros; assumption)+

lemma emits_NsFd_openat [emits_intros]:
  "(\<And>h c r. inspecting c \<Longrightarrow> P h (p, c, r)) \<Longrightarrow> emits P (NsFd_openat E p t fd path)"
  unfolding NsFd_openat_def RawNsFd_openat_def by (intro emits_intros) simp

lemma emits_closing_on_error [emits_intros]:
  "emits P m \<Longrightarrow> (\<And>h c r. inspecting c \<Longrightarrow> P h (p, c, r)) \<Longrightarrow> emits P (closing_on_error E p fd m)"
  unfolding closing_on_error_def by (intro emits_intros) simp_all

lemma emits_inspections [emits_intros]:
  assumes "\<And>h c r. inspecting c \<Longrightarrow> P h (p, c, r)"
  shows "emits P (read_file E p self file)" "emits P (try_from_fd E p fd)"
    "emits P (get_status E p self)" "emits P (get_cgroups E p self)"
    "emits P (get_uid_map E p self)" "emits P (get_gid_map E p self)"
  unfolding read_file_def try_from_fd_def read_pid_def get_status_def get_cgroups_def
    get_uid_map_def get_gid_map_def get_uid_gid_map_def Let_def
  by (intro emits_intros; simp add: assms)+

section \<open>Reading the files of a process\<close>

text \<open>The three line-based files, as functions of their contents.\<close>

definition parse_status :: "bytes \<Rightarrow> (io_error, ProcStatus) res" where
  "parse_status bs = fold_lines (\<lambda>line st. bindP (status_line line st) (\<lambda>st'. Ok (Inl st'))) Ok
     default_status (raw_lines bs)"

definition parse_pid :: "bytes \<Rightarrow> (io_error, int) res" where
  "parse_pid bs = fold_lines pid_line (\<lambda>_. Err (KindErr NotFound)) () (raw_lines bs)"

definition parse_id_map :: "bytes \<Rightarrow> (io_error, IdMap) res" where
  "parse_id_map bs = fold_lines (\<lambda>line m. bindP (id_map_line line m) (\<lambda>m'. Ok (Inl m'))) Ok [] (raw_lines bs)"

text \<open>The file \<open>name\<close> of the process \<open>self\<close> can be opened in state \<open>s\<close>, and has contents \<open>bs\<close>.\<close>

definition proc_file :: "'w env \<Rightarrow> actor \<Rightarrow> PidFd \<Rightarrow> bytes \<Rightarrow> bytes \<Rightarrow> 'w mach \<Rightarrow> bool" where
  "proc_file E p self name bs s \<longleftrightarrow> (let c = Openat (pf_fd self) name O_CLOEXEC 0; fd = r_ret (answer E p c s) in
     fd \<noteq> -1 \<and> (\<exists>cs. bs = concat cs \<and> serves E p fd cs (m_world (after E p c s))))"

lemma proc_opened:
  assumes "proc_file E p self name bs s"
  obtains fd s1 cs where "open_buffered E p self name s = Some (Ok fd, s1)" and "bs = concat cs"
    and "serves E p fd cs (m_world s1)"
  using assms
  by (auto simp: proc_file_def Let_def open_buffered_def open_file_def PidFd_fd_def c_result_def bindR_def sys_eq
    owned_fd_def ret_def)

lemma proc_reader:
  assumes "proc_file E p self name bs s"
  shows "\<exists>fd s'. bindR (open_buffered E p self name) (\<lambda>reader. owning E p reader (for_lines E p reader f g a)) s
     = Some (fold_lines f g a (raw_lines bs), after E p (Close fd) s')"
proof -
  obtain fd s1 cs where "open_buffered E p self name s = Some (Ok fd, s1)" "bs = concat cs"
    and cs: "serves E p fd cs (m_world s1)" by (rule proc_opened [OF assms])
  with for_lines_fold [OF cs, of f g a] show ?thesis
    by (auto simp: bindR_def owning_def ensuring_def drop_fd_def sys_eq ret_def) blast
qed

text \<open>The control groups, as a function of the file's contents.\<close>

definition parse_cgroups :: "bytes \<Rightarrow> (error, CGroups) res" where
  "parse_cgroups bs = fold_raw (\<lambda>(line, nl) cg. bindP (cgroup_line line cg) (\<lambda>cg'. Ok (Inl cg'))) Ok CGroups_new (raw_lines bs)"

lemma get_cgroups_run:
  assumes "proc_file E p self (str ''cgroup'') bs s"
  shows "\<exists>fd s'. get_cgroups E p self s = Some (parse_cgroups bs, after E p (Close fd) s')"
proof -
  let ?f = "\<lambda>(line, nl :: bool) cg. bindP (cgroup_line line cg) (\<lambda>cg'. Ok (Inl cg'))"
  obtain fd s1 cs where opened: "open_buffered E p self (str ''cgroup'') s = Some (Ok fd, s1)" and bs: "bs = concat cs"
    and cs: "serves E p fd cs (m_world s1)" by (rule proc_opened [OF assms])
  have body: "(\<lambda>(buf, cg). bindR (map_err IoErr (next_split E p fd buf)) (\<lambda>(x, rest). case x of
           None \<Rightarrow> ret (Inr cg)
         | Some (line, nl) \<Rightarrow> bindR (of_res (cgroup_line line cg)) (\<lambda>cg'. ret (Inl (rest, cg')))))
      = raw_body E p fd IoErr ?f Ok"
    by (auto simp: raw_body_def fun_eq_iff bindR_def map_err_def of_res_def ret_def bindP_def
      split: option.splits res.splits prod.splits)
  obtain s2 where loop: "loopM (raw_body E p fd IoErr ?f Ok) ([], CGroups_new) s1 = Some (parse_cgroups bs, s2)"
    using loopM_raw [OF cs, of IoErr ?f Ok "[]" CGroups_new] bs by (auto simp: parse_cgroups_def)
  have "map_err IoErr (open_buffered E p self (str ''cgroup'')) s = Some (Ok fd, s1)"
    using opened by (simp only: map_err_Ok)
  with loop have "get_cgroups E p self s = Some (parse_cgroups bs, after E p (Close fd) s2)"
    unfolding get_cgroups_def by (subst bindR_run, intro disjI1 exI [of _ fd] exI [of _ s1]) (simp add: body owning_run)
  then show ?thesis by blast
qed

text \<open>\<^verbatim>\<open>get_status\<close> terminates on a file of any length, however the kernel cuts it into chunks,
  and returns exactly what folding the line parser over the lines of the whole file gives; the file
  is closed afterwards, also when parsing failed.\<close>

theorem get_status_parses:
  assumes "proc_file E p self (str ''status'') bs s"
  shows "\<exists>fd s'. get_status E p self s = Some (parse_status bs, after E p (Close fd) s')"
  unfolding get_status_def parse_status_def using assms by (rule proc_reader)

theorem get_status_parses_witness:
  "\<exists>fd s'. get_status script Daemon \<lparr>pf_fd = 11, pf_pid = 200\<rparr>
      (boot [returns 7, delivers (str ''Umask: 0''), delivers (str ''077''), returns 0, returns 0])
    = Some (parse_status (str ''Umask: 0077''), after script Daemon (Close fd) s')"
proof (rule get_status_parses)
  show "proc_file script Daemon \<lparr>pf_fd = 11, pf_pid = 200\<rparr> (str ''status'') (str ''Umask: 0077'')
     (boot [returns 7, delivers (str ''Umask: 0''), delivers (str ''077''), returns 0, returns 0])"
    by (simp add: proc_file_def answer_def after_def sample_defs,
        intro exI [of _ "[str ''Umask: 0'', str ''077'']"]) simp
qed

text \<open>The kernel prints an id map as three padded columns per line.\<close>

definition column :: "u64 \<Rightarrow> bytes" where
  "column n = replicate (10 - length (show_nat (unat n))) 32 @ show_nat (unat n)"

definition show_entry :: "IdMapEntry \<Rightarrow> bytes" where
  "show_entry e = column (e_ns e) @ 32 # column (e_host e) @ 32 # column (e_range e) @ [10]"

definition wf_entry :: "IdMapEntry \<Rightarrow> bool" where
  "wf_entry e \<longleftrightarrow> unat (e_ns e) < 2 ^ 32 \<and> unat (e_host e) < 2 ^ 32 \<and> unat (e_range e) < 2 ^ 32"

lemma split_entry:
  "split_ascii_whitespace (column a @ 32 # column b @ 32 # column c)
     = [show_nat (unat a), show_nat (unat b), show_nat (unat c)]"
  by (simp add: column_def split_padding split_field show_nat_plain)

lemma check_show:
  assumes "unat n < 2 ^ 32"
  shows "check_uid_gid (Some (show_nat (unat (n :: u64)))) = Ok (ucast n)"
proof -
  have "parse_u32 (show_nat (unat n)) = Some (of_nat (unat n))"
    unfolding parse_u32_def using assms by (intro from_str_show_nat) simp
  moreover have "(of_nat (unat n) :: u32) = ucast n" 
    by (rule word_unat_eq_iff [THEN iffD2]) (simp add: unat_of_nat unsigned_ucast_eq take_bit_eq_mod)
  ultimately show ?thesis by (simp add: check_uid_gid_def)
qed

lemma ucast_back: "unat (n :: u64) < 2 ^ 32 \<Longrightarrow> (ucast (ucast n :: u32) :: u64) = n"
  by (rule word_unat_eq_iff [THEN iffD2]) (simp add: unsigned_ucast_eq take_bit_eq_mod unat_mod)

lemma id_map_line_show:
  assumes "wf_entry e"
  shows "id_map_line (column (e_ns e) @ 32 # column (e_host e) @ 32 # column (e_range e)) m = Ok (m @ [e])"
  using assms
  by (cases e) (simp add: id_map_line_def Let_def split_entry nth_opt_def check_show ucast_back wf_entry_def numeral_2_eq_2)

lemma column_plain: "list_all (\<lambda>b. b < 0x80) (column n)" "10 \<notin> set (column n)" "13 \<notin> set (column n)"
  using show_nat_plain [of "unat n"] by (auto simp: column_def list_all_iff)

lemma raw_lines_show_entry:
  "raw_lines (show_entry e @ bs) = (column (e_ns e) @ 32 # column (e_host e) @ 32 # column (e_range e), True) # raw_lines bs"
proof -
  let ?l = "column (e_ns e) @ 32 # column (e_host e) @ 32 # column (e_range e)"
  have "10 \<notin> set ?l" by (simp add: column_plain)
  from raw_lines_line [OF this, of bs] show ?thesis by (simp add: show_entry_def)
qed

lemma fold_show_entries:
  assumes "list_all wf_entry m"
  shows "fold_lines (\<lambda>line m. bindP (id_map_line line m) (\<lambda>m'. Ok (Inl m'))) Ok acc
     (raw_lines (concat (map show_entry m))) = Ok (acc @ m)"
  using assms
proof (induction m arbitrary: acc)
  case Nil
  then show ?case by (simp add: raw_lines.simps split_newline_def)
next
  case (Cons e m)
  let ?l = "column (e_ns e) @ 32 # column (e_host e) @ 32 # column (e_range e)"
  have "utf8_valid ?l" by (rule utf8_valid_ascii) (simp add: column_plain)
  moreover have "13 \<notin> set ?l" by (simp add: column_plain)
  then have "last ?l \<noteq> 13" using last_in_set [of ?l] by auto
  ultimately have "clean_line (?l, True) = Ok ?l" by (simp only: clean_line_def prod.case if_True simp_thms if_False)
  with Cons show ?case by (simp add: raw_lines_show_entry id_map_line_show)
qed

lemma id_map_file_read:
  assumes "list_all wf_entry m" and "proc_file E p self file (concat (map show_entry m)) s"
  shows "\<exists>fd s'. get_uid_gid_map E p self file s = Some (Ok m, after E p (Close fd) s')"
proof -
  let ?f = "\<lambda>line m. bindP (id_map_line line m) (\<lambda>m'. Ok (Inl m'))"
  from proc_reader [OF assms(2), of ?f Ok "[]"] fold_show_entries [OF assms(1), of "[]"]
  obtain fd s' where "bindR (open_buffered E p self file)
      (\<lambda>reader. owning E p reader (for_lines E p reader ?f Ok [])) s = Some (Ok m, after E p (Close fd) s')"
    by auto
  then have "get_uid_gid_map E p self file s = Some (Ok m, after E p (Close fd) s')"
    by (auto simp: get_uid_gid_map_def bindR_Ok map_err_Ok owning_run)
  then show ?thesis by blast
qed

text \<open>C29: Reading a map back: when \<^verbatim>\<open>uid_map\<close> or \<^verbatim>\<open>gid_map\<close> holds a map as the kernel prints
  it, \<^verbatim>\<open>get_uid_gid_map\<close> returns exactly that map, whatever the number of entries.\<close>

theorem id_map_file_roundtrip:
  assumes "list_all wf_entry m" and "proc_file E p self file (concat (map show_entry m)) s"
  shows "\<exists>fd s'. get_uid_gid_map E p self file s = Some (Ok m, after E p (Close fd) s')"
  using assms by (rule id_map_file_read)

theorem id_map_file_roundtrip_witness:
  "\<exists>fd s'. get_uid_gid_map script Daemon \<lparr>pf_fd = 11, pf_pid = 200\<rparr> (str ''uid_map'')
      (boot [returns 7, delivers (show_entry \<lparr>e_ns = 0, e_host = 100000, e_range = 65536\<rparr>), returns 0, returns 0])
    = Some (Ok [\<lparr>e_ns = 0, e_host = 100000, e_range = 65536\<rparr>], after script Daemon (Close fd) s')"
proof (rule id_map_file_roundtrip)
  let ?e = "\<lparr>e_ns = 0, e_host = 100000, e_range = 65536\<rparr> :: IdMapEntry"
  show "list_all wf_entry [?e]" by (simp add: wf_entry_def)
  have len: "show_entry ?e \<noteq> []" "length (show_entry ?e) \<le> 8192"
    by (simp_all add: show_entry_def column_def show_nat.simps)
  then show "proc_file script Daemon \<lparr>pf_fd = 11, pf_pid = 200\<rparr> (str ''uid_map'') (concat (map show_entry [?e]))
     (boot [returns 7, delivers (show_entry ?e), returns 0, returns 0])"
    by (simp add: proc_file_def answer_def after_def sample_defs, intro exI [of _ "[show_entry ?e]"]) simp
qed

section \<open>Translating ids\<close>

text \<open>An id in the range of an entry, in unbounded arithmetic; the entries of a map that the kernel
  accepts do not overlap on either side.\<close>

definition in_ns :: "IdMapEntry \<Rightarrow> u64 \<Rightarrow> bool" where
  "in_ns e i \<longleftrightarrow> unat (e_ns e) \<le> unat i \<and> unat i < unat (e_ns e) + unat (e_range e)"

definition in_host :: "IdMapEntry \<Rightarrow> u64 \<Rightarrow> bool" where
  "in_host e i \<longleftrightarrow> unat (e_host e) \<le> unat i \<and> unat i < unat (e_host e) + unat (e_range e)"

definition apart :: "u64 \<Rightarrow> u64 \<Rightarrow> u64 \<Rightarrow> u64 \<Rightarrow> bool" where
  "apart a r a' r' \<longleftrightarrow> unat a + unat r \<le> unat a' \<or> unat a' + unat r' \<le> unat a"

definition wf_map :: "IdMap \<Rightarrow> bool" where
  "wf_map m \<longleftrightarrow> list_all wf_entry m \<and> list_all (\<lambda>e. list_all (\<lambda>e'. e = e'
     \<or> (apart (e_ns e) (e_range e) (e_ns e') (e_range e')
        \<and> apart (e_host e) (e_range e) (e_host e') (e_range e'))) m) m"

text \<open>Both directions are the same function, with the columns exchanged.\<close>

definition flip_entry :: "IdMapEntry \<Rightarrow> IdMapEntry" where
  "flip_entry e = \<lparr>e_ns = e_host e, e_host = e_ns e, e_range = e_range e\<rparr>"

lemma map_into_flip: "map_into m i = map_from (map flip_entry m) i"
  by (induction m) (simp_all add: flip_entry_def)

lemma flip_flip [simp]: "flip_entry (flip_entry e) = e"
  by (simp add: flip_entry_def)

lemma flip_flip_map [simp]: "map flip_entry (map flip_entry m) = m"
  by (induction m) simp_all

lemma wf_map_flip [simp]: "wf_map (map flip_entry m) \<longleftrightarrow> wf_map m"
proof -
  have "flip_entry e = flip_entry e' \<longleftrightarrow> e = e'" for e e' by (metis flip_flip)
  moreover have "wf_entry (flip_entry e) \<longleftrightarrow> wf_entry e" for e by (auto simp: wf_entry_def flip_entry_def)
  ultimately show ?thesis
    by (auto simp: wf_map_def list_all_iff) (auto simp: flip_entry_def)
qed

lemma no_wrap:
  fixes a b r i :: u64
  assumes "unat a < 2 ^ 32" and "unat b < 2 ^ 32" and "unat r < 2 ^ 32"
  shows "(a \<le> i \<and> a + r > i) \<longleftrightarrow> unat a \<le> unat i \<and> unat i < unat a + unat r"
    and "unat a \<le> unat i \<Longrightarrow> unat i < unat a + unat r \<Longrightarrow> unat (b + i - a) = unat b + (unat i - unat a)"
proof -
  have sum: "unat (a + r) = unat a + unat r"
    using assms by (simp add: unat_word_ariths)
  then show "(a \<le> i \<and> a + r > i) \<longleftrightarrow> unat a \<le> unat i \<and> unat i < unat a + unat r"
    by (simp add: word_le_nat_alt word_less_nat_alt)
  assume i: "unat a \<le> unat i" "unat i < unat a + unat r"
  then have "unat (b + i) = unat b + unat i"
    using assms by (simp add: unat_word_ariths)
  moreover from this i have "a \<le> b + i" by (simp add: word_le_nat_alt)
  ultimately show "unat (b + i - a) = unat b + (unat i - unat a)"
    using i by (simp add: unat_sub)
qed

lemma in_ns_code: "wf_entry e \<Longrightarrow> (e_ns e \<le> i \<and> e_ns e + e_range e > i) \<longleftrightarrow> in_ns e i"
  unfolding wf_entry_def in_ns_def by (elim conjE) (rule no_wrap(1))

lemma map_from_find:
  assumes "list_all wf_entry m"
  shows "map_from m i = map_option (\<lambda>e. e_host e + i - e_ns e) (find (\<lambda>e. in_ns e i) m)"
  using assms
proof (induction m)
  case (Cons e m)
  then show ?case using in_ns_code [of e i] by (cases "in_ns e i") (simp_all, blast?)
qed simp

lemma shift_entry:
  assumes "wf_entry e" and "in_ns e i"
  shows "in_host e (e_host e + i - e_ns e)" and "e_ns e + (e_host e + i - e_ns e) - e_host e = i"
    and "unat (e_host e + i - e_ns e) = unat (e_host e) + (unat i - unat (e_ns e))"
proof -
  show *: "unat (e_host e + i - e_ns e) = unat (e_host e) + (unat i - unat (e_ns e))"
    using assms unfolding wf_entry_def in_ns_def by (elim conjE) (rule no_wrap(2))
  then show "in_host e (e_host e + i - e_ns e)"
    using assms(2) by (auto simp: in_host_def in_ns_def)
qed simp

lemma in_host_unique:
  assumes "wf_map m" and "e \<in> set m" and "e' \<in> set m" and "in_host e j" and "in_host e' j"
  shows "e = e'"
  using assms by (auto simp: wf_map_def list_all_iff apart_def in_host_def) fastforce

lemma map_from_into:
  assumes wf: "wf_map m" and img: "map_from m i = Some j"
  shows "map_into m j = Some i"
proof -
  from wf have entries: "list_all wf_entry m" by (simp add: wf_map_def)
  from img obtain e where e: "find (\<lambda>e. in_ns e i) m = Some e" and j: "j = e_host e + i - e_ns e"
    by (auto simp: map_from_find [OF entries])
  from e have "e \<in> set m" "in_ns e i" by (auto simp: find_Some_iff)
  with entries have "wf_entry e" by (simp add: list_all_iff)
  note shift = shift_entry [OF this \<open>in_ns e i\<close>]
  have in_flip: "in_ns (flip_entry d) j \<longleftrightarrow> in_host d j" for d
    by (simp add: in_ns_def in_host_def flip_entry_def)
  have "list_all wf_entry (map flip_entry m)"
    using wf by (metis wf_map_def wf_map_flip)
  moreover have "find (\<lambda>d. in_ns d j) (map flip_entry m) = Some (flip_entry e)"
  proof -
    have "d = e" if "d \<in> set m" "in_host d j" for d
      using in_host_unique [OF wf that(1) \<open>e \<in> set m\<close> that(2)] shift(1) j by simp
    moreover have "\<exists>d\<in>set m. in_host d j" using \<open>e \<in> set m\<close> shift(1) j by auto
    ultimately show ?thesis
    proof (induction m)
      case (Cons d m)
      then show ?case by (cases "in_host d j") (auto simp: in_flip)
    qed simp
  qed
  ultimately show ?thesis
    using shift(2) j by (simp add: map_into_flip map_from_find flip_entry_def)
qed

text \<open>The interface the quota handlers rely on: translation out of and into the namespace, inverse
  to each other on the maps the kernel produces.\<close>

locale id_translation =
  fixes out into :: "IdMap \<Rightarrow> u64 \<Rightarrow> u64 option"
  assumes inverse: "wf_map m \<Longrightarrow> out m i = Some j \<Longrightarrow> into m j = Some i"
begin

lemma injective:
  assumes "wf_map m" and "out m i = Some k" and "out m j = Some k"
  shows "i = j"
  using inverse [OF assms(1,2)] inverse [OF assms(1,3)] by simp

end

interpretation from_ns: id_translation map_from map_into
  by unfold_locales (rule map_from_into)

interpretation into_ns: id_translation map_into map_from
proof
  fix m i j
  assume "wf_map m" and "map_into m i = Some j"
  then have "map_into (map flip_entry m) j = Some i"
    by (intro map_from_into) (simp_all add: map_into_flip)
  then show "map_from m j = Some i" by (simp only: map_into_flip flip_flip_map)
qed

text \<open>C27: Translating ids is exact although the code computes with wrapping 64-bit words: on a map
  as the kernel prints it, \<^verbatim>\<open>map_from\<close> uses the first entry whose range contains the id in unbounded
  arithmetic and shifts the id by that entry's offset.\<close>

theorem map_from_exact:
  assumes "list_all wf_entry m"
  shows "case find (\<lambda>e. in_ns e i) m of
      None \<Rightarrow> map_from m i = None
    | Some e \<Rightarrow> \<exists>j. map_from m i = Some j \<and> unat j = unat (e_host e) + (unat i - unat (e_ns e))"
proof (cases "find (\<lambda>e. in_ns e i) m")
  case None
  then show ?thesis by (simp add: map_from_find [OF assms])
next
  case (Some e)
  then have "e \<in> set m" "in_ns e i" by (auto simp: find_Some_iff)
  with assms have "wf_entry e" by (simp add: list_all_iff)
  with Some shift_entry(3) [of e i] \<open>in_ns e i\<close> show ?thesis by (simp add: map_from_find [OF assms])
qed

theorem map_from_exact_witness:
  "\<exists>j. map_from [\<lparr>e_ns = 0, e_host = 100000, e_range = 65536\<rparr>] 1000 = Some j \<and> unat j = 101000"
  using map_from_exact [of "[\<lparr>e_ns = 0, e_host = 100000, e_range = 65536\<rparr>]" 1000]
  by (simp add: wf_entry_def in_ns_def)

text \<open>C28: The two directions of an id map are inverse, and no two ids are mapped to the same id,
  on the maps the kernel accepts (entries that do not overlap on either side).\<close>

theorem id_map_bijective:
  assumes "wf_map m"
  shows "map_from m i = Some j \<longleftrightarrow> map_into m j = Some i"
  using assms from_ns.inverse into_ns.inverse by blast

theorem id_map_bijective_witness:
  "map_from [\<lparr>e_ns = 0, e_host = 100000, e_range = 1000\<rparr>, \<lparr>e_ns = 1000, e_host = 1000, e_range = 1\<rparr>] 1000 = Some 1000
   \<longleftrightarrow> map_into [\<lparr>e_ns = 0, e_host = 100000, e_range = 1000\<rparr>, \<lparr>e_ns = 1000, e_host = 1000, e_range = 1\<rparr>] 1000 = Some 1000"
  by (rule id_map_bijective) (simp add: wf_map_def wf_entry_def apart_def)

end
