(* ===== verification/Syscall.thy ===== *)
theory Syscall
  imports Runtime
begin

text \<open>
  \<^verbatim>\<open>src/syscall.rs\<close>: the result of an emulated system call and the table that identifies the
  system calls the daemon handles by architecture and number.
\<close>

datatype SyscallStatus = StatusOk i64 | StatusErr i32

datatype Syscall = Mknod | MknodAt | Quotactl

record SyscallArch =
  sc_arch :: u32
  sc_mknod :: i32
  sc_mknodat :: i32
  sc_quotactl :: i32

abbreviation (input) AUDIT_ARCH_X86_64 :: u32 where "AUDIT_ARCH_X86_64 \<equiv> 0xc000003e"
abbreviation (input) AUDIT_ARCH_I386 :: u32 where "AUDIT_ARCH_I386 \<equiv> 0x40000003"

definition SYSCALL_TABLE :: "SyscallArch list" where
  "SYSCALL_TABLE =
     [\<lparr>sc_arch = AUDIT_ARCH_X86_64, sc_mknod = 133, sc_mknodat = 259, sc_quotactl = 179\<rparr>,
      \<lparr>sc_arch = AUDIT_ARCH_I386, sc_mknod = 14, sc_mknodat = 297, sc_quotactl = 131\<rparr>]"

fun translate_in :: "SyscallArch list \<Rightarrow> u32 \<Rightarrow> i32 \<Rightarrow> Syscall option" where
  "translate_in [] arch nr = None"
| "translate_in (sc # table) arch nr =
     (if sc_arch sc = arch then
        (if nr = sc_mknod sc then Some Mknod
         else if nr = sc_mknodat sc then Some MknodAt
         else if nr = sc_quotactl sc then Some Syscall.Quotactl
         else translate_in table arch nr)
      else translate_in table arch nr)"

definition translate_syscall :: "u32 \<Rightarrow> i32 \<Rightarrow> Syscall option" where
  "translate_syscall arch nr = (if nr = -1 then None else translate_in SYSCALL_TABLE arch nr)"

text \<open>The macro \<^verbatim>\<open>sc_libc_try!\<close>: a failed call ends the handler with its error number.\<close>

definition sc_libc_try :: "'w env \<Rightarrow> actor \<Rightarrow> call \<Rightarrow> (resp \<Rightarrow> ('w, 'e, SyscallStatus) io)
     \<Rightarrow> ('w, 'e, SyscallStatus) io" where
  "sc_libc_try E p c k = bindR (sys E p c) (\<lambda>r.
     if r_ret r = -1 then ret (StatusErr (r_errno r)) else k r)"

lemma emits_sc_libc_try [emits_intros]:
  "(\<And>h r. P h (p, c, r)) \<Longrightarrow> (\<And>r. emits P (k r)) \<Longrightarrow> emits P (sc_libc_try E p c k)"
  unfolding sc_libc_try_def by (intro emits_intros)

section \<open>Properties\<close>


end
