(* ===== verification/Lxcseccomp.thy ===== *)
theory Lxcseccomp
  imports Seccomp Process Syscall
begin

text \<open>
  \<^verbatim>\<open>src/lxcseccomp.rs\<close> (and \<^verbatim>\<open>get_c_string\<close> of \<^verbatim>\<open>src/syscall.rs\<close>): the message
  the lxc monitor sends for an intercepted system call, its validation, access to the call's
  arguments and to the caller's memory, and the response. The buffer is kept as the code keeps
  it: the structures are overwritten in place by \<^verbatim>\<open>recvmsg\<close>, and the cookie is a vector
  whose length is set separately from its memory.
\<close>

section \<open>The proxy message\<close>

record SeccompNotifyProxyMsg =
  x_reserved0 :: u64
  x_monitor_pid :: i32
  x_init_pid :: i32
  x_sizes :: SeccompNotifSizes
  x_padding :: u16 \<comment> \<open>between \<open>sizes\<close> and the 8-byte aligned \<open>cookie_len\<close>\<close>
  x_cookie_len :: u64

definition sizeof_SeccompNotifyProxyMsg :: nat where "sizeof_SeccompNotifyProxyMsg = 32"

definition enc_SeccompNotifyProxyMsg :: "SeccompNotifyProxyMsg \<Rightarrow> bytes" where
  "enc_SeccompNotifyProxyMsg m = le_bytes 8 (x_reserved0 m) @ le_bytes 4 (x_monitor_pid m)
     @ le_bytes 4 (x_init_pid m) @ enc_SeccompNotifSizes (x_sizes m) @ le_bytes 2 (x_padding m)
     @ le_bytes 8 (x_cookie_len m)"

definition dec_SeccompNotifyProxyMsg :: "bytes \<Rightarrow> SeccompNotifyProxyMsg" where
  "dec_SeccompNotifyProxyMsg bs = \<lparr>x_reserved0 = le_word (chunk 0 8 bs),
     x_monitor_pid = le_word (chunk 8 4 bs), x_init_pid = le_word (chunk 12 4 bs),
     x_sizes = dec_SeccompNotifSizes (chunk 16 6 bs), x_padding = le_word (chunk 22 2 bs),
     x_cookie_len = le_word (chunk 24 8 bs)\<rparr>"

interpretation SeccompNotifyProxyMsg_codec:
  fixed_codec enc_SeccompNotifyProxyMsg dec_SeccompNotifyProxyMsg sizeof_SeccompNotifyProxyMsg "\<lambda>_. True"
proof unfold_locales
  fix m :: SeccompNotifyProxyMsg
  have len: "length (enc_SeccompNotifSizes (x_sizes m)) = 6"
    using SeccompNotifSizes_codec.length_enc by (simp add: sizeof_seccomp)
  then show "length (enc_SeccompNotifyProxyMsg m) = sizeof_SeccompNotifyProxyMsg"
    by (simp add: enc_SeccompNotifyProxyMsg_def sizeof_SeccompNotifyProxyMsg_def)
  show "dec_SeccompNotifyProxyMsg (enc_SeccompNotifyProxyMsg m) = m"
    using len SeccompNotifSizes_codec.dec_enc
    by (cases m) (simp add: dec_SeccompNotifyProxyMsg_def enc_SeccompNotifyProxyMsg_def chunk_def)
next
  fix bs :: bytes
  assume len: "length bs = sizeof_SeccompNotifyProxyMsg"
  then have "length (chunk 16 6 bs) = sizeof_SeccompNotifSizes"
    by (simp add: sizeof_seccomp sizeof_SeccompNotifyProxyMsg_def chunk_def)
  then show "enc_SeccompNotifyProxyMsg (dec_SeccompNotifyProxyMsg bs) = bs"
    using len SeccompNotifSizes_codec.enc_dec
    by (simp add: enc_SeccompNotifyProxyMsg_def dec_SeccompNotifyProxyMsg_def byte_simps
      sizeof_SeccompNotifyProxyMsg_def)
qed simp

section \<open>The message buffer\<close>

record ProxyMessageBuffer =
  b_proxy_msg :: SeccompNotifyProxyMsg
  b_seccomp_notif :: SeccompNotif
  b_seccomp_resp :: SeccompNotifResp
  b_cookie_mem :: bytes     \<comment> \<open>the vector's allocation; its length is the capacity\<close>
  b_cookie_len :: nat       \<comment> \<open>the vector's length\<close>
  b_sizes :: SeccompNotifSizes
  b_seccomp_packet_size :: u64
  b_pid_fd :: "PidFd option"
  b_mem_fd :: "int option"

text \<open>\<^verbatim>\<open>SECCOMP_SIZES\<close>: evaluated once; a failed check panics and poisons it.\<close>

definition SECCOMP_SIZES :: "'w env \<Rightarrow> actor \<Rightarrow> ('w, 'e, SeccompNotifSizes) io" where
  "SECCOMP_SIZES E p = (\<lambda>s. case m_sizes s of
       StaticInit (a, b, c) \<Rightarrow> Some (Ok \<lparr>z_notif = a, z_notif_resp = b, z_data = c\<rparr>, s)
     | StaticPoisoned \<Rightarrow> Some (Panic, s)
     | StaticUninit \<Rightarrow> (case SeccompNotifSizes_get_checked E p s of None \<Rightarrow> None
         | Some (r, s') \<Rightarrow> (case r of
              Ok z \<Rightarrow> Some (Ok z, s'\<lparr>m_sizes := StaticInit (z_notif z, z_notif_resp z, z_data z)\<rparr>)
            | _ \<Rightarrow> Some (Panic, s'\<lparr>m_sizes := StaticPoisoned\<rparr>))))"

definition ProxyMessageBuffer_new :: "'w env \<Rightarrow> actor \<Rightarrow> nat \<Rightarrow> ('w, 'e, ProxyMessageBuffer) io" where
  "ProxyMessageBuffer_new E p max_cookie =
     bindR (SECCOMP_SIZES E p) (\<lambda>sizes.
     bindR (vec_uninitialized E p max_cookie) (\<lambda>cookie.
     ret \<lparr>b_proxy_msg = dec_SeccompNotifyProxyMsg (replicate sizeof_SeccompNotifyProxyMsg 0),
          b_seccomp_notif = dec_SeccompNotif (replicate sizeof_SeccompNotif 0),
          b_seccomp_resp = dec_SeccompNotifResp (replicate sizeof_SeccompNotifResp 0),
          b_cookie_mem = cookie, b_cookie_len = max_cookie, b_sizes = sizes,
          b_seccomp_packet_size = of_nat sizeof_SeccompNotifyProxyMsg
            + ucast (z_notif sizes) + ucast (z_notif_resp sizes),
          b_pid_fd = None, b_mem_fd = None\<rparr>))"

definition drop_opt :: "'w env \<Rightarrow> actor \<Rightarrow> int option \<Rightarrow> ('w, 'e, unit) io" where
  "drop_opt E p x = (case x of None \<Rightarrow> ret () | Some fd \<Rightarrow> drop_fd E p fd)"

definition reset :: "'w env \<Rightarrow> actor \<Rightarrow> ProxyMessageBuffer \<Rightarrow> ('w, error, ProxyMessageBuffer) io" where
  "reset E p self =
     (let self = self\<lparr>b_proxy_msg := (b_proxy_msg self)\<lparr>x_cookie_len := 0\<rparr>\<rparr> in
      bindR (drop_opt E p (b_mem_fd self)) (\<lambda>_.
      bindR (drop_opt E p (map_option pf_fd (b_pid_fd self))) (\<lambda>_.
      ret (self\<lparr>b_mem_fd := None, b_pid_fd := None\<rparr>))))"

definition check_sizes :: "ProxyMessageBuffer \<Rightarrow> bool" where
  "check_sizes self =
     (let got = x_sizes (b_proxy_msg self) in
      z_notif got = z_notif (b_sizes self) \<and> z_notif_resp got = z_notif_resp (b_sizes self)
      \<and> z_data got = z_data (b_sizes self))"

definition prepare_response :: "ProxyMessageBuffer \<Rightarrow> ProxyMessageBuffer" where
  "prepare_response self = self\<lparr>b_seccomp_resp :=
     \<lparr>p_id = n_id (b_seccomp_notif self), p_val = -1, p_error = - ENOSYS, p_flags = 0\<rparr>\<rparr>"

text \<open>\<^verbatim>\<open>set_len\<close>: \<^verbatim>\<open>usize::try_from\<close> of a \<^verbatim>\<open>u64\<close> cannot fail on a 64-bit target;
  the sum is \<^verbatim>\<open>usize\<close> arithmetic and wraps.\<close>

definition set_len :: "ProxyMessageBuffer \<Rightarrow> u64 \<Rightarrow> (error, ProxyMessageBuffer) res" where
  "set_len self len =
     (if len < b_seccomp_packet_size self then Err (AnyErr ''seccomp proxy message too short'')
      else if x_reserved0 (b_proxy_msg self) \<noteq> 0 then Err (AnyErr ''reserved data wasn't 0'')
      else if \<not> check_sizes self then Err (AnyErr ''size validation failed'')
      else if unat (len - b_seccomp_packet_size self) > length (b_cookie_mem self)
        then Err (AnyErr ''seccomp proxy message too long'')
      else let cookie_len = x_cookie_len (b_proxy_msg self) in
        if len \<noteq> b_seccomp_packet_size self + cookie_len
        then Err (AnyErr ''unexpected cookie length'')
        else Ok (prepare_response (self\<lparr>b_cookie_len := unat cookie_len\<rparr>)))"

definition chunks_exact :: "nat \<Rightarrow> bytes \<Rightarrow> bytes list" where
  "chunks_exact n bs = map (\<lambda>i. chunk (n * i) n bs) [0..<length bs div n]"

text \<open>\<^verbatim>\<open>from_raw_fd\<close> on every chunk, collected into a vector, which a panic drops.\<close>

fun owned_fds :: "'w env \<Rightarrow> actor \<Rightarrow> int list \<Rightarrow> int list \<Rightarrow> ('w, 'e, int list) io" where
  "owned_fds E p vec [] = ret vec"
| "owned_fds E p vec (fd # fds) =
     (if fd = -1 then bindR (drop_fds E p vec) (\<lambda>_. panic) else owned_fds E p (vec @ [fd]) fds)"

abbreviation (input) SOL_SOCKET :: i32 where "SOL_SOCKET \<equiv> 1"
abbreviation (input) SCM_RIGHTS :: i32 where "SCM_RIGHTS \<equiv> 1"

text \<open>The buffer after \<^verbatim>\<open>recvmsg\<close> stored into its structures.\<close>

definition store_iov :: "ProxyMessageBuffer \<Rightarrow> bytes list \<Rightarrow> ProxyMessageBuffer" where
  "store_iov self iov = self\<lparr>b_proxy_msg := dec_SeccompNotifyProxyMsg (iov ! 0),
     b_seccomp_notif := dec_SeccompNotif (iov ! 1), b_seccomp_resp := dec_SeccompNotifResp (iov ! 2),
     b_cookie_mem := iov ! 3\<rparr>"

definition msg_iov :: "ProxyMessageBuffer \<Rightarrow> bytes list" where
  "msg_iov self = [enc_SeccompNotifyProxyMsg (b_proxy_msg self), enc_SeccompNotif (b_seccomp_notif self),
     enc_SeccompNotifResp (b_seccomp_resp self)]"

text \<open>The descriptors of the control message: a \<^verbatim>\<open>pidfd\<close> and a \<^verbatim>\<open>memfd\<close>.\<close>

definition recv_fds :: "'w env \<Rightarrow> actor \<Rightarrow> ControlMessageRef \<Rightarrow> ('w, error, PidFd \<times> int) io" where
  "recv_fds E p cmsg =
     (if cmsg_level cmsg \<noteq> SOL_SOCKET \<and> cmsg_type cmsg \<noteq> SCM_RIGHTS
      then raise (AnyErr ''expected SCM_RIGHTS control message'')
      else
        bindR (owned_fds E p [] (map (\<lambda>c. sint (le_word c :: i32)) (chunks_exact 4 (cmsg_data cmsg)))) (\<lambda>fds.
        if length fds \<noteq> 2 then bindR (drop_fds E p fds) (\<lambda>_.
          raise (AnyErr ''expected exactly 2 file descriptors in control message''))
        else
          bindR (closing_on_error E p (fds ! 1) (map_err IoErr (try_from_fd E p (fds ! 0)))) (\<lambda>pid_fd.
          ret (pid_fd, fds ! 1))))"

text \<open>The part of \<^verbatim>\<open>recv\<close> after the message is in the buffers.\<close>

definition recv_message ::
  "'w env \<Rightarrow> actor \<Rightarrow> ProxyMessageBuffer \<Rightarrow> int \<Rightarrow> nat \<Rightarrow> bytes \<Rightarrow> ('w, error, bool \<times> ProxyMessageBuffer) io" where
  "recv_message E p self datalen cmsglen fd_cmsg_buf =
     (if datalen = 0 then ret (False, self)
      else
        bindR (of_res (set_len self (word_of_int datalen))) (\<lambda>self.
        if length fd_cmsg_buf < cmsglen then panic
        else
          bindR (of_res (cmsg_next (take cmsglen fd_cmsg_buf))) (\<lambda>(item, rest).
          bindR (ok_or (AnyErr ''missing file descriptors in message'') item) (\<lambda>cmsg.
          bindR (recv_fds E p cmsg) (\<lambda>(pid_fd, mem_fd).
          ret (True, self\<lparr>b_pid_fd := Some pid_fd, b_mem_fd := Some mem_fd\<rparr>))))))"

definition recv :: "'w env \<Rightarrow> actor \<Rightarrow> ProxyMessageBuffer \<Rightarrow> int \<Rightarrow> ('w, error, bool \<times> ProxyMessageBuffer) io" where
  "recv E p self socket =
     bindR (reset E p self) (\<lambda>self.
     bindR (cmsg_buffer E p 8) (\<lambda>fd_cmsg_buf.
     bindR (map_err IoErr (recvmsg_vectored E p socket (msg_iov self @ [b_cookie_mem self]) fd_cmsg_buf))
       (\<lambda>(datalen, cmsglen, iov, fd_cmsg_buf).
     recv_message E p ((store_iov self iov)\<lparr>b_cookie_len := 0\<rparr>) datalen cmsglen fd_cmsg_buf)))"

definition msg_pid_fd :: "ProxyMessageBuffer \<Rightarrow> ('w, 'e, PidFd) io" where
  "msg_pid_fd self = unwrap (b_pid_fd self)"

definition msg_mem_fd :: "ProxyMessageBuffer \<Rightarrow> ('w, 'e, int) io" where
  "msg_mem_fd self = unwrap (b_mem_fd self)"

definition respond :: "'w env \<Rightarrow> actor \<Rightarrow> ProxyMessageBuffer \<Rightarrow> int \<Rightarrow> ('w, io_error, unit) io" where
  "respond E p self socket =
     (let iov = msg_iov self; len = sum_list (map length iov) in
      bindR (sendmsg_vectored E p socket iov) (\<lambda>sent.
      if sent \<noteq> int len then raise io_format_err else ret ()))"

definition cookie :: "ProxyMessageBuffer \<Rightarrow> bytes" where
  "cookie self = take (b_cookie_len self) (b_cookie_mem self)"

text \<open>Accessors of the current message; \<^verbatim>\<open>cookie_len\<close> converts to \<^verbatim>\<open>usize\<close>.\<close>

definition monitor_pid :: "ProxyMessageBuffer \<Rightarrow> i32" where
  "monitor_pid self = x_monitor_pid (b_proxy_msg self)"

definition init_pid :: "ProxyMessageBuffer \<Rightarrow> i32" where
  "init_pid self = x_init_pid (b_proxy_msg self)"

definition cookie_len :: "ProxyMessageBuffer \<Rightarrow> nat" where
  "cookie_len self = unat (x_cookie_len (b_proxy_msg self))"

section \<open>Arguments\<close>

definition arg :: "ProxyMessageBuffer \<Rightarrow> nat \<Rightarrow> (error, u64) res" where
  "arg self i = (case nth_opt (d_args (n_data (b_seccomp_notif self))) i of
     None \<Rightarrow> Err (NixErr ERANGE) | Some v \<Rightarrow> Ok v)"

definition strnlen :: "bytes \<Rightarrow> nat \<Rightarrow> nat" where
  "strnlen data n = length (takeWhile (\<lambda>b. b \<noteq> 0) (take n data))"

definition get_c_string :: "'w env \<Rightarrow> actor \<Rightarrow> ProxyMessageBuffer \<Rightarrow> u64 \<Rightarrow> ('w, error, bytes) io" where
  "get_c_string E p msg offset =
     bindR (vec_uninitialized E p 4096) (\<lambda>data.
     bindR (msg_mem_fd msg) (\<lambda>mem_fd.
     bindR (map_err IoErr (c_result E p (Pread mem_fd 4096 offset))) (\<lambda>r.
     let data = fill data (r_data r); got = nat (r_ret r); len = strnlen data got in
     if len \<ge> got then raise (NixErr EINVAL)
     else unwrap (if 0 \<in> set (take len data) then None else Some (take len data)))))"

definition arg_opt_c_string :: "'w env \<Rightarrow> actor \<Rightarrow> ProxyMessageBuffer \<Rightarrow> nat \<Rightarrow> ('w, error, bytes option) io" where
  "arg_opt_c_string E p self i =
     bindR (of_res (arg self i)) (\<lambda>offset.
     if offset = 0 then ret None
     else bindR (get_c_string E p self offset) (\<lambda>s. ret (Some s)))"

definition arg_c_string :: "'w env \<Rightarrow> actor \<Rightarrow> ProxyMessageBuffer \<Rightarrow> nat \<Rightarrow> ('w, error, bytes) io" where
  "arg_c_string E p self i =
     bindR (arg_opt_c_string E p self i) (\<lambda>s. ok_or (NixErr EINVAL) s)"

text \<open>Structures of the caller's memory, as their memory images of \<open>n\<close> bytes.\<close>

definition arg_struct_by_ptr :: "'w env \<Rightarrow> actor \<Rightarrow> ProxyMessageBuffer \<Rightarrow> nat \<Rightarrow> nat \<Rightarrow> ('w, error, bytes) io" where
  "arg_struct_by_ptr E p self i n =
     bindR (of_res (arg self i)) (\<lambda>offset.
     bindR (msg_mem_fd self) (\<lambda>mem_fd.
     bindR (map_err IoErr (c_result E p (Pread mem_fd n offset))) (\<lambda>r.
     if r_ret r \<noteq> int n then raise (NixErr EINVAL)
     else ret (fill (replicate n 0) (r_data r)))))"

definition mem_write_struct :: "'w env \<Rightarrow> actor \<Rightarrow> ProxyMessageBuffer \<Rightarrow> u64 \<Rightarrow> bytes \<Rightarrow> ('w, io_error, unit) io" where
  "mem_write_struct E p self offset data =
     bindR (msg_mem_fd self) (\<lambda>mem_fd.
     bindR (c_result E p (Pwrite mem_fd data offset)) (\<lambda>r.
     if r_ret r \<noteq> int (length data) then raise (OsErr EINVAL) else ret ()))"

definition arg_mode_t :: "ProxyMessageBuffer \<Rightarrow> nat \<Rightarrow> (error, u32) res" where
  "arg_mode_t self i = bindP (arg self i) (\<lambda>v. if unat v < 2 ^ 32 then Ok (ucast v) else Err (NixErr EINVAL))"

definition arg_dev_t :: "ProxyMessageBuffer \<Rightarrow> nat \<Rightarrow> (error, u64) res" where
  "arg_dev_t self i = arg self i"

definition arg_fd :: "'w env \<Rightarrow> actor \<Rightarrow> ProxyMessageBuffer \<Rightarrow> nat \<Rightarrow> int \<Rightarrow> ('w, error, int) io" where
  "arg_fd E p self i flags =
     bindR (of_res (arg self i)) (\<lambda>v.
     let fd = sint (ucast v :: i32) in
     if fd = AT_FDCWD then bindR (msg_pid_fd self) (\<lambda>pf. map_err IoErr (fd_cwd E p pf))
     else if fd < 0 then owned_fd fd
     else bindR (msg_pid_fd self) (\<lambda>pf. map_err IoErr (fd_num E p pf fd flags)))"

definition arg_uint :: "ProxyMessageBuffer \<Rightarrow> nat \<Rightarrow> (error, u32) res" where
  "arg_uint self i = bindP (arg self i) (\<lambda>v. if unat v < 2 ^ 32 then Ok (ucast v) else Err (NixErr EINVAL))"

definition arg_int :: "ProxyMessageBuffer \<Rightarrow> nat \<Rightarrow> (error, i32) res" where
  "arg_int self i = arg_uint self i"

definition arg_caddr_t :: "ProxyMessageBuffer \<Rightarrow> nat \<Rightarrow> (error, u64) res" where
  "arg_caddr_t self i = arg self i"

definition arg_pointer :: "ProxyMessageBuffer \<Rightarrow> nat \<Rightarrow> (error, u64) res" where
  "arg_pointer self i = arg self i"

definition arg_char_ptr :: "ProxyMessageBuffer \<Rightarrow> nat \<Rightarrow> (error, u64) res" where
  "arg_char_ptr self i = arg self i"

section \<open>Validation\<close>

text \<open>What holds of a message buffer between messages: the sizes are the compiled-in ones, the
  cookie vector is never longer than its memory, descriptors come in pairs.\<close>

definition wf_msg :: "ProxyMessageBuffer \<Rightarrow> bool" where
  "wf_msg b \<longleftrightarrow> b_sizes b = expected_sizes \<and> b_seccomp_packet_size b = 136
     \<and> b_cookie_len b \<le> length (b_cookie_mem b) \<and> wf_SeccompNotif (b_seccomp_notif b)
     \<and> (b_pid_fd b = None \<longleftrightarrow> b_mem_fd b = None)"

lemma check_sizes_iff: "check_sizes b \<longleftrightarrow> x_sizes (b_proxy_msg b) = b_sizes b"
  by (auto simp: check_sizes_def Let_def)

text \<open>The accepting branch of \<^verbatim>\<open>set_len\<close>, without the machine arithmetic.\<close>

lemma set_len_Ok_iff:
  assumes "b_seccomp_packet_size b = 136"
  shows "set_len b len = Ok b' \<longleftrightarrow>
     136 \<le> unat len \<and> x_reserved0 (b_proxy_msg b) = 0 \<and> x_sizes (b_proxy_msg b) = b_sizes b
     \<and> unat len - 136 \<le> length (b_cookie_mem b)
     \<and> unat (x_cookie_len (b_proxy_msg b)) = unat len - 136
     \<and> b' = prepare_response (b\<lparr>b_cookie_len := unat len - 136\<rparr>)"
proof -
  let ?c = "x_cookie_len (b_proxy_msg b)"
  have le: "\<not> len < 136 \<longleftrightarrow> 136 \<le> unat len"
    by (simp add: word_less_nat_alt not_less)
  have diff: "unat (len - 136) = unat len - 136" if "136 \<le> unat len"
    using that by (simp add: unat_sub word_le_nat_alt)
  have "len = 136 + ?c \<longleftrightarrow> ?c = len - 136"
    by (metis add_diff_cancel_left' diff_add_cancel add.commute)
  then have sum: "len = 136 + ?c \<longleftrightarrow> unat ?c = unat len - 136" if "136 \<le> unat len"
    using diff [OF that] by (metis word_unat_eq_iff)
  show ?thesis
    using le diff sum by (auto simp: set_len_def assms check_sizes_iff Let_def)
qed

lemma set_len_Ok:
  assumes "wf_msg b" and "set_len b len = Ok b'"
  shows "wf_msg b'" and "b_cookie_len b' = unat len - 136"
    and "b_seccomp_resp b' = \<lparr>p_id = n_id (b_seccomp_notif b'), p_val = -1, p_error = - ENOSYS, p_flags = 0\<rparr>"
    and "b_pid_fd b' = b_pid_fd b" and "b_mem_fd b' = b_mem_fd b"
    and "b_seccomp_notif b' = b_seccomp_notif b" and "b_proxy_msg b' = b_proxy_msg b"
  using assms by (auto simp: wf_msg_def set_len_Ok_iff prepare_response_def)

text \<open>Buffers filled by \<^verbatim>\<open>recvmsg\<close> keep the shape of their structures.\<close>

lemma length_msg_iov:
  "wf_SeccompNotif (b_seccomp_notif b) \<Longrightarrow> map length (msg_iov b) = [32, 80, 24]"
  using SeccompNotifyProxyMsg_codec.length_enc SeccompNotif_codec.length_enc
    SeccompNotifResp_codec.length_enc
  by (simp add: msg_iov_def sizeof_seccomp sizeof_SeccompNotifyProxyMsg_def)

lemma wf_store_iov:
  assumes "wf_msg b" and "b_pid_fd b = None" and "b_mem_fd b = None"
  shows "wf_msg ((store_iov b (scatter (msg_iov b @ [b_cookie_mem b]) bs))\<lparr>b_cookie_len := 0\<rparr>)"
  using assms SeccompNotif_codec.inv_fill
  by (auto simp: wf_msg_def store_iov_def msg_iov_def)

lemma reset_run:
  "reset E p b s = Some (r, s') \<Longrightarrow> \<exists>b'. r = Ok b' \<and> b_pid_fd b' = None \<and> b_mem_fd b' = None
     \<and> (wf_msg b \<longrightarrow> wf_msg b')"
  by (auto simp: reset_def Let_def bindR_run drop_opt_def run_simps wf_msg_def split: option.splits)

text \<open>A successful \<^verbatim>\<open>recv\<close> either met the end of the stream, or validated a message and took
  over its two descriptors.\<close>

definition received :: "ProxyMessageBuffer \<Rightarrow> bytes \<Rightarrow> ProxyMessageBuffer" where
  "received b bs = (store_iov b (scatter (msg_iov b @ [b_cookie_mem b]) bs))\<lparr>b_cookie_len := 0\<rparr>"

lemma recv_OkE:
  assumes run: "recv E p b socket s = Some (Ok (got, b'), s')"
  obtains (eof) b1 s1 bs where "\<not> got" "reset E p b s = Some (Ok b1, s1)" "b' = received b1 bs"
  | (message) b1 s1 bs len b2 pf mf where "got" "reset E p b s = Some (Ok b1, s1)"
      "set_len (received b1 bs) len = Ok b2" "b' = b2\<lparr>b_pid_fd := Some pf, b_mem_fd := Some mf\<rparr>"
proof -
  from run obtain b1 s1 buf s2 and r :: resp where b1: "reset E p b s = Some (Ok b1, s1)"
    and rest: "recv_message E p (received b1 (r_data r)) (r_ret r) (r_ctllen r) (fill buf (r_ctl r)) s2
      = Some (Ok (got, b'), s')"
    unfolding recv_def recvmsg_vectored_def received_def by (auto simp: run_simps)
  show thesis
  proof (cases "r_ret r = 0")
    case True
    with rest have "\<not> got" "b' = received b1 (r_data r)" by (auto simp: recv_message_def run_simps)
    then show thesis using eof b1 by blast
  next
    case False
    with rest obtain b2 pf mf where "got" "set_len (received b1 (r_data r)) (word_of_int (r_ret r)) = Ok b2"
      "b' = b2\<lparr>b_pid_fd := Some pf, b_mem_fd := Some mf\<rparr>"
      by (auto simp: recv_message_def run_simps split: if_splits)
    then show thesis using message b1 by blast
  qed
qed

lemma wf_recv:
  assumes wf: "wf_msg b" and run: "recv E p b socket s = Some (Ok (got, b'), s')"
  shows "wf_msg b'" and "got \<longleftrightarrow> b_pid_fd b' \<noteq> None" and "got \<longleftrightarrow> b_mem_fd b' \<noteq> None"
    and "got \<Longrightarrow> b_seccomp_resp b' =
       \<lparr>p_id = n_id (b_seccomp_notif b'), p_val = -1, p_error = - ENOSYS, p_flags = 0\<rparr>"
proof -
  have wf': "wf_msg (received b1 bs)" "b_pid_fd (received b1 bs) = None" "b_mem_fd (received b1 bs) = None"
    if "reset E p b s = Some (Ok b1, s1)" for b1 s1 bs
    using reset_run [OF that] wf wf_store_iov [of b1 bs] by (auto simp: received_def store_iov_def)
  note l = set_len_Ok [OF wf'(1)]
  from run show "wf_msg b'"
  proof (cases rule: recv_OkE)
    case (message b1 s1 bs len b2 pf mf)
    from l(1) [OF message(2,3)] message(4) show ?thesis by (simp add: wf_msg_def)
  qed (simp add: wf'(1))
  from run show "got \<longleftrightarrow> b_pid_fd b' \<noteq> None" and "got \<longleftrightarrow> b_mem_fd b' \<noteq> None"
    by (cases rule: recv_OkE; simp add: wf')+
  from run show "b_seccomp_resp b' =
       \<lparr>p_id = n_id (b_seccomp_notif b'), p_val = -1, p_error = - ENOSYS, p_flags = 0\<rparr>" if got
    by (cases rule: recv_OkE) (use that in \<open>auto dest: l(3)\<close>)
qed

section \<open>Calls made\<close>

lemma emits_SECCOMP_SIZES [emits_intros]:
  assumes "\<And>h r. P h (p, SeccompGetNotifSizes, r)"
  shows "emits P (SECCOMP_SIZES E p)"
proof -
  have "emits P (SeccompNotifSizes_get_checked E p)" using assms by (rule emits_get_checked)
  then show ?thesis
    by (auto simp: emits_def SECCOMP_SIZES_def split: static.splits option.splits prod.splits res.splits)
qed

lemma emits_ProxyMessageBuffer_new [emits_intros]:
  "(\<And>h r. P h (p, SeccompGetNotifSizes, r)) \<Longrightarrow> (\<And>h c r. inspecting c \<Longrightarrow> P h (p, c, r))
     \<Longrightarrow> emits P (ProxyMessageBuffer_new E p n)"
  unfolding ProxyMessageBuffer_new_def by (intro emits_intros) simp_all

lemma emits_drop_opt [emits_intros]:
  "(\<And>h fd r. P h (p, Close fd, r)) \<Longrightarrow> emits P (drop_opt E p x)"
  unfolding drop_opt_def by (intro emits_intros)

lemma emits_owned_fds [emits_intros]:
  "(\<And>h fd r. P h (p, Close fd, r)) \<Longrightarrow> emits P (owned_fds E p vec fds)"
  by (induction fds arbitrary: vec) (auto intro!: emits_intros)

lemma emits_recv [emits_intros]:
  assumes "\<And>h c r. messaging c \<Longrightarrow> P h (p, c, r)" and "\<And>h c r. inspecting c \<Longrightarrow> P h (p, c, r)"
  shows "emits P (recv E p self socket)"
  unfolding recv_def reset_def recv_message_def recv_fds_def
  by (intro emits_intros) (simp_all add: assms)

lemma emits_respond [emits_intros]:
  "(\<And>h c r. messaging c \<Longrightarrow> P h (p, c, r)) \<Longrightarrow> emits P (respond E p self socket)"
  unfolding respond_def by (intro emits_intros)

lemma emits_msg_fds [emits_intros]: "emits P (msg_pid_fd self)" "emits P (msg_mem_fd self)"
  unfolding msg_pid_fd_def msg_mem_fd_def by (intro emits_intros)+

lemma emits_args [emits_intros]:
  assumes "\<And>h c r. inspecting c \<Longrightarrow> P h (p, c, r)"
  shows "emits P (get_c_string E p self ofs)" "emits P (arg_opt_c_string E p self i)"
    "emits P (arg_c_string E p self i)" "emits P (arg_struct_by_ptr E p self i n)"
    "emits P (arg_fd E p self i flags)"
  unfolding arg_c_string_def arg_opt_c_string_def get_c_string_def arg_struct_by_ptr_def arg_fd_def
  by (intro emits_intros; simp add: assms)+

lemma emits_mem_write_struct [emits_intros]:
  "(\<And>h fd d ofs r. P h (p, Pwrite fd d ofs, r)) \<Longrightarrow> emits P (mem_write_struct E p self ofs data)"
  unfolding mem_write_struct_def by (intro emits_intros)

text \<open>A message for a system call by number and arguments, as \<^verbatim>\<open>recv\<close> leaves it.\<close>

definition sample_msg :: "i32 \<Rightarrow> u64 list \<Rightarrow> ProxyMessageBuffer" where
  "sample_msg nr args = prepare_response
     \<lparr>b_proxy_msg = \<lparr>x_reserved0 = 0, x_monitor_pid = 100, x_init_pid = 101, x_sizes = expected_sizes,
        x_padding = 0, x_cookie_len = 0\<rparr>,
      b_seccomp_notif = \<lparr>n_id = 7, n_pid = 200, n_flags = 0, n_data = \<lparr>d_nr = nr, d_arch = AUDIT_ARCH_X86_64,
        d_instruction_pointer = 0, d_args = args\<rparr>\<rparr>,
      b_seccomp_resp = \<lparr>p_id = 0, p_val = 0, p_error = 0, p_flags = 0\<rparr>,
      b_cookie_mem = replicate 64 0, b_cookie_len = 0, b_sizes = expected_sizes,
      b_seccomp_packet_size = 136, b_pid_fd = Some \<lparr>pf_fd = 11, pf_pid = 200\<rparr>, b_mem_fd = Some 12\<rparr>"

section \<open>Properties\<close>

text \<open>C20: A message is accepted exactly when its length is the fixed 136 bytes plus the cookie
  length it announces, the cookie fits the buffer, the reserved field is zero and the sizes are the
  compiled-in ones. The comparison in the code is on wrapping \<^verbatim>\<open>usize\<close> arithmetic, but no announced
  length can make a wrapped sum pass. What is accepted is the same message with its cookie length
  set and the response prepared (the request's id, \<open>-ENOSYS\<close>).\<close>

theorem set_len_accepts:
  assumes "wf_msg b"
  shows "set_len b len = Ok b' \<longleftrightarrow>
     (\<exists>n. unat len = 136 + n \<and> unat (x_cookie_len (b_proxy_msg b)) = n \<and> n \<le> length (b_cookie_mem b)
        \<and> x_reserved0 (b_proxy_msg b) = 0 \<and> x_sizes (b_proxy_msg b) = expected_sizes
        \<and> b' = b\<lparr>b_cookie_len := n, b_seccomp_resp :=
             \<lparr>p_id = n_id (b_seccomp_notif b), p_val = -1, p_error = - ENOSYS, p_flags = 0\<rparr>\<rparr>)"
proof -
  from assms have b: "b_seccomp_packet_size b = 136" "b_sizes b = expected_sizes"
    by (simp_all add: wf_msg_def)
  show ?thesis
    unfolding set_len_Ok_iff [OF b(1)] b(2)
    by (auto simp: prepare_response_def intro!: exI [of _ "unat len - 136"])
qed

theorem set_len_accepts_witness:
  "\<exists>b'. set_len (sample_msg 133 [0, 0, 0, 0, 0, 0]) 136 = Ok b'"
proof -
  have "wf_msg (sample_msg 133 [0, 0, 0, 0, 0, 0])"
    by (simp add: wf_msg_def sample_msg_def prepare_response_def wf_SeccompNotif_def wf_SeccompData_def)
  from set_len_accepts [OF this, of 136] show ?thesis
    by (auto simp: sample_msg_def prepare_response_def)
qed

text \<open>C21: Receiving keeps the buffer well-formed. It reports a message exactly when it took over
  both descriptors (so \<^verbatim>\<open>pid_fd()\<close> and \<^verbatim>\<open>mem_fd()\<close> cannot panic while the message is handled), and then the
  response already carries the id of the request and \<open>-ENOSYS\<close>.\<close>

theorem recv_invariant:
  assumes "wf_msg b" and "recv E p b socket s = Some (Ok (got, b'), s')"
  shows "wf_msg b' \<and> (got \<longleftrightarrow> b_pid_fd b' \<noteq> None) \<and> (got \<longleftrightarrow> b_mem_fd b' \<noteq> None)
    \<and> (got \<longrightarrow> b_seccomp_resp b' =
         \<lparr>p_id = n_id (b_seccomp_notif b'), p_val = -1, p_error = - ENOSYS, p_flags = 0\<rparr>)"
  using wf_recv [OF assms] by blast

theorem recv_invariant_witness:
  "\<exists>b' s'. recv script Daemon ((sample_msg 0 [0, 0, 0, 0, 0, 0])\<lparr>b_pid_fd := None, b_mem_fd := None\<rparr>) 3
       (boot [returns 0, returns 0, returns 0]) = Some (Ok (False, b'), s') \<and> wf_msg b' \<and> b_pid_fd b' = None"
proof -
  let ?b = "(sample_msg 0 [0, 0, 0, 0, 0, 0])\<lparr>b_pid_fd := None, b_mem_fd := None\<rparr>"
  have wf: "wf_msg ?b"
    by (simp add: wf_msg_def sample_msg_def prepare_response_def wf_SeccompNotif_def wf_SeccompData_def)
  have "\<exists>b' s'. recv script Daemon ?b 3 (boot [returns 0, returns 0, returns 0]) = Some (Ok (False, b'), s')"
    by (simp add: recv_def reset_def drop_opt_def sample_msg_def prepare_response_def cmsg_buffer_def recvmsg_vectored_def
      wrap_read_def tokio_result_def loopM.simps recv_message_def io_defs sample_defs Let_def)
  then obtain b' s' where run: "recv script Daemon ?b 3 (boot [returns 0, returns 0, returns 0]) = Some (Ok (False, b'), s')"
    by blast
  from recv_invariant [OF wf run] run show ?thesis by auto
qed

text \<open>The contract of \<^verbatim>\<open>pread(2)\<close>: it fails, or stores as many bytes as it says, at most as many as
  asked for.\<close>

definition honest_pread :: "'w env \<Rightarrow> bool" where
  "honest_pread E \<longleftrightarrow> (\<forall>p fd n ofs w. let r = fst (kern E p (Pread fd n ofs) w) in
     r_ret r \<noteq> -1 \<longrightarrow> r_ret r = int (length (r_data r)) \<and> length (r_data r) \<le> n)"

lemma get_c_string_run:
  assumes "honest_pread E" and "b_mem_fd msg = Some fd"
  shows "\<exists>s1. get_c_string E p msg ofs s = (let r = answer E p (Pread fd 4096 ofs) s1 in
     Some (if r_ret r = -1 then Err (IoErr (OsErr (r_errno r)))
           else if 0 \<in> set (r_data r) then Ok (takeWhile (\<lambda>b. b \<noteq> 0) (r_data r))
           else Err (NixErr EINVAL), after E p (Pread fd 4096 ofs) s1))"
proof (intro exI)
  let ?s1 = "after E p (Alloc 4096) s"
  let ?r = "answer E p (Pread fd 4096 ofs) ?s1"
  let ?data = "fit 4096 (r_data (answer E p (Alloc 4096) s))"
  have honest: "r_ret ?r \<noteq> -1 \<Longrightarrow> r_ret ?r = int (length (r_data ?r)) \<and> length (r_data ?r) \<le> 4096"
    using assms(1) by (simp add: honest_pread_def answer_def Let_def)
  show "get_c_string E p msg ofs s = (let r = ?r in
     Some (if r_ret r = -1 then Err (IoErr (OsErr (r_errno r)))
           else if 0 \<in> set (r_data r) then Ok (takeWhile (\<lambda>b. b \<noteq> 0) (r_data r))
           else Err (NixErr EINVAL), after E p (Pread fd 4096 ofs) ?s1))"
  proof (cases "r_ret ?r = -1")
    case True
    then show ?thesis
      by (simp add: get_c_string_def vec_uninitialized_def msg_mem_fd_def assms(2) unwrap_def bindR_def sys_eq ret_def
        map_err_def c_result_def raise_def Let_def)
  next
    case False
    let ?len = "strnlen (fill ?data (r_data ?r)) (nat (r_ret ?r))"
    let ?w = "takeWhile (\<lambda>b. b \<noteq> 0) (r_data ?r)"
    have take: "take n (fill ?data (r_data ?r)) = take n (r_data ?r)" if "n \<le> length (r_data ?r)" for n
      using that honest [OF False] by (simp add: take_fill)
    then have len: "?len = length ?w"
      using honest [OF False] by (simp add: strnlen_def)
    have lt: "length ?w < length (r_data ?r) \<longleftrightarrow> 0 \<in> set (r_data ?r)"
      by (auto simp: length_takeWhile_short)
    have "take (length ?w) (r_data ?r) = ?w" by (metis append_eq_conv_conj takeWhile_dropWhile_id)
    then have w: "take (length ?w) (fill ?data (r_data ?r)) = ?w"
      using take [of "length ?w"] length_takeWhile_le by metis
    have "0 \<notin> set ?w" by (auto dest: set_takeWhileD)
    then show ?thesis
      using False honest [OF False] len lt w
      by (auto simp: get_c_string_def vec_uninitialized_def msg_mem_fd_def assms(2) unwrap_def bindR_def sys_eq ret_def
        map_err_def c_result_def raise_def Let_def)
  qed
qed

text \<open>The memory of a process, seen through the descriptor \<open>fd\<close>: \<open>mem\<close> gives what can be read from an address on.\<close>

definition memory_of :: "'w env \<Rightarrow> int \<Rightarrow> (u64 \<Rightarrow> bytes) \<Rightarrow> bool" where
  "memory_of E fd mem \<longleftrightarrow> honest_pread E
     \<and> (\<forall>p n ofs w. r_ret (fst (kern E p (Pread fd n ofs) w)) \<noteq> -1 \<longrightarrow> r_data (fst (kern E p (Pread fd n ofs) w)) = take n (mem ofs))"

text \<open>A string argument is the string at the address in the caller's memory.\<close>

lemma arg_c_string_memory:
  assumes mem: "memory_of E fd mem" and fd: "b_mem_fd msg = Some fd"
    and run: "arg_c_string E p msg i s = Some (Ok path, s')"
  shows "\<exists>addr. arg msg i = Ok addr \<and> 0 \<in> set (take 4096 (mem addr)) \<and> path = takeWhile (\<lambda>b. b \<noteq> 0) (take 4096 (mem addr))"
proof -
  from run obtain addr where addr: "arg msg i = Ok addr" and str: "get_c_string E p msg addr s = Some (Ok path, s')"
    by (auto simp: arg_c_string_def arg_opt_c_string_def run_simps split: if_splits)
  have honest: "honest_pread E" using mem by (simp add: memory_of_def)
  from get_c_string_run [OF honest fd, of p addr s] str obtain s1 where
    "r_ret (answer E p (Pread fd 4096 addr) s1) \<noteq> -1" "0 \<in> set (r_data (answer E p (Pread fd 4096 addr) s1))"
    "path = takeWhile (\<lambda>b. b \<noteq> 0) (r_data (answer E p (Pread fd 4096 addr) s1))"
    by (auto simp: Let_def split: if_splits)
  moreover from this(1) mem have "r_data (answer E p (Pread fd 4096 addr) s1) = take 4096 (mem addr)"
    by (simp add: memory_of_def answer_def)
  ultimately show ?thesis using addr by auto
qed

text \<open>C22: A string argument is what the caller's memory holds at the address, up to the first NUL
  among the at most 4096 bytes read; without one the call is answered with \<^verbatim>\<open>EINVAL\<close>, and a failed
  read with its error number. Reading a string never panics.\<close>

theorem get_c_string_reads:
  assumes "honest_pread E" and "b_mem_fd msg = Some fd"
  shows "\<exists>s1. get_c_string E p msg ofs s = (let r = answer E p (Pread fd 4096 ofs) s1 in
     Some (if r_ret r = -1 then Err (IoErr (OsErr (r_errno r)))
           else if 0 \<in> set (r_data r) then Ok (takeWhile (\<lambda>b. b \<noteq> 0) (r_data r))
           else Err (NixErr EINVAL), after E p (Pread fd 4096 ofs) s1))"
  using assms by (rule get_c_string_run)

definition sample_memory :: "unit env" where
  "sample_memory = env_of (\<lambda>p c w. (case c of
     Pread fd n ofs \<Rightarrow> delivers (take n [97, 98, 0, 99]) | _ \<Rightarrow> returns 0, w))"

theorem get_c_string_reads_witness:
  "\<exists>s'. get_c_string sample_memory Daemon (sample_msg 133 [1, 0, 0, 0, 0, 0]) 1 (boot ()) = Some (Ok [97, 98], s')"
proof -
  have "honest_pread sample_memory" "b_mem_fd (sample_msg 133 [1, 0, 0, 0, 0, 0]) = Some 12"
    by (simp_all add: honest_pread_def sample_memory_def env_of_def delivers_def Let_def sample_msg_def prepare_response_def)
  from get_c_string_reads [OF this, of Daemon 1 "boot ()"] show ?thesis
    by (auto simp: answer_def sample_memory_def env_of_def delivers_def Let_def)
qed

text \<open>The type of the control message is not checked: any control message of level
  \<^verbatim>\<open>SOL_SOCKET\<close>, credentials for example, is taken for a list of descriptors. (The test in the code
  joins the two conditions with \<open>and\<close>.)\<close>

theorem recv_fds_type_unchecked:
  assumes "cmsg_level m = SOL_SOCKET"
  shows "recv_fds E p (m\<lparr>cmsg_type := t\<rparr>) = recv_fds E p (m\<lparr>cmsg_type := SCM_RIGHTS\<rparr>)"
  using assms by (simp add: recv_fds_def)

theorem recv_fds_type_unchecked_witness:
  "recv_fds script Daemon \<lparr>cmsg_level = 1, cmsg_type = 2, cmsg_data = []\<rparr>
     = recv_fds script Daemon \<lparr>cmsg_level = 1, cmsg_type = 1, cmsg_data = []\<rparr>"
  using recv_fds_type_unchecked [of "\<lparr>cmsg_level = 1, cmsg_type = 1, cmsg_data = []\<rparr>" script Daemon 2] by simp

text \<open>A message that fails validation leaks the descriptors that came with it: once
  \<^verbatim>\<open>recvmsg\<close> has stored them in the control buffer, \<^verbatim>\<open>recv\<close> fails without making any further call,
  so they are never closed.\<close>

theorem rejected_message_leaks:
  assumes "set_len self (word_of_int datalen) = Err e" and "datalen \<noteq> 0"
  shows "recv_message E p self datalen cmsglen fd_cmsg_buf s = Some (Err e, s)"
  using assms by (simp add: recv_message_def bindR_def of_res_def)

theorem rejected_message_leaks_witness:
  "recv_message script Daemon (sample_msg 0 [0, 0, 0, 0, 0, 0]) 10 24 (replicate 24 0) (boot [])
     = Some (Err (AnyErr ''seccomp proxy message too short''), boot [])"
  by (rule rejected_message_leaks) (simp_all add: set_len_def sample_msg_def prepare_response_def)

end
