(* ===== verification/UserCaps.thy ===== *)
theory UserCaps
  imports Process
begin

text \<open>
  \<^verbatim>\<open>src/capability.rs\<close>, \<^verbatim>\<open>src/apparmor.rs\<close> and \<^verbatim>\<open>src/process/user_caps.rs\<close>:
  the environment a forked child takes on before it runs a system call for a container process:
  control groups, mount namespace, root and working directory, AppArmor profile, umask, user and
  group ids, capabilities. The main lemma is that a successful \<^verbatim>\<open>apply\<close> has made exactly these
  changes, in the documented order.
\<close>

section \<open>Capabilities (src/capability.rs)\<close>

type_synonym SecureBits = u64

abbreviation (input) SB_NOROOT :: SecureBits where "SB_NOROOT \<equiv> 0x01"
abbreviation (input) SB_NOROOT_LOCKED :: SecureBits where "SB_NOROOT_LOCKED \<equiv> 0x02"
abbreviation (input) SB_NO_SETUID_FIXUP :: SecureBits where "SB_NO_SETUID_FIXUP \<equiv> 0x04"
abbreviation (input) SB_NO_SETUID_FIXUP_LOCKED :: SecureBits where "SB_NO_SETUID_FIXUP_LOCKED \<equiv> 0x08"
abbreviation (input) SB_KEEP_CAPS :: SecureBits where "SB_KEEP_CAPS \<equiv> 0x10"
abbreviation (input) SB_KEEP_CAPS_LOCKED :: SecureBits where "SB_KEEP_CAPS_LOCKED \<equiv> 0x20"
abbreviation (input) SB_NO_CAP_AMBIENT_RAISE :: SecureBits where "SB_NO_CAP_AMBIENT_RAISE \<equiv> 0x40"
abbreviation (input) SB_NO_CAP_AMBIENT_RAISE_LOCKED :: SecureBits where "SB_NO_CAP_AMBIENT_RAISE_LOCKED \<equiv> 0x80"
abbreviation (input) SB_ALL_BITS :: SecureBits where "SB_ALL_BITS \<equiv> 0x55"
abbreviation (input) SB_ALL_LOCKS :: SecureBits where "SB_ALL_LOCKS \<equiv> 0xAA"

text \<open>\<^verbatim>\<open>from_bits\<close> of the \<^verbatim>\<open>bitflags!\<close> type: refuses bits that are no flag.\<close>

definition SecureBits_from_bits :: "u64 \<Rightarrow> SecureBits option" where
  "SecureBits_from_bits bits =
     (if bits AND NOT (SB_ALL_BITS OR SB_ALL_LOCKS) = 0 then Some bits else None)"

definition SecureBits_apply :: "'w env \<Rightarrow> actor \<Rightarrow> SecureBits \<Rightarrow> ('w, io_error, unit) io" where
  "SecureBits_apply E p self = bindR (c_result E p (PrctlSetSecurebits self)) (\<lambda>_. ret ())"

definition SecureBits_get_current :: "'w env \<Rightarrow> actor \<Rightarrow> ('w, io_error, SecureBits) io" where
  "SecureBits_get_current E p =
     bindR (c_result E p PrctlGetSecurebits) (\<lambda>r.
     ok_or io_format_err (SecureBits_from_bits (word_of_int (r_ret r))))"

abbreviation (input) CAPABILITY_VERSION_3 :: u32 where "CAPABILITY_VERSION_3 \<equiv> 0x20080522"

definition capset_data :: "Capabilities \<Rightarrow> (u32 \<times> u32 \<times> u32) list" where
  "capset_data self =
     [(ucast (effective self), ucast (permitted self), ucast (inheritable self)),
      (ucast (drop_bit 32 (effective self)), ucast (drop_bit 32 (permitted self)),
       ucast (drop_bit 32 (inheritable self)))]"

definition capset :: "'w env \<Rightarrow> actor \<Rightarrow> Capabilities \<Rightarrow> ('w, io_error, unit) io" where
  "capset E p self =
     bindR (c_result E p (Capset CAPABILITY_VERSION_3 0 (capset_data self))) (\<lambda>_. ret ())"

section \<open>AppArmor (src/apparmor.rs)\<close>

definition truncate_label :: "bytes \<Rightarrow> bytes" where
  "truncate_label out = takeWhile (\<lambda>c. \<not> (c = 32 \<or> c = 10)) out"

definition get_label :: "'w env \<Rightarrow> actor \<Rightarrow> PidFd \<Rightarrow> ('w, io_error, bytes option) io" where
  "get_label E p pidfd =
     matchR (read_file E p pidfd (str ''attr/current''))
       (\<lambda>out. if out = [] then raise (KindErr UnexpectedEof) else ret (Some (truncate_label out)))
       (\<lambda>e. if raw_os_error e = Some EINVAL then ret None else raise e)"

definition set_label :: "'w env \<Rightarrow> actor \<Rightarrow> PidFd \<Rightarrow> bytes \<Rightarrow> ('w, io_error, unit) io" where
  "set_label E p pidfd label =
     bindR (open_file E p pidfd (str ''attr/current'') (O_RDWR OR O_CLOEXEC) 0) (\<lambda>file.
     owning E p file (write_all E p file (str ''changeprofile '' @ label)))"

section \<open>The caller's environment (src/process/user\_caps.rs)\<close>

record UserCaps =
  uc_pidfd :: PidFd
  uc_apply_uids :: bool
  uc_euid :: u32
  uc_egid :: u32
  uc_fsuid :: u32
  uc_fsgid :: u32
  uc_capabilities :: Capabilities
  uc_umask :: u32
  uc_cgroup_v1_devices :: "bytes option"
  uc_cgroup_v2_base :: bytes
  uc_cgroup_v2 :: "bytes option"
  uc_apparmor_profile :: "bytes option"

definition UserCaps_new :: "'w env \<Rightarrow> actor \<Rightarrow> PidFd \<Rightarrow> ('w, error, UserCaps) io" where
  "UserCaps_new E p pidfd =
     bindR (map_err IoErr (get_status E p pidfd)) (\<lambda>status.
     bindR (get_cgroups E p pidfd) (\<lambda>cgroups.
     bindR (map_err IoErr (get_label E p pidfd)) (\<lambda>apparmor_profile.
     ret \<lparr>uc_pidfd = pidfd, uc_apply_uids = True,
          uc_euid = euid (uids status), uc_egid = egid (uids status),
          uc_fsuid = fsuid (uids status), uc_fsgid = fsgid (uids status),
          uc_capabilities = capabilities status, uc_umask = umask status,
          uc_cgroup_v1_devices = CGroups_get cgroups (str ''devices''),
          uc_cgroup_v2_base = (if has_v1 cgroups then str ''unified/'' else str ''''),
          uc_cgroup_v2 = CGroups_v2 cgroups,
          uc_apparmor_profile = apparmor_profile\<rparr>)))"

text \<open>\<^verbatim>\<open>std::fs::write\<close>: open for writing (retried when interrupted), write everything, close.\<close>

definition fs_write :: "'w env \<Rightarrow> actor \<Rightarrow> bytes \<Rightarrow> bytes \<Rightarrow> ('w, io_error, unit) io" where
  "fs_write E p path contents =
     (if 0 \<in> set path then raise (KindErr InvalidInput)
      else bindR (loopM (\<lambda>_. matchR (c_result E p (Open path (O_WRONLY OR O_CREAT OR O_TRUNC OR O_CLOEXEC) 438))
                (\<lambda>r. bindR (owned_fd (r_ret r)) (\<lambda>fd. ret (Inr fd)))
                (\<lambda>e. if interrupted e then ret (Inl ()) else raise e)) ()) (\<lambda>fd.
           owning E p fd (write_all E p fd contents)))"

definition cgroup_procs :: "bytes \<Rightarrow> bytes \<Rightarrow> bytes" where
  "cgroup_procs kind name = str ''/sys/fs/cgroup/'' @ kind @ name @ str ''/cgroup.procs''"

definition enter_cgroup :: "'w env \<Rightarrow> actor \<Rightarrow> bytes \<Rightarrow> bytes \<Rightarrow> ('w, io_error, unit) io" where
  "enter_cgroup E p kind name = fs_write E p (cgroup_procs kind name) (str ''0'')"

definition apply_cgroups :: "'w env \<Rightarrow> actor \<Rightarrow> UserCaps \<Rightarrow> ('w, io_error, unit) io" where
  "apply_cgroups E p self =
     bindR (case uc_cgroup_v1_devices self of
         Some cg \<Rightarrow> enter_cgroup E p (str ''devices/'') cg | None \<Rightarrow> ret ()) (\<lambda>_.
     bindR (case uc_cgroup_v2 self of
         Some cg \<Rightarrow> enter_cgroup E p (uc_cgroup_v2_base self) cg | None \<Rightarrow> ret ()) (\<lambda>_.
     ret ()))"

definition apply_user_caps :: "'w env \<Rightarrow> actor \<Rightarrow> UserCaps \<Rightarrow> ('w, io_error, unit) io" where
  "apply_user_caps E p self =
     bindR (if uc_apply_uids self then
         bindR (sys E p (Umask (uc_umask self))) (\<lambda>_.
         bindR (SecureBits_get_current E p) (\<lambda>secbits.
         bindR (SecureBits_apply E p (secbits OR (SB_KEEP_CAPS OR SB_NO_SETUID_FIXUP))) (\<lambda>_.
         bindR (c_result E p (Setegid (uc_egid self))) (\<lambda>_.
         bindR (c_result E p (Setfsgid (uc_fsgid self))) (\<lambda>_.
         bindR (c_result E p (Seteuid (uc_euid self))) (\<lambda>_.
         bindR (c_result E p (Setfsuid (uc_fsuid self))) (\<lambda>_.
         ret ())))))))
       else ret ()) (\<lambda>_.
     bindR (capset E p (uc_capabilities self)) (\<lambda>_. ret ()))"

definition disable_uid_change :: "UserCaps \<Rightarrow> UserCaps" where
  "disable_uid_change self = self\<lparr>uc_apply_uids := False\<rparr>"

definition disable_cgroup_change :: "UserCaps \<Rightarrow> UserCaps" where
  "disable_cgroup_change self = self\<lparr>uc_cgroup_v1_devices := None, uc_cgroup_v2 := None\<rparr>"

definition UserCaps_apply :: "'w env \<Rightarrow> actor \<Rightarrow> PidFd \<Rightarrow> UserCaps \<Rightarrow> ('w, io_error, unit) io" where
  "UserCaps_apply E p own_pidfd self =
     bindR (apply_cgroups E p self) (\<lambda>_.
     bindR (bindR (mount_namespace E p (uc_pidfd self)) (\<lambda>ns. owning E p (snd ns) (NsFd_setns E p ns))) (\<lambda>_.
     bindR (enter_chroot E p (uc_pidfd self)) (\<lambda>_.
     bindR (enter_cwd E p (uc_pidfd self)) (\<lambda>_.
     bindR (case uc_apparmor_profile self of
         Some label \<Rightarrow> set_label E p own_pidfd label | None \<Rightarrow> ret ()) (\<lambda>_.
     bindR (apply_user_caps E p self) (\<lambda>_.
     ret ()))))))"

text \<open>What every handler does first in its child: \<^verbatim>\<open>caps.apply(&PidFd::current()?)?\<close>.\<close>

definition apply_current :: "'w env \<Rightarrow> actor \<Rightarrow> UserCaps \<Rightarrow> ('w, io_error, unit) io" where
  "apply_current E p caps =
     bindR (PidFd_current E p) (\<lambda>own. owning E p (pf_fd own) (UserCaps_apply E p own caps))"

section \<open>Calls made\<close>

lemma emits_get_label [emits_intros]:
  "(\<And>h c r. inspecting c \<Longrightarrow> P h (p, c, r)) \<Longrightarrow> emits P (get_label E p pidfd)"
  unfolding get_label_def by (intro emits_intros)

lemma emits_UserCaps_new [emits_intros]:
  "(\<And>h c r. inspecting c \<Longrightarrow> P h (p, c, r)) \<Longrightarrow> emits P (UserCaps_new E p pidfd)"
  unfolding UserCaps_new_def by (intro emits_intros)

lemma quiet_set_label:
  "emits (\<lambda>h e. \<not> privileged (ev_call e)) (set_label E p pidfd label)"
  unfolding set_label_def by (intro emits_intros) (simp_all add: inspecting_not_privileged)

lemma quiet_apply_cgroups:
  "emits (\<lambda>h e. \<not> privileged (ev_call e)) (apply_cgroups E p self)"
  unfolding apply_cgroups_def enter_cgroup_def fs_write_def
  by (intro emits_intros) simp_all

text \<open>Everything a process does to take on an environment, it does itself.\<close>

lemma emits_UserCaps_apply_actor: "emits (\<lambda>h e. ev_actor e = p) (UserCaps_apply E p own self)"
  unfolding UserCaps_apply_def apply_cgroups_def enter_cgroup_def fs_write_def mount_namespace_def
    NsFd_setns_def RawNsFd_setns_def enter_chroot_def enter_cwd_def set_label_def
    apply_user_caps_def SecureBits_get_current_def SecureBits_apply_def capset_def
  by (intro emits_intros) simp_all

section \<open>What a successful apply has done\<close>

lemma owned_fd_Ok [run_simps]: "owned_fd fd s = Some (Ok a, s') \<longleftrightarrow> fd \<noteq> -1 \<and> a = fd \<and> s' = s"
  by (auto simp: owned_fd_def run_simps)

text \<open>\<open>stored p op bs t\<close>: in \<open>t\<close> the process opened a file by the call \<open>op\<close> and wrote exactly \<open>bs\<close> into
  the descriptor it got.\<close>

definition stored :: "actor \<Rightarrow> call \<Rightarrow> bytes \<Rightarrow> event list \<Rightarrow> bool" where
  "stored p op bs t \<longleftrightarrow> (\<exists>a r b c. t = a @ (p, op, r) # b @ c \<and> r_ret r \<noteq> -1
     \<and> concat (map (written_bytes p (r_ret r)) b) = bs)"

lemma stored_append: "stored p op bs t \<or> stored p op bs u \<Longrightarrow> stored p op bs (t @ u)"
  unfolding stored_def by (metis append_Cons append_assoc)

abbreviation (input) create_call :: "bytes \<Rightarrow> call" where
  "create_call path \<equiv> Open path (O_WRONLY OR O_CREAT OR O_TRUNC OR O_CLOEXEC) 438"

lemma fs_write_stored:
  assumes "fs_write E p path bs s = Some (Ok u, s')"
  shows "\<exists>t. m_log s' = m_log s @ t \<and> stored p (create_call path) bs t"
proof -
  from assms obtain fd s1 s2 where
    opened: "loopM (\<lambda>_. matchR (c_result E p (create_call path))
        (\<lambda>r. bindR (owned_fd (r_ret r)) (\<lambda>fd. ret (Inr fd)))
        (\<lambda>e. if interrupted e then ret (Inl ()) else raise e)) () s = Some (Ok fd, s1)"
    and written: "write_all E p fd bs s1 = Some (Ok u, s2)" and s': "s' = after E p (Close fd) s2"
    by (auto simp: fs_write_def run_simps split: if_splits)
  obtain a r where a: "m_log s1 = m_log s @ a @ [(p, create_call path, r)]" "r_ret r = fd" "fd \<noteq> -1"
    by (rule loopM_last [where I = "\<lambda>_ s1. \<exists>a. m_log s1 = m_log s @ a", OF opened])
       (auto simp: run_simps split: if_splits)
  obtain b where b: "m_log s2 = m_log s1 @ b" "concat (map (written_bytes p fd) b) = bs"
    using write_all_bytes [OF written] by blast
  have "m_log s' = m_log s @ (a @ (p, create_call path, r) # b @ [(p, Close fd, answer E p (Close fd) s2)])"
    using a(1) b(1) s' by simp
  moreover have "stored p (create_call path) bs (a @ (p, create_call path, r) # b @ [(p, Close fd, answer E p (Close fd) s2)])"
    unfolding stored_def using a b by blast
  ultimately show ?thesis by blast
qed

abbreviation (input) label_call :: "PidFd \<Rightarrow> call" where
  "label_call own \<equiv> Openat (pf_fd own) (str ''attr/current'') (O_RDWR OR O_CLOEXEC OR O_CLOEXEC) 0"

lemma set_label_stored:
  assumes "set_label E p own label s = Some (Ok u, s')"
  shows "\<exists>t. m_log s' = m_log s @ t \<and> stored p (label_call own) (str ''changeprofile '' @ label) t"
proof -
  from assms obtain r s2 where r: "r = answer E p (label_call own) s" "r_ret r \<noteq> -1"
    and written: "write_all E p (r_ret r) (str ''changeprofile '' @ label) (after E p (label_call own) s) = Some (Ok u, s2)"
    and s': "s' = after E p (Close (r_ret r)) s2"
    by (auto simp: set_label_def open_file_def PidFd_fd_def run_simps)
  from write_all_bytes [OF written] r(1) obtain b where
    b: "m_log s2 = m_log s @ (p, label_call own, r) # b"
      "concat (map (written_bytes p (r_ret r)) b) = str ''changeprofile '' @ label" by auto
  let ?t = "[] @ (p, label_call own, r) # b @ [(p, Close (r_ret r), answer E p (Close (r_ret r)) s2)]"
  have "m_log s' = m_log s @ ?t" using b(1) s' by simp
  moreover have "stored p (label_call own) (str ''changeprofile '' @ label) ?t"
    unfolding stored_def using r(2) b(2) by blast
  ultimately show ?thesis by blast
qed

text \<open>The privileged calls of the two middle steps; \<open>ns\<close> and \<open>cwd\<close> are the descriptors of the mount
  namespace and the working directory, \<open>bits\<close> the secure bits that were set.\<close>

definition root_calls :: "UserCaps \<Rightarrow> int \<Rightarrow> int \<Rightarrow> call list" where
  "root_calls self ns cwd =
     [Setns ns 0x20000, Fchdir (pf_fd (uc_pidfd self)), Chroot (str ''root''), Chdir (str ''/''), Fchdir cwd]"

definition cred_calls :: "UserCaps \<Rightarrow> SecureBits \<Rightarrow> call list" where
  "cred_calls self bits =
     (if uc_apply_uids self
      then [Umask (uc_umask self), PrctlSetSecurebits (bits OR (SB_KEEP_CAPS OR SB_NO_SETUID_FIXUP)),
            Setegid (uc_egid self), Setfsgid (uc_fsgid self), Seteuid (uc_euid self), Setfsuid (uc_fsuid self)]
      else [])
     @ [Capset CAPABILITY_VERSION_3 0 (capset_data (uc_capabilities self))]"

text \<open>\<open>took_on p own caps t\<close>: the events \<open>t\<close> take on \<open>caps\<close>, step by step: join the control groups,
  enter the mount namespace, root and working directory, change the AppArmor profile, change ids and
  capabilities; and they make no other privileged call.\<close>

definition took_on :: "actor \<Rightarrow> PidFd \<Rightarrow> UserCaps \<Rightarrow> event list \<Rightarrow> bool" where
  "took_on p own caps t \<longleftrightarrow> (\<exists>cgroups root label creds ns cwd bits. t = cgroups @ root @ label @ creds
     \<and> priv cgroups = []
     \<and> (\<forall>cg. uc_cgroup_v1_devices caps = Some cg
           \<longrightarrow> stored p (create_call (cgroup_procs (str ''devices/'') cg)) (str ''0'') cgroups)
     \<and> (\<forall>cg. uc_cgroup_v2 caps = Some cg
           \<longrightarrow> stored p (create_call (cgroup_procs (uc_cgroup_v2_base caps) cg)) (str ''0'') cgroups)
     \<and> priv root = map (Pair p) (root_calls caps ns cwd)
     \<and> priv label = []
     \<and> (\<forall>l. uc_apparmor_profile caps = Some l
           \<longrightarrow> stored p (label_call own) (str ''changeprofile '' @ l) label)
     \<and> priv creds = map (Pair p) (cred_calls caps bits))"

lemma apply_cgroups_Ok:
  assumes "apply_cgroups E p self s = Some (Ok u, s')"
  shows "\<exists>t. m_log s' = m_log s @ t \<and> priv t = []
     \<and> (\<forall>cg. uc_cgroup_v1_devices self = Some cg
           \<longrightarrow> stored p (create_call (cgroup_procs (str ''devices/'') cg)) (str ''0'') t)
     \<and> (\<forall>cg. uc_cgroup_v2 self = Some cg
           \<longrightarrow> stored p (create_call (cgroup_procs (uc_cgroup_v2_base self) cg)) (str ''0'') t)"
proof -
  have enter: "\<exists>t. m_log s2 = m_log s1 @ t \<and> (\<forall>cg. x = Some cg \<longrightarrow> stored p (create_call (cgroup_procs kind cg)) (str ''0'') t)"
    if "(case x of Some cg \<Rightarrow> enter_cgroup E p kind cg | None \<Rightarrow> ret ()) s1 = Some (Ok (), s2)" for x kind s1 s2
    using that by (auto simp: enter_cgroup_def run_simps split: option.splits dest: fs_write_stored)
  from assms obtain s1 where
    v1: "(case uc_cgroup_v1_devices self of Some cg \<Rightarrow> enter_cgroup E p (str ''devices/'') cg | None \<Rightarrow> ret ()) s = Some (Ok (), s1)"
    and v2: "(case uc_cgroup_v2 self of Some cg \<Rightarrow> enter_cgroup E p (uc_cgroup_v2_base self) cg | None \<Rightarrow> ret ()) s1 = Some (Ok (), s')"
    by (auto simp: apply_cgroups_def run_simps)
  from enter [OF v1] enter [OF v2] obtain t1 t2 where "m_log s1 = m_log s @ t1" "m_log s' = m_log s1 @ t2"
    "\<forall>cg. uc_cgroup_v1_devices self = Some cg \<longrightarrow> stored p (create_call (cgroup_procs (str ''devices/'') cg)) (str ''0'') t1"
    "\<forall>cg. uc_cgroup_v2 self = Some cg \<longrightarrow> stored p (create_call (cgroup_procs (uc_cgroup_v2_base self) cg)) (str ''0'') t2"
    by blast
  moreover from this quietD [OF quiet_apply_cgroups assms] have "priv (t1 @ t2) = []" by simp
  ultimately show ?thesis by (intro exI [of _ "t1 @ t2"]) (auto intro: stored_append)
qed

lemma apply_user_caps_Ok:
  assumes "apply_user_caps E p self s = Some (Ok u, s')"
  shows "\<exists>t bits. m_log s' = m_log s @ t \<and> priv t = map (Pair p) (cred_calls self bits)"
  using assms
  by (auto simp: apply_user_caps_def cred_calls_def run_simps SecureBits_get_current_def SecureBits_apply_def capset_def
    split: if_splits)

lemma enter_root_Ok:
  assumes "bindR (bindR (mount_namespace E p (uc_pidfd self)) (\<lambda>ns. owning E p (snd ns) (NsFd_setns E p ns))) (\<lambda>_.
     bindR (enter_chroot E p (uc_pidfd self)) (\<lambda>_. enter_cwd E p (uc_pidfd self))) s = Some (Ok u, s')"
  shows "\<exists>t ns cwd. m_log s' = m_log s @ t \<and> priv t = map (Pair p) (root_calls self ns cwd)"
  using assms
  by (auto simp: run_simps root_calls_def mount_namespace_def NsFd_openat_def RawNsFd_openat_def NsFd_setns_def
    RawNsFd_setns_def ns_TYPE_def enter_chroot_def enter_cwd_def fd_cwd_def PidFd_fd_def)

lemma UserCaps_apply_Ok:
  assumes "UserCaps_apply E p own self s = Some (Ok u, s')"
  shows "\<exists>t. m_log s' = m_log s @ t \<and> took_on p own self t"
proof -
  from assms obtain s1 s2 s3 where
    cg: "apply_cgroups E p self s = Some (Ok (), s1)"
    and root: "bindR (bindR (mount_namespace E p (uc_pidfd self)) (\<lambda>ns. owning E p (snd ns) (NsFd_setns E p ns))) (\<lambda>_.
       bindR (enter_chroot E p (uc_pidfd self)) (\<lambda>_. enter_cwd E p (uc_pidfd self))) s1 = Some (Ok (), s2)"
    and label: "(case uc_apparmor_profile self of Some l \<Rightarrow> set_label E p own l | None \<Rightarrow> ret ()) s2 = Some (Ok (), s3)"
    and caps: "apply_user_caps E p self s3 = Some (Ok (), s')"
    by (fastforce simp: UserCaps_apply_def run_simps)
  have "priv (m_log s3) = priv (m_log s2)"
    using _ label by (rule quietD) (intro emits_intros quiet_set_label)
  moreover have "\<exists>t. m_log s3 = m_log s2 @ t \<and> (\<forall>l. uc_apparmor_profile self = Some l
      \<longrightarrow> stored p (label_call own) (str ''changeprofile '' @ l) t)"
    using label by (auto simp: run_simps split: option.splits dest: set_label_stored)
  ultimately obtain t3 where "m_log s3 = m_log s2 @ t3" "priv t3 = []" "\<forall>l. uc_apparmor_profile self = Some l
      \<longrightarrow> stored p (label_call own) (str ''changeprofile '' @ l) t3" by auto
  with apply_cgroups_Ok [OF cg] enter_root_Ok [OF root] apply_user_caps_Ok [OF caps]
  show ?thesis unfolding took_on_def by (elim exE conjE) (intro exI conjI, simp_all)
qed

text \<open>The process then closes the descriptor it used for itself.\<close>

lemma apply_current_Ok:
  assumes "apply_current E p self s = Some (Ok u, s')"
  shows "\<exists>own t0 t r. m_log s' = m_log s @ t0 @ t @ [(p, Close (pf_fd own), r)] \<and> took_on p own self t"
proof -
  from assms obtain own s1 s2 where "PidFd_current E p s = Some (Ok own, s1)"
    and run: "UserCaps_apply E p own self s1 = Some (Ok u, s2)" and s': "s' = after E p (Close (pf_fd own)) s2"
    by (auto simp: apply_current_def run_simps)
  then obtain t0 where "m_log s1 = m_log s @ t0"
    by (auto simp: PidFd_current_def PidFd_open_def run_simps Let_def)
  with UserCaps_apply_Ok [OF run] s' show ?thesis by fastforce
qed

lemma emits_apply_current_actor: "emits (\<lambda>h e. ev_actor e = p) (apply_current E p self)"
  unfolding apply_current_def PidFd_current_def PidFd_open_def
  by (intro emits_intros emits_UserCaps_apply_actor) simp_all

text \<open>For evaluation.\<close>

lemmas inspect_eval = UserCaps_new_def get_status_def get_cgroups_def get_label_def read_file_def open_buffered_def
  open_file_def PidFd_fd_def owned_fd_def for_lines_def next_line_def next_split_def split_newline_def read_some_def
  CGroups_get_def has_v1_def CGroups_v2_def raw_os_error_def interrupted_def CGroups_new_def

lemmas apply_eval = apply_current_def PidFd_current_def PidFd_open_def UserCaps_apply_def apply_cgroups_def
  mount_namespace_def NsFd_openat_def RawNsFd_openat_def NsFd_setns_def RawNsFd_setns_def enter_chroot_def enter_cwd_def
  fd_cwd_def apply_user_caps_def SecureBits_get_current_def SecureBits_from_bits_def SecureBits_apply_def capset_def

section \<open>Properties\<close>


text \<open>An environment, for evaluation.\<close>

definition sample_caps :: UserCaps where
  "sample_caps = \<lparr>uc_pidfd = \<lparr>pf_fd = 11, pf_pid = 200\<rparr>, uc_apply_uids = True, uc_euid = 100000, uc_egid = 100000,
     uc_fsuid = 100000, uc_fsgid = 100000,
     uc_capabilities = \<lparr>inheritable = 0, permitted = 0x1ffffffffff, effective = 0x1ffffffffff\<rparr>,
     uc_umask = 18, uc_cgroup_v1_devices = None, uc_cgroup_v2_base = [], uc_cgroup_v2 = Some (str ''lxc''),
     uc_apparmor_profile = Some (str ''lxc'')\<rparr>"

definition sample_apply :: "resp list" where
  "sample_apply = [returns 6, returns 1, returns 0, returns 7, returns 0, returns 0, returns 0, returns 0, returns 0,
     returns 8, returns 0, returns 0, returns 9, returns 17]"


text \<open>Splitting the capability sets into the two 32-bit halves of the kernel interface loses
  nothing: the data given to \<^verbatim>\<open>capset(2)\<close> determines all 64 bits of all three sets.\<close>

theorem capset_data_lossless: "capset_data a = capset_data b \<longleftrightarrow> a = b"
proof
  have halves: "x = y" if "(ucast x :: u32) = ucast y" "(ucast (drop_bit 32 x) :: u32) = ucast (drop_bit 32 y)"
    for x y :: u64
  proof (rule bit_eqI)
    fix n
    assume "possible_bit TYPE(64 word) n"
    then have n: "n < 64" by simp
    show "bit x n = bit y n"
    proof (cases "n < 32")
      case True
      have "bit (ucast x :: u32) n = bit (ucast y :: u32) n" using that(1) by simp
      with True show ?thesis by (simp add: bit_simps)
    next
      case False
      have "bit (ucast (drop_bit 32 x) :: u32) (n - 32) = bit (ucast (drop_bit 32 y) :: u32) (n - 32)"
        using that(2) by simp
      moreover have "n - 32 < 32" using n by linarith
      ultimately show ?thesis using False by (simp add: bit_simps)
    qed
  qed
  assume "capset_data a = capset_data b"
  then show "a = b" by (cases a; cases b) (auto simp: capset_data_def intro: halves)
qed simp

text \<open>\<^verbatim>\<open>get_label\<close> reads the whole attribute file, however it is cut into chunks, and returns
  its contents up to the first blank or newline (dropping the mode, as in \<^verbatim>\<open>profile (enforce)\<close>); an
  empty file is an error. The file is closed afterwards.\<close>

theorem get_label_reads:
  assumes "proc_file E p self (str ''attr/current'') bs s"
  shows "\<exists>fd s'. get_label E p self s = Some (
     if bs = [] then Err (KindErr UnexpectedEof) else Ok (Some (takeWhile (\<lambda>c. c \<noteq> 32 \<and> c \<noteq> 10) bs)),
     after E p (Close fd) s')"
proof -
  let ?c = "Openat (pf_fd self) (str ''attr/current'') O_CLOEXEC 0"
  let ?fd = "r_ret (answer E p ?c s)"
  from assms obtain cs where fd: "?fd \<noteq> -1" and bs: "bs = concat cs"
    and cs: "serves E p ?fd cs (m_world (after E p ?c s))"
    by (auto simp: proc_file_def Let_def simp del: str_Cons)
  have "open_file E p self (str ''attr/current'') (O_RDONLY OR O_CLOEXEC) 0 s = Some (Ok ?fd, after E p ?c s)"
    using fd by (simp add: open_file_def PidFd_fd_def c_result_def bindR_def sys_eq owned_fd_def ret_def del: str_Cons)
  moreover obtain s' where "read_to_end E p ?fd (after E p ?c s) = Some (Ok bs, s')"
    using read_to_end_serves [OF cs] bs by blast
  ultimately have "read_file E p self (str ''attr/current'') s = Some (Ok bs, after E p (Close ?fd) s')"
    by (simp add: read_file_def bindR_def owning_def ensuring_def drop_fd_def sys_eq ret_def del: str_Cons)
  then have "get_label E p self s = Some (
     if bs = [] then Err (KindErr UnexpectedEof) else Ok (Some (takeWhile (\<lambda>c. c \<noteq> 32 \<and> c \<noteq> 10) bs)),
     after E p (Close ?fd) s')"
    by (simp add: get_label_def matchR_def truncate_label_def ret_def raise_def del: str_Cons)
  then show ?thesis by blast
qed

theorem get_label_reads_witness:
  "\<exists>fd s'. get_label script Daemon \<lparr>pf_fd = 11, pf_pid = 200\<rparr>
      (boot [returns 7, delivers (str ''lxc-100 (enf''), delivers (str ''orce)''), returns 0, returns 0])
    = Some (Ok (Some (str ''lxc-100'')), after script Daemon (Close fd) s')"
proof -
  have "proc_file script Daemon \<lparr>pf_fd = 11, pf_pid = 200\<rparr> (str ''attr/current'') (str ''lxc-100 (enforce)'')
     (boot [returns 7, delivers (str ''lxc-100 (enf''), delivers (str ''orce)''), returns 0, returns 0])"
    by (simp add: proc_file_def answer_def after_def sample_defs,
        intro exI [of _ "[str ''lxc-100 (enf'', str ''orce)'']"]) simp
  from get_label_reads [OF this] show ?thesis by simp
qed

end
