(* ===== verification/Fork.thy ===== *)
theory Fork
  imports Io Syscall
begin

text \<open>
  \<^verbatim>\<open>src/fork.rs\<close>: a system call is run in a forked child, which reports its result through a
  pipe as a packed 16-byte record. The child's run is the part of the model between the
  \<^verbatim>\<open>fork(2)\<close> and the parent's next step; it acts under its own name \<open>Child pid\<close>. The closure
  owns the descriptors \<open>captured\<close>, which both processes drop.
\<close>

section \<open>The result record\<close>

record ForkData =
  f_val :: i64
  f_error :: i32
  f_failure :: i32

definition sizeof_ForkData :: nat where "sizeof_ForkData = 16"

definition enc_ForkData :: "ForkData \<Rightarrow> bytes" where
  "enc_ForkData d = le_bytes 8 (f_val d) @ le_bytes 4 (f_error d) @ le_bytes 4 (f_failure d)"

definition dec_ForkData :: "bytes \<Rightarrow> ForkData" where
  "dec_ForkData bs = \<lparr>f_val = le_word (chunk 0 8 bs), f_error = le_word (chunk 8 4 bs),
     f_failure = le_word (chunk 12 4 bs)\<rparr>"

interpretation ForkData_codec: fixed_codec enc_ForkData dec_ForkData sizeof_ForkData "\<lambda>_. True"
proof unfold_locales
  fix d
  show "length (enc_ForkData d) = sizeof_ForkData"
    by (simp add: enc_ForkData_def sizeof_ForkData_def)
  show "dec_ForkData (enc_ForkData d) = d"
    by (cases d) (simp add: dec_ForkData_def enc_ForkData_def chunk_def)
next
  fix bs :: bytes
  assume "length bs = sizeof_ForkData"
  then show "enc_ForkData (dec_ForkData bs) = bs"
    by (simp add: enc_ForkData_def dec_ForkData_def byte_simps sizeof_ForkData_def)
qed simp

text \<open>What the child stores for the outcome of the closure, and what the parent makes of it.\<close>

definition fork_data :: "SyscallStatus + io_error \<Rightarrow> ForkData" where
  "fork_data out = (case out of
       Inl (StatusOk val) \<Rightarrow> \<lparr>f_val = val, f_error = 0, f_failure = 0\<rparr>
     | Inl (StatusErr error) \<Rightarrow> \<lparr>f_val = -1, f_error = error, f_failure = 0\<rparr>
     | Inr err \<Rightarrow> \<lparr>f_val = -1, f_error = -1,
         f_failure = (case raw_os_error err of Some n \<Rightarrow> n | None \<Rightarrow> EFAULT)\<rparr>)"

definition fork_result :: "ForkData \<Rightarrow> (io_error, SyscallStatus) res" where
  "fork_result data =
     (if f_failure data \<noteq> 0 then Err (OsErr (f_failure data))
      else if f_error data = 0 then Ok (StatusOk (f_val data))
      else Ok (StatusErr (f_error data)))"

section \<open>Child and parent\<close>

definition catch_unwind :: "('w, 'e, 'a) io \<Rightarrow> ('w, 'e, 'a) io \<Rightarrow> ('w, 'e, 'a) io" where
  "catch_unwind m h = (\<lambda>s. case m s of None \<Rightarrow> None
     | Some (r, s') \<Rightarrow> (case r of Panic \<Rightarrow> h s' | _ \<Rightarrow> Some (r, s')))"

text \<open>Inside \<^verbatim>\<open>catch_unwind\<close>: run the closure, write the record, choose the exit status.
  A panic drops what is still owned.\<close>

definition child_report ::
  "'w env \<Rightarrow> actor \<Rightarrow> int \<Rightarrow> ('w, io_error, SyscallStatus) io \<Rightarrow> int list \<Rightarrow> ('w, io_error, int) io" where
  "child_report E p pipe_w func captured =
     bindR (on_failure (matchR (set_fd_nonblocking E p pipe_w False) ret (\<lambda>_. panic))
       (drop_fds E p (pipe_w # captured) :: ('w, io_error, unit) io)) (\<lambda>_.
     on_failure (
       bindR (matchR (ensuring func (drop_fds E p captured :: ('w, io_error, unit) io))
         (\<lambda>st. ret (Inl st)) (\<lambda>err. ret (Inr err))) (\<lambda>out.
       matchR (write_all E p pipe_w (enc_ForkData (fork_data out))) (\<lambda>_. ret 0) (\<lambda>_. ret 1)))
     (drop_fd E p pipe_w :: ('w, io_error, unit) io))"

definition child_main ::
  "'w env \<Rightarrow> actor \<Rightarrow> int \<Rightarrow> int \<Rightarrow> ('w, io_error, SyscallStatus) io \<Rightarrow> int list \<Rightarrow> ('w, io_error, unit) io" where
  "child_main E p pipe_r pipe_w func captured =
     bindR (drop_fd E p pipe_r) (\<lambda>_.
     bindR (catch_unwind (child_report E p pipe_w func captured) (ret (-1))) (\<lambda>status.
     bindR (sys E p (Exit status)) (\<lambda>_. ret ())))"

record Fork =
  fk_pid :: int
  fk_out :: int

definition Fork_new ::
  "'w env \<Rightarrow> actor \<Rightarrow> (actor \<Rightarrow> ('w, io_error, SyscallStatus) io) \<Rightarrow> int list
     \<Rightarrow> ('w, io_error, Fork) io" where
  "Fork_new E p func captured =
     ensuring (
       bindR (pipe_fds E p) (\<lambda>(pipe_r, pipe_w).
       bindR (on_failure (c_result E p Fork) (drop_fds E p [pipe_w, pipe_r] :: ('w, io_error, unit) io)) (\<lambda>r.
       let pid = r_ret r in
       bindR (child_main E (Child pid) pipe_r pipe_w (func (Child pid)) captured) (\<lambda>_.
       bindR (drop_fd E p pipe_w) (\<lambda>_.
       matchR (Pipe_try_from E p pipe_r)
         (\<lambda>out. ret \<lparr>fk_pid = pid, fk_out = out\<rparr>)
         (\<lambda>err. bindR (sys E p (Kill pid 9)) (\<lambda>_. raise err)))))))
     (drop_fds E p captured :: ('w, io_error, unit) io)"

text \<open>\<^verbatim>\<open>wait\<close>: the status word starts at \<open>-1\<close> and is what \<^verbatim>\<open>waitpid(2)\<close> stored last.\<close>

definition Fork_wait :: "'w env \<Rightarrow> actor \<Rightarrow> int \<Rightarrow> ('w, io_error, unit) io" where
  "Fork_wait E p my_pid =
     bindR (loopM (\<lambda>status.
       matchR (c_result E p (Waitpid my_pid))
         (\<lambda>r. let status' = (le_word (fill (le_bytes 4 status) (r_data r)) :: i32)
              in if r_ret r = my_pid then ret (Inr status') else ret (Inl status'))
         (\<lambda>err. if interrupted err then ret (Inl status) else raise err)) (-1)) (\<lambda>status.
     if status \<noteq> 0 then raise (KindErr Other) else ret ())"

definition get_result :: "'w env \<Rightarrow> actor \<Rightarrow> int \<Rightarrow> ('w, io_error, SyscallStatus) io" where
  "get_result E p out =
     bindR (read_exact E p out sizeof_ForkData) (\<lambda>bs. of_res (fork_result (dec_ForkData bs)))"

text \<open>\<^verbatim>\<open>forking_syscall\<close>, with the destructor of \<^verbatim>\<open>Fork\<close>: a child that was not waited for is
  waited for when the value is dropped, then the pipe is closed.\<close>

definition forking_syscall ::
  "'w env \<Rightarrow> actor \<Rightarrow> (actor \<Rightarrow> ('w, io_error, SyscallStatus) io) \<Rightarrow> int list
     \<Rightarrow> ('w, io_error, SyscallStatus) io" where
  "forking_syscall E p func captured =
     bindR (Fork_new E p func captured) (\<lambda>fork.
     owning E p (fk_out fork) (
       bindR (on_failure (get_result E p (fk_out fork)) (Fork_wait E p (fk_pid fork))) (\<lambda>result.
       bindR (Fork_wait E p (fk_pid fork)) (\<lambda>_.
       ret result))))"

section \<open>The record carries the result\<close>

text \<open>Success, an error number and a failure with an OS error come through unchanged; a failure
  without one arrives as \<^verbatim>\<open>EFAULT\<close>.\<close>

definition reported :: "SyscallStatus + io_error \<Rightarrow> (io_error, SyscallStatus) res" where
  "reported out = (case out of Inl st \<Rightarrow> Ok st
     | Inr (OsErr n) \<Rightarrow> Err (OsErr n) | Inr (KindErr k) \<Rightarrow> Err (OsErr EFAULT))"

lemma fork_result_data:
  assumes "out \<noteq> Inl (StatusErr 0)" and "out \<noteq> Inr (OsErr 0)"
  shows "fork_result (dec_ForkData (enc_ForkData (fork_data out))) = reported out"
  using assms
  by (auto simp: ForkData_codec.dec_enc fork_result_def fork_data_def reported_def raw_os_error_def
    split: sum.splits SyscallStatus.splits io_error.splits)

section \<open>Calls made\<close>

lemma emits_catch_unwind [emits_intros]:
  assumes "emits P m" and "emits P h"
  shows "emits P (catch_unwind m h)"
proof -
  have "\<exists>t. m_log s' = m_log s @ t \<and> along P (m_log s) t" if "catch_unwind m h s = Some (r, s')" for s r s'
  proof -
    from that obtain s1 r1 where run: "m s = Some (r1, s1)" "s' = s1 \<or> h s1 = Some (r, s')"
      by (auto simp: catch_unwind_def split: option.splits res.splits)
    obtain t1 where "m_log s1 = m_log s @ t1" "along P (m_log s) t1"
      using assms(1) run(1) by (rule emitsD)
    with run(2) assms(2) show ?thesis by (fastforce elim: emitsD)
  qed
  then show ?thesis by (simp add: emits_def)
qed

text \<open>The parent's side: pipe, fork, reading the result, reaping.\<close>

definition forking :: "call \<Rightarrow> bool" where
  "forking c = (case c of Pipe2 _ \<Rightarrow> True | Fork \<Rightarrow> True | Waitpid _ \<Rightarrow> True | Kill _ _ \<Rightarrow> True | _ \<Rightarrow> False)"

lemma forking_simps [simp]:
  "forking (Pipe2 f)" "forking Fork" "forking (Waitpid pid)" "forking (Kill pid sig)"
  by (simp_all add: forking_def)

text \<open>The child's side around the closure.\<close>

definition reporting :: "call \<Rightarrow> bool" where
  "reporting c = (case c of Close _ \<Rightarrow> True | FcntlGetfl _ \<Rightarrow> True | FcntlSetfl _ _ \<Rightarrow> True
     | Write _ _ \<Rightarrow> True | Exit _ \<Rightarrow> True | _ \<Rightarrow> False)"

lemma reporting_simps [simp]:
  "reporting (Close fd)" "reporting (FcntlGetfl fd)" "reporting (FcntlSetfl fd fl)"
  "reporting (Write fd bs)" "reporting (Exit n)"
  by (simp_all add: reporting_def)

lemma emits_child_main [emits_intros]:
  "emits P func \<Longrightarrow> (\<And>h c r. reporting c \<Longrightarrow> P h (p, c, r)) \<Longrightarrow> emits P (child_main E p pr pw func captured)"
  unfolding child_main_def child_report_def by (intro emits_intros) simp_all

lemma emits_Fork_wait [emits_intros]:
  "(\<And>h c r. forking c \<Longrightarrow> P h (p, c, r)) \<Longrightarrow> emits P (Fork_wait E p pid)"
  unfolding Fork_wait_def by (intro emits_intros) simp_all

lemma emits_forking_syscall [emits_intros]:
  assumes "\<And>h c r. polling c \<Longrightarrow> P h (p, c, r)" and "\<And>h c r. forking c \<Longrightarrow> P h (p, c, r)"
    and "\<And>h pid c r. reporting c \<Longrightarrow> P h (Child pid, c, r)" and "\<And>pid. emits P (func (Child pid))"
  shows "emits P (forking_syscall E p func captured)"
  unfolding forking_syscall_def Fork_new_def Pipe_try_from_def get_result_def
  by (intro emits_intros) (simp_all add: assms)

section \<open>Properties\<close>

text \<open>The result record carries the outcome of the child's closure to the parent: a value, an
  error number of the system call, and a failure with an OS error arrive unchanged, a failure without
  an error number arrives as \<^verbatim>\<open>EFAULT\<close>. (An error number 0 has no representation; the kernel reports
  none.)\<close>

theorem fork_record_roundtrip:
  assumes "out \<noteq> Inl (StatusErr 0)" and "out \<noteq> Inr (OsErr 0)"
  shows "length (enc_ForkData (fork_data out)) = 16
    \<and> fork_result (dec_ForkData (enc_ForkData (fork_data out))) = reported out"
  using fork_result_data [OF assms] ForkData_codec.length_enc by (simp add: sizeof_ForkData_def)

theorem fork_record_roundtrip_witness:
  "fork_result (dec_ForkData (enc_ForkData (fork_data (Inr (KindErr Other))))) = Err (OsErr EFAULT)"
  using fork_record_roundtrip [of "Inr (KindErr Other)"] by (simp add: reported_def)

text \<open>Reaping. \<^verbatim>\<open>wait\<close> makes no other call than \<^verbatim>\<open>waitpid\<close> on its child, and it succeeds only when
  the last of them returned the child with exit status 0.\<close>

lemma Fork_wait_reaps:
  assumes "Fork_wait E p pid s = Some (r, s')"
  shows "\<exists>t x. m_log s' = m_log s @ t @ [(p, Waitpid pid, x)]
    \<and> list_all (\<lambda>e. ev_actor e = p \<and> ev_call e = Waitpid pid) t \<and> r \<noteq> Panic
    \<and> (r_ret x = pid \<or> r_ret x = -1 \<and> r_errno x \<noteq> EINTR) \<and> (r = Ok () \<longrightarrow> r_ret x = pid \<and> (length (r_data x) = 4 \<longrightarrow> le_word (r_data x) = (0 :: i32)))"
proof -
  let ?body = "\<lambda>status :: i32.
       matchR (c_result E p (Waitpid pid))
         (\<lambda>r. let status' = (le_word (fill (le_bytes 4 status) (r_data r)) :: i32)
              in if r_ret r = pid then ret (Inr status') else ret (Inl status'))
         (\<lambda>err. if interrupted err then ret (Inl status) else raise err)"
  define I where "I status s1 \<longleftrightarrow> (\<exists>t. m_log s1 = m_log s @ t
     \<and> list_all (\<lambda>e. ev_actor e = p \<and> ev_call e = Waitpid pid) t)" for status :: i32 and s1 :: "'a mach"
  from assms obtain y where loop: "loopM ?body (-1) s = Some (y, s')"
    and r: "r = (case y of Ok status \<Rightarrow> if status \<noteq> 0 then Err (KindErr Other) else Ok () | Err e \<Rightarrow> Err e | Panic \<Rightarrow> Panic)"
    unfolding Fork_wait_def by (auto simp: bindR_run run_simps split: if_splits)
  have step: "I b' s2" if "I b s1" "?body b s1 = Some (Ok (Inl b'), s2)" for b s1 b' s2
    using that by (auto simp: I_def run_simps Let_def split: if_splits)
  have start: "I (-1) s" by (simp add: I_def)
  obtain b s1 z where inv: "I b s1" and last: "?body b s1 = Some (z, s')" "ends_loop z y"
    by (rule loopM_last [where I = I, OF loop start]) (rule step)
  from inv obtain t where t: "m_log s1 = m_log s @ t" "list_all (\<lambda>e. ev_actor e = p \<and> ev_call e = Waitpid pid) t"
    by (auto simp: I_def)
  let ?x = "answer E p (Waitpid pid) s1"
  have "s' = after E p (Waitpid pid) s1" "y \<noteq> Panic" "r_ret ?x = pid \<or> r_ret ?x = -1 \<and> r_errno ?x \<noteq> EINTR"
    and "\<And>st. y = Ok st \<Longrightarrow> r_ret ?x = pid \<and> st = le_word (fill (le_bytes 4 b) (r_data ?x))"
    using last by (cases y; auto simp: run_simps interrupted_def Let_def split: if_splits)+
  with t r show ?thesis
    by (intro exI [of _ t] exI [of _ ?x]) (auto split: res.splits if_splits)
qed

text \<open>A whole run: the child returns 5, the parent reads the record and reaps it.\<close>

definition sample_fork :: "resp list" where
  "sample_fork = [(returns 0)\<lparr>r_fds := [8, 9]\<rparr>, returns 42,
     returns 0, returns 0, returns 0, returns 16, returns 0,
     returns 0, returns 0, returns 1, delivers [5, 0, 0, 0, 0, 0, 0, 0, 0, 0, 0, 0, 0, 0, 0, 0],
     (returns 42)\<lparr>r_data := [0, 0, 0, 0]\<rparr>, returns 0]"

lemma enc_ForkData_five: "enc_ForkData \<lparr>f_val = 5, f_error = 0, f_failure = 0\<rparr>
    = [5, 0, 0, 0, 0, 0, 0, 0, 0, 0, 0, 0, 0, 0, 0, 0]"
  by (simp add: enc_ForkData_def le_bytes_def upt_rec)

lemma dec_ForkData_five: "dec_ForkData [5, 0, 0, 0, 0, 0, 0, 0, 0, 0, 0, 0, 0, 0, 0, 0]
    = \<lparr>f_val = 5, f_error = 0, f_failure = 0\<rparr>"
  using ForkData_codec.dec_enc [of "\<lparr>f_val = 5, f_error = 0, f_failure = 0\<rparr>"] by (simp add: enc_ForkData_five)

lemmas fork_eval = Fork_new_def pipe_fds_def closing_on_error_def owned_fd_def child_main_def child_report_def
  set_fd_nonblocking_def nix_result_def catch_unwind_def write_all_def fork_data_def Pipe_try_from_def async_fd_new_def
  tokio_result_def loopM.simps io_defs sample_defs Let_def

lemmas fork_run_eval = forking_syscall_def get_result_def read_exact_def poll_read_def Fork_wait_def fork_result_def
  sizeof_ForkData_def enc_ForkData_five dec_ForkData_five fill_def fork_eval

text \<open>What a closure's end means for the report.\<close>

definition outcome :: "(io_error, SyscallStatus) res \<Rightarrow> (SyscallStatus + io_error) option" where
  "outcome x = (case x of Ok st \<Rightarrow> Some (Inl st) | Err e \<Rightarrow> Some (Inr e) | Panic \<Rightarrow> None)"

lemma report_run:
  fixes E :: "'w env" and func :: "('w, io_error, SyscallStatus) io" and r :: "(io_error, int) res"
  assumes "bindR (matchR func (\<lambda>st. ret (Inl st)) (\<lambda>err. ret (Inr err))) (\<lambda>out.
       matchR (write_all E p pipe_w (enc_ForkData (fork_data out))) (\<lambda>_. ret 0) (\<lambda>_. ret (1 :: int))) s = Some (r, s')"
  shows "r = Panic \<or> r = Ok 1 \<or> (r = Ok 0 \<and> (\<exists>x s1 out t. func s = Some (x, s1) \<and> outcome x = Some out
     \<and> m_log s' = m_log s1 @ t \<and> concat (map (written_bytes p pipe_w) t) = enc_ForkData (fork_data out)))"
proof -
  from assms consider (panic) "r = Panic"
    | (out) out s1 where "matchR func (\<lambda>st. ret (Inl st)) (\<lambda>err. ret (Inr err)) s = Some (Ok out :: (io_error, _) res, s1)"
        "matchR (write_all E p pipe_w (enc_ForkData (fork_data out))) (\<lambda>_. ret 0) (\<lambda>_. ret (1 :: int)) s1 = Some (r, s')"
    by (auto simp: bindR_run matchR_run ret_run)
  then show ?thesis
  proof cases
    case out
    from out(1) obtain x where x: "func s = Some (x, s1)" "outcome x = Some out"
      by (auto simp: matchR_run ret_run outcome_def)
    from out(2) consider "r = Panic" | "r = Ok 1"
      | u where "r = Ok 0" "write_all E p pipe_w (enc_ForkData (fork_data out)) s1 = Some (Ok u, s')"
      by (auto simp: matchR_run ret_run)
    then show ?thesis
    proof cases
      case 3
      from write_all_bytes [OF 3(2)] x 3(1) show ?thesis by blast
    qed auto
  qed simp
qed

text \<open>C19: The child always ends by exiting. When its exit status is 0, its last calls before that
  wrote exactly the 16-byte record of its closure's outcome into the pipe; a panic in the closure, or
  a failed write, gives another status.\<close>

theorem child_reports:
  fixes E :: "'w env" and func :: "('w, io_error, SyscallStatus) io"
  assumes run: "child_main E p pipe_r pipe_w func captured s = Some (r, s')"
  shows "\<exists>status s3. s' = after E p (Exit status) s3 \<and> (status = 0 \<longrightarrow>
     (\<exists>s1 x s2 out t. ensuring func (drop_fds E p captured :: ('w, io_error, unit) io) s1 = Some (x, s2)
        \<and> outcome x = Some out \<and> m_log s3 = m_log s2 @ t
        \<and> concat (map (written_bytes p pipe_w) t) = enc_ForkData (fork_data out)))"
proof -
  let ?s = "after E p (Close pipe_r) s"
  let ?func = "ensuring func (drop_fds E p captured :: ('w, io_error, unit) io)"
  from run obtain x s3 where report: "child_report E p pipe_w func captured ?s = Some (x, s3)"
    and exit: "case x of Ok status \<Rightarrow> s' = after E p (Exit status) s3
      | Err e \<Rightarrow> s' = s3 | Panic \<Rightarrow> s' = after E p (Exit (-1)) s3"
    by (auto simp: child_main_def bindR_run run_simps catch_unwind_def split: option.splits res.splits)
  have "x = Panic \<or> x = Ok 1 \<or> (x = Ok 0 \<and> (\<exists>s1 y s2 out t. ?func s1 = Some (y, s2) \<and> outcome y = Some out
     \<and> m_log s3 = m_log s2 @ t \<and> concat (map (written_bytes p pipe_w) t) = enc_ForkData (fork_data out)))"
    (is "?P x s3")
  proof -
    let ?body = "bindR (matchR ?func (\<lambda>st. ret (Inl st)) (\<lambda>err. ret (Inr err))) (\<lambda>out.
       matchR (write_all E p pipe_w (enc_ForkData (fork_data out))) (\<lambda>_. ret 0) (\<lambda>_. ret (1 :: int)))"
    from report have "x = Panic \<or> (\<exists>s1. on_failure ?body (drop_fd E p pipe_w :: ('w, io_error, unit) io) s1 = Some (x, s3))"
      unfolding child_report_def by (auto simp: bindR_run on_failure_run [of "matchR _ _ _"] matchR_run ret_run panic_run)
    then obtain s1 s2 where "x = Panic \<or> (?body s1 = Some (x, s2) \<and> ((\<exists>a. x = Ok a) \<longrightarrow> s2 = s3))"
      by (auto simp: on_failure_run)
    then consider "x = Panic" | "?body s1 = Some (x, s2)" "(\<exists>a. x = Ok a) \<longrightarrow> s2 = s3" by blast
    then show ?thesis
    proof cases
      case 2
      from report_run [OF 2(1)] 2(2) show ?thesis by blast
    qed simp
  qed
  with exit show ?thesis
    by (intro exI [of _ "case x of Ok n \<Rightarrow> n | _ \<Rightarrow> -1"] exI [of _ s3]) (auto, blast)
qed

theorem child_reports_witness:
  "\<exists>s' status s3. child_main script (Child 42) 8 9 (ret (StatusOk 5)) []
       (boot [returns 0, returns 0, returns 0, returns 16, returns 0]) = Some (Ok (), s')
     \<and> s' = after script (Child 42) (Exit status) s3"
proof -
  have "\<exists>s'. child_main script (Child 42) 8 9 (ret (StatusOk 5)) []
       (boot [returns 0, returns 0, returns 0, returns 16, returns 0]) = Some (Ok (), s')"
    by (simp add: fork_eval enc_ForkData_five)
  then obtain s' where run: "child_main script (Child 42) 8 9 (ret (StatusOk 5)) []
       (boot [returns 0, returns 0, returns 0, returns 16, returns 0]) = Some (Ok (), s')" by blast
  from child_reports [OF run] run show ?thesis by blast
qed

end
