(* ===== verification/Handler.thy ===== *)
theory Handler
  imports Lxcseccomp UserCaps Fork
begin

text \<open>
  The contract between \<^verbatim>\<open>src/client.rs\<close> and the system call handlers of
  \<^verbatim>\<open>src/sys_mknod.rs\<close> and \<^verbatim>\<open>src/sys_quotactl.rs\<close>. The daemon runs with all privileges of
  the host; the containers it serves do not. What keeps that safe: the daemon process itself makes
  no privileged call; what a container asked for is run by a forked child, and only after the child
  took on the complete environment of the calling process, as the daemon read it from
  \<^verbatim>\<open>/proc\<close>. The locale \<open>syscall_handler\<close> states this as a property of every event a handler
  adds to the log.
\<close>

section \<open>Confinement\<close>

text \<open>The calls that act on the container's behalf, as opposed to those that change environment.\<close>

definition effect :: "call \<Rightarrow> bool" where
  "effect c = (case c of Mknodat _ _ _ _ \<Rightarrow> True | call.Quotactl _ _ _ _ \<Rightarrow> True | _ \<Rightarrow> False)"

lemma effect_simps [simp]:
  "effect (Mknodat d f m dev)" "effect (call.Quotactl cmd sp i a)" "\<not> effect (Pwrite fd bs ofs)"
  by (simp_all add: effect_def)

lemma effect_privileged: "effect c \<Longrightarrow> privileged c"
  by (simp add: effect_def privileged_def split: call.splits)

lemma inspecting_not_effect: "inspecting c \<Longrightarrow> \<not> effect c"
  using effect_privileged inspecting_not_privileged by blast

lemma messaging_not_effect: "messaging c \<Longrightarrow> \<not> effect c"
  using effect_privileged messaging_not_privileged by blast

lemma polling_not_effect: "polling c \<Longrightarrow> \<not> effect c"
  using effect_privileged polling_not_privileged by blast

lemma forking_not_privileged: "forking c \<Longrightarrow> \<not> privileged c"
  by (simp add: forking_def privileged_def split: call.splits)

lemma reporting_not_effect: "reporting c \<Longrightarrow> \<not> effect c"
  by (simp add: reporting_def effect_def split: call.splits)

text \<open>The last thing that happened before is that the process \<open>q\<close> took on \<open>caps\<close>, completely, and
  closed the descriptor it used for that.\<close>

definition entered :: "actor \<Rightarrow> UserCaps \<Rightarrow> event list \<Rightarrow> bool" where
  "entered q caps h \<longleftrightarrow> (\<exists>h0 own t r. h = h0 @ t @ [(q, Close (pf_fd own), r)] \<and> took_on q own caps t)"

text \<open>\<open>caps\<close> is what the daemon found out about the sender of \<open>msg\<close>.\<close>

definition caps_of :: "'w env \<Rightarrow> ProxyMessageBuffer \<Rightarrow> UserCaps \<Rightarrow> bool" where
  "caps_of E msg caps \<longleftrightarrow>
     (\<exists>pidfd s s'. b_pid_fd msg = Some pidfd \<and> UserCaps_new E Daemon pidfd s = Some (Ok caps, s'))"

definition confined :: "(UserCaps \<Rightarrow> bool) \<Rightarrow> (call \<Rightarrow> bool) \<Rightarrow> event list \<Rightarrow> event \<Rightarrow> bool" where
  "confined who allowed h e \<longleftrightarrow> (case ev_actor e of
       Daemon \<Rightarrow> \<not> privileged (ev_call e)
     | Child pid \<Rightarrow> effect (ev_call e) \<longrightarrow>
         allowed (ev_call e) \<and> (\<exists>caps. who caps \<and> entered (Child pid) caps h))"

lemma confined_mono:
  "confined who allowed h e \<Longrightarrow> (\<And>x. who x \<Longrightarrow> who' x) \<Longrightarrow> (\<And>c. allowed c \<Longrightarrow> allowed' c)
     \<Longrightarrow> confined who' allowed' h e"
  by (auto simp: confined_def split: actor.splits)

lemma confined_Daemon [simp]: "confined who allowed h (Daemon, c, r) \<longleftrightarrow> \<not> privileged c"
  by (simp add: confined_def)

lemma confined_harmless: "\<not> effect c \<Longrightarrow> confined who allowed h (Child pid, c, r)"
  by (simp add: confined_def)

text \<open>Sending and receiving is left to the client loop.\<close>

definition message_call :: "call \<Rightarrow> bool" where
  "message_call c = (case c of Sendmsg _ _ \<Rightarrow> True | Recvmsg _ _ _ \<Rightarrow> True | _ \<Rightarrow> False)"

lemma not_message_call:
  "inspecting c \<Longrightarrow> \<not> message_call c" "polling c \<Longrightarrow> \<not> message_call c" "forking c \<Longrightarrow> \<not> message_call c"
  "reporting c \<Longrightarrow> \<not> message_call c" "effect c \<Longrightarrow> \<not> message_call c"
  by (simp_all add: inspecting_def polling_def forking_def reporting_def effect_def message_call_def
    split: call.splits)

abbreviation silent :: "event list \<Rightarrow> event \<Rightarrow> bool" where
  "silent h e \<equiv> \<not> message_call (ev_call e)"

lemmas harmless_calls = inspecting_not_effect messaging_not_effect polling_not_effect reporting_not_effect
  polling_not_privileged inspecting_not_privileged messaging_not_privileged forking_not_privileged

lemma msg_pid_fd_Ok [run_simps]: "msg_pid_fd msg s = Some (Ok pidfd, s') \<longleftrightarrow> b_pid_fd msg = Some pidfd \<and> s' = s"
  by (simp add: msg_pid_fd_def run_simps)

section \<open>The child\<close>

text \<open>Taking on the environment makes no call on the container's behalf.\<close>

lemma emits_apply_current:
  "emits (\<lambda>h e. ev_actor e = p \<and> \<not> effect (ev_call e) \<and> silent h e) (apply_current E p self)"
proof -
  have "emits (\<lambda>h e. ev_actor e = p \<and> \<not> effect (ev_call e) \<and> silent h e) (UserCaps_apply E p own self)" for own
    unfolding UserCaps_apply_def apply_cgroups_def enter_cgroup_def fs_write_def mount_namespace_def
      NsFd_setns_def RawNsFd_setns_def enter_chroot_def enter_cwd_def set_label_def
      apply_user_caps_def SecureBits_get_current_def SecureBits_apply_def capset_def
    by (intro emits_intros) (simp_all add: harmless_calls not_message_call, simp_all add: effect_def message_call_def)
  then show ?thesis
    unfolding apply_current_def PidFd_current_def PidFd_open_def
    by (intro emits_intros) (simp_all add: effect_def message_call_def)
qed

text \<open>The shape of every closure: enter the environment, make the call, go on with its result.\<close>

lemma emits_confined_child:
  assumes who: "who caps" and allowed: "allowed c"
    and k: "\<And>r. emits (confined who allowed) (k r)"
  shows "emits (confined who allowed)
    (bindR (apply_current E (Child pid) caps) (\<lambda>_. sc_libc_try E (Child pid) c k))"
  unfolding emits_def
proof (intro allI impI)
  let ?C = "confined who allowed"
  fix s r s'
  assume run: "bindR (apply_current E (Child pid) caps) (\<lambda>_. sc_libc_try E (Child pid) c k) s = Some (r, s')"
  have enter: "emits ?C (apply_current E (Child pid) caps)"
    using emits_apply_current by (rule emits_mono) (auto simp: confined_def)
  show "\<exists>t. m_log s' = m_log s @ t \<and> along ?C (m_log s) t"
  proof (cases "\<exists>u s1. apply_current E (Child pid) caps s = Some (Ok u, s1)")
    case True
    then obtain s1 where s1: "apply_current E (Child pid) caps s = Some (Ok (), s1)" by auto
    obtain t1 where t1: "m_log s1 = m_log s @ t1" "along ?C (m_log s) t1" using enter s1 by (rule emitsD)
    have "entered (Child pid) caps (m_log s1)"
      using apply_current_Ok [OF s1] unfolding entered_def by (metis append_assoc)
    then have "?C (m_log s1) (Child pid, c, answer E (Child pid) c s1)"
      using who allowed by (auto simp: confined_def)
    moreover from run s1 have "s' = after E (Child pid) c s1
        \<or> k (answer E (Child pid) c s1) (after E (Child pid) c s1) = Some (r, s')"
      by (auto simp: sc_libc_try_def bindR_run run_simps split: if_splits)
    then obtain t2 where "m_log s' = m_log s1 @ (Child pid, c, answer E (Child pid) c s1) # t2"
      "along ?C (m_log (after E (Child pid) c s1)) t2"
      using emitsD [OF k] by (metis Cons_eq_appendI along.simps(1) append.left_neutral append_assoc m_log_after)
    ultimately show ?thesis using t1 by auto
  next
    case False
    with run obtain x where "apply_current E (Child pid) caps s = Some (x, s')"
      by (auto simp: bindR_run)
    with enter show ?thesis by (rule emitsD) blast
  qed
qed

text \<open>Running such a closure in a forked child.\<close>

lemma emits_confined_fork:
  assumes "\<And>pid. emits (confined who allowed) (func (Child pid))"
  shows "emits (confined who allowed) (forking_syscall E Daemon func captured)"
  using assms by (intro emits_intros) (simp_all add: confined_harmless harmless_calls)

lemma emits_silent_child:
  assumes "effect c" and "\<And>r. emits silent (k r)"
  shows "emits silent (bindR (apply_current E p caps) (\<lambda>_. sc_libc_try E p c k))"
proof -
  have "emits silent (apply_current E p caps)"
    using emits_apply_current by (rule emits_mono) simp
  then show ?thesis using assms by (intro emits_intros) (simp_all add: not_message_call)
qed

lemma emits_silent_fork:
  assumes "\<And>pid. emits silent (func (Child pid))"
  shows "emits silent (forking_syscall E Daemon func captured)"
  using assms by (intro emits_intros) (simp_all add: not_message_call)

section \<open>The contract\<close>

locale syscall_handler =
  fixes E :: "'w env"
    and handler :: "ProxyMessageBuffer \<Rightarrow> ('w, error, SyscallStatus) io"
    and allowed :: "ProxyMessageBuffer \<Rightarrow> call \<Rightarrow> bool"
  assumes confines: "emits (confined (caps_of E msg) (allowed msg)) (handler msg)"
    and silences: "emits silent (handler msg)"
begin

lemma confines_general:
  assumes "\<And>c. allowed msg c \<Longrightarrow> ok c"
  shows "emits (confined (\<lambda>caps. \<exists>msg. caps_of E msg caps) ok) (handler msg)"
  using confines by (rule emits_mono, elim confined_mono) (auto simp: assms)

text \<open>Whatever a run of the handler did for the container, a child did it, the handler's rules
  allow it, and the child had entered the sender's environment.\<close>

lemma effect_by_confined_child:
  assumes "handler msg s = Some (r, s')" and "m_log s' = m_log s @ t @ e # u" and "effect (ev_call e)"
  shows "\<exists>pid caps. ev_actor e = Child pid \<and> allowed msg (ev_call e) \<and> caps_of E msg caps
    \<and> entered (Child pid) caps (m_log s @ t)"
proof -
  from confines assms(1) obtain v where "m_log s' = m_log s @ v"
    "along (confined (caps_of E msg) (allowed msg)) (m_log s) v" by (rule emitsD)
  with assms(2) have "confined (caps_of E msg) (allowed msg) (m_log s @ t) e"
    by (auto dest: alongD)
  with assms(3) show ?thesis
    by (cases "ev_actor e") (auto simp: confined_def dest: effect_privileged)
qed

end

end
