(* ===== verification/SysMknod.thy ===== *)
theory SysMknod
  imports Handler
begin

text \<open>
  \<^verbatim>\<open>src/sys_mknod.rs\<close>: \<^verbatim>\<open>mknod(2)\<close> and \<^verbatim>\<open>mknodat(2)\<close> on behalf of a container. Only
  a fixed list of harmless devices (and regular files) is created.
\<close>

abbreviation (input) S_IFMT :: u32 where "S_IFMT \<equiv> 0xF000"
abbreviation (input) S_IFREG :: u32 where "S_IFREG \<equiv> 0x8000"
abbreviation (input) S_IFCHR :: u32 where "S_IFCHR \<equiv> 0x2000"

text \<open>The accepted combinations of file type, major and minor number.\<close>

definition mknod_whitelist :: "(u32 \<times> u64 \<times> u64) list" where
  "mknod_whitelist =
     [(S_IFREG, 0, 0), (S_IFCHR, 0, 0), (S_IFCHR, 5, 0), (S_IFCHR, 5, 1), (S_IFCHR, 5, 2),
      (S_IFCHR, 1, 3), (S_IFCHR, 1, 5), (S_IFCHR, 1, 7), (S_IFCHR, 1, 8), (S_IFCHR, 1, 9)]"

definition check_mknod_dev :: "'w env \<Rightarrow> u32 \<Rightarrow> u64 \<Rightarrow> bool" where
  "check_mknod_dev E mode dev =
     (let sflag = mode AND S_IFMT; major = dev_major E dev; minor = dev_minor E dev
      in List.member mknod_whitelist (sflag, major, minor))"

text \<open>The closure that runs in the child.\<close>

definition mknodat_child ::
  "'w env \<Rightarrow> UserCaps \<Rightarrow> int \<Rightarrow> bytes \<Rightarrow> u32 \<Rightarrow> u64 \<Rightarrow> actor \<Rightarrow> ('w, io_error, SyscallStatus) io" where
  "mknodat_child E caps dirfd pathname mode dev q =
     bindR (apply_current E q caps) (\<lambda>_.
     sc_libc_try E q (Mknodat dirfd pathname mode dev) (\<lambda>r.
     ret (StatusOk (word_of_int (r_ret r)))))"

definition do_mknodat ::
  "'w env \<Rightarrow> PidFd \<Rightarrow> int \<Rightarrow> bytes \<Rightarrow> u32 \<Rightarrow> u64 \<Rightarrow> ('w, error, SyscallStatus) io" where
  "do_mknodat E pidfd dirfd pathname mode dev =
     bindR (closing_on_error E Daemon dirfd (UserCaps_new E Daemon pidfd)) (\<lambda>caps.
     map_err IoErr (forking_syscall E Daemon (mknodat_child E caps dirfd pathname mode dev) [dirfd]))"

definition mknod :: "'w env \<Rightarrow> ProxyMessageBuffer \<Rightarrow> ('w, error, SyscallStatus) io" where
  "mknod E msg =
     bindR (of_res (arg_mode_t msg 1)) (\<lambda>mode.
     bindR (of_res (arg_dev_t msg 2)) (\<lambda>dev.
     if \<not> check_mknod_dev E mode dev then ret (StatusErr EPERM)
     else
       bindR (arg_c_string E Daemon msg 0) (\<lambda>pathname.
       bindR (msg_pid_fd msg) (\<lambda>pidfd.
       bindR (map_err IoErr (fd_cwd E Daemon pidfd)) (\<lambda>cwd.
       do_mknodat E pidfd cwd pathname mode dev)))))"

definition mknodat :: "'w env \<Rightarrow> ProxyMessageBuffer \<Rightarrow> ('w, error, SyscallStatus) io" where
  "mknodat E msg =
     bindR (of_res (arg_mode_t msg 2)) (\<lambda>mode.
     bindR (of_res (arg_dev_t msg 3)) (\<lambda>dev.
     if \<not> check_mknod_dev E mode dev then ret (StatusErr EPERM)
     else
       bindR (arg_fd E Daemon msg 0 O_DIRECTORY) (\<lambda>dirfd.
       bindR (closing_on_error E Daemon dirfd (arg_c_string E Daemon msg 1)) (\<lambda>pathname.
       bindR (closing_on_error E Daemon dirfd (msg_pid_fd msg)) (\<lambda>pidfd.
       do_mknodat E pidfd dirfd pathname mode dev)))))"

section \<open>The contract\<close>

text \<open>What may be created for a message: a device of the list, with the mode and device number of
  the message.\<close>

definition mknod_allowed :: "'w env \<Rightarrow> nat \<Rightarrow> nat \<Rightarrow> ProxyMessageBuffer \<Rightarrow> call \<Rightarrow> bool" where
  "mknod_allowed E mode_arg dev_arg msg c = (case c of
       Mknodat dirfd pathname mode dev \<Rightarrow> arg_mode_t msg mode_arg = Ok mode
         \<and> arg_dev_t msg dev_arg = Ok dev \<and> check_mknod_dev E mode dev
     | _ \<Rightarrow> False)"

lemma confined_do_mknodat:
  assumes pf: "b_pid_fd msg = Some pidfd" and ok: "\<And>d f. allowed (Mknodat d f mode dev)"
  shows "emits (confined (caps_of E msg) allowed) (do_mknodat E pidfd dirfd pathname mode dev)"
  unfolding do_mknodat_def
proof (rule emits_bindR_result)
  let ?C = "confined (caps_of E msg) allowed"
  show "emits ?C (closing_on_error E Daemon dirfd (UserCaps_new E Daemon pidfd))"
    by (intro emits_intros) (simp_all add: harmless_calls)
  fix caps s s1
  assume "closing_on_error E Daemon dirfd (UserCaps_new E Daemon pidfd) s = Some (Ok caps, s1)"
  then have "caps_of E msg caps"
    using pf by (auto simp: closing_on_error_def run_simps caps_of_def)
  then show "emits ?C (map_err IoErr
      (forking_syscall E Daemon (mknodat_child E caps dirfd pathname mode dev) [dirfd]))"
    unfolding mknodat_child_def
    by (intro emits_intros emits_confined_fork emits_confined_child ok)
qed

lemma confined_mknod: "emits (confined (caps_of E msg) (mknod_allowed E 1 2 msg)) (mknod E msg)"
  unfolding mknod_def
  apply (intro emits_bindR_result [OF emits_of_res] emits_if emits_ret)
  apply (rule emits_bindR)
   apply (intro emits_intros, simp add: harmless_calls)
  apply (rule emits_bindR_result, intro emits_intros)
  apply (intro emits_bindR emits_intros confined_do_mknodat)
     apply (simp_all add: run_simps mknod_allowed_def harmless_calls)
  done

lemma confined_mknodat: "emits (confined (caps_of E msg) (mknod_allowed E 2 3 msg)) (mknodat E msg)"
  unfolding mknodat_def
  apply (intro emits_bindR_result [OF emits_of_res] emits_if emits_ret)
  apply (rule emits_bindR)
   apply (intro emits_intros, simp add: harmless_calls)
  apply (rule emits_bindR)
   apply (intro emits_intros, simp_all add: harmless_calls)
  apply (rule emits_bindR_result)
   apply (intro emits_intros, simp_all add: harmless_calls)
  apply (rule confined_do_mknodat)
   apply (simp_all add: run_simps mknod_allowed_def closing_on_error_def)
  done

lemma silent_do_mknodat: "emits silent (do_mknodat E pidfd dirfd pathname mode dev)"
  unfolding do_mknodat_def mknodat_child_def
  by (intro emits_bindR emits_map_err emits_silent_fork emits_silent_child emits_intros)
     (simp_all add: not_message_call)

interpretation mknod: syscall_handler E "mknod E" "mknod_allowed E 1 2" for E :: "'w env"
  by unfold_locales (rule confined_mknod,
    unfold mknod_def, intro emits_intros silent_do_mknodat, simp_all add: not_message_call)

interpretation mknodat: syscall_handler E "mknodat E" "mknod_allowed E 2 3" for E :: "'w env"
  by unfold_locales (rule confined_mknodat,
    unfold mknodat_def, intro emits_intros silent_do_mknodat, simp_all add: not_message_call)

section \<open>Properties\<close>

text \<open>C23: Both handlers refuse a device that is not on the list with \<^verbatim>\<open>EPERM\<close> before they make any
  call: nothing is read from the container, and no process is forked.\<close>

theorem mknod_refuses:
  assumes "arg_mode_t msg i = Ok mode" and "arg_dev_t msg (Suc i) = Ok dev" and "\<not> check_mknod_dev E mode dev"
  shows "(i = 1 \<longrightarrow> mknod E msg s = Some (Ok (StatusErr EPERM), s))
    \<and> (i = 2 \<longrightarrow> mknodat E msg s = Some (Ok (StatusErr EPERM), s))"
  using assms by (auto simp: mknod_def mknodat_def bindR_def of_res_def ret_def numeral_2_eq_2 numeral_3_eq_3)

theorem mknod_refuses_witness:
  "mknod script (sample_msg 133 [4096, 0x61b6, 0x800, 0, 0, 0]) (boot []) = Some (Ok (StatusErr EPERM), boot [])"
proof -
  let ?msg = "sample_msg 133 [4096, 0x61b6, 0x800, 0, 0, 0]"
  have "arg_mode_t ?msg 1 = Ok 0x61b6" "arg_dev_t ?msg (Suc 1) = Ok 0x800" "\<not> check_mknod_dev script 0x61b6 0x800"
    by (simp_all add: arg_mode_t_def arg_dev_t_def arg_def nth_opt_def sample_msg_def prepare_response_def
      check_mknod_dev_def mknod_whitelist_def script_def env_of_def linux_major_def linux_minor_def)
  from mknod_refuses [OF this] show ?thesis by simp
qed

end
