(* ===== verification/SysQuotactl.thy ===== *)
theory SysQuotactl
  imports Handler
begin

text \<open>
  \<^verbatim>\<open>src/sys_quotactl.rs\<close>: \<^verbatim>\<open>quotactl(2)\<close> on behalf of a container, one handler per
  subcommand. Records that the kernel fills or reads are kept as their memory images.
\<close>

abbreviation (input) Q_SYNC :: i32 where "Q_SYNC \<equiv> 0x800001"
abbreviation (input) Q_QUOTAON :: i32 where "Q_QUOTAON \<equiv> 0x800002"
abbreviation (input) Q_QUOTAOFF :: i32 where "Q_QUOTAOFF \<equiv> 0x800003"
abbreviation (input) Q_GETFMT :: i32 where "Q_GETFMT \<equiv> 0x800004"
abbreviation (input) Q_GETINFO :: i32 where "Q_GETINFO \<equiv> 0x800005"
abbreviation (input) Q_SETINFO :: i32 where "Q_SETINFO \<equiv> 0x800006"
abbreviation (input) Q_GETQUOTA :: i32 where "Q_GETQUOTA \<equiv> 0x800007"
abbreviation (input) Q_SETQUOTA :: i32 where "Q_SETQUOTA \<equiv> 0x800008"
abbreviation (input) Q_GETNEXTQUOTA :: i32 where "Q_GETNEXTQUOTA \<equiv> 0x800009"
abbreviation (input) USRQUOTA :: i32 where "USRQUOTA \<equiv> 0"
abbreviation (input) GRPQUOTA :: i32 where "GRPQUOTA \<equiv> 1"
abbreviation (input) KINDMASK :: i32 where "KINDMASK \<equiv> 0xff"
abbreviation (input) SUBCMDSHIFT :: nat where "SUBCMDSHIFT \<equiv> 8"

section \<open>Record layouts\<close>

definition sizeof_dqinfo :: nat where "sizeof_dqinfo = 24"
definition sizeof_dqblk :: nat where "sizeof_dqblk = 72"

text \<open>\<^verbatim>\<open>nextdqblk\<close>: a \<^verbatim>\<open>dqblk\<close>, whose size is a multiple of its alignment, followed by the id
  and padding.\<close>

definition sizeof_nextdqblk :: nat where "sizeof_nextdqblk = 80"

definition get_dqb_id :: "bytes \<Rightarrow> u32" where
  "get_dqb_id data = le_word (chunk sizeof_dqblk 4 data)"

definition set_dqb_id :: "bytes \<Rightarrow> u32 \<Rightarrow> bytes" where
  "set_dqb_id data i = take sizeof_dqblk data @ le_bytes 4 i @ drop (sizeof_dqblk + 4) data"

section \<open>Handlers\<close>

text \<open>\<^verbatim>\<open>forking_syscall\<close> with the closure shape all handlers share: enter the caller's
  environment, call, continue with the result.\<close>

definition quota_child ::
  "'w env \<Rightarrow> UserCaps \<Rightarrow> i32 \<Rightarrow> bytes option \<Rightarrow> i32 \<Rightarrow> qaddr
     \<Rightarrow> (actor \<Rightarrow> resp \<Rightarrow> ('w, io_error, SyscallStatus) io) \<Rightarrow> actor \<Rightarrow> ('w, io_error, SyscallStatus) io" where
  "quota_child E caps cmd special i addr k q =
     bindR (apply_current E q caps) (\<lambda>_.
     sc_libc_try E q (call.Quotactl cmd special i addr) (k q))"

definition quota_fork ::
  "'w env \<Rightarrow> ProxyMessageBuffer \<Rightarrow> i32 \<Rightarrow> bytes option \<Rightarrow> i32 \<Rightarrow> qaddr
     \<Rightarrow> (actor \<Rightarrow> resp \<Rightarrow> ('w, io_error, SyscallStatus) io) \<Rightarrow> ('w, error, SyscallStatus) io" where
  "quota_fork E msg cmd special i addr k =
     bindR (msg_pid_fd msg) (\<lambda>pidfd.
     bindR (UserCaps_new E Daemon pidfd) (\<lambda>caps.
     map_err IoErr (forking_syscall E Daemon (quota_child E caps cmd special i addr k) [])))"

text \<open>The continuations: write the record back to the caller, or return a constant or the result.\<close>

definition write_back ::
  "'w env \<Rightarrow> ProxyMessageBuffer \<Rightarrow> u64 \<Rightarrow> nat \<Rightarrow> actor \<Rightarrow> resp \<Rightarrow> ('w, io_error, SyscallStatus) io" where
  "write_back E msg addr n q r =
     bindR (mem_write_struct E q msg addr (fill (replicate n 0) (r_data r))) (\<lambda>_. ret (StatusOk 0))"

definition return_zero :: "actor \<Rightarrow> resp \<Rightarrow> ('w, io_error, SyscallStatus) io" where
  "return_zero q r = ret (StatusOk 0)"

definition return_out :: "actor \<Rightarrow> resp \<Rightarrow> ('w, io_error, SyscallStatus) io" where
  "return_out q r = ret (StatusOk (word_of_int (r_ret r)))"

definition q_getinfo :: "'w env \<Rightarrow> ProxyMessageBuffer \<Rightarrow> i32 \<Rightarrow> bytes option \<Rightarrow> ('w, error, SyscallStatus) io" where
  "q_getinfo E msg cmd special =
     bindR (of_res (arg_int msg 2)) (\<lambda>i.
     bindR (of_res (arg_caddr_t msg 3)) (\<lambda>addr.
     quota_fork E msg cmd special i (QBuf (replicate sizeof_dqinfo 0)) (write_back E msg addr sizeof_dqinfo)))"

definition q_setinfo :: "'w env \<Rightarrow> ProxyMessageBuffer \<Rightarrow> i32 \<Rightarrow> bytes option \<Rightarrow> ('w, error, SyscallStatus) io" where
  "q_setinfo E msg cmd special = (case special of
       None \<Rightarrow> ret (StatusErr EINVAL)
     | Some sp \<Rightarrow>
         bindR (of_res (arg_int msg 2)) (\<lambda>i.
         bindR (arg_struct_by_ptr E Daemon msg 3 sizeof_dqinfo) (\<lambda>data.
         quota_fork E msg cmd (Some sp) i (QBuf data) return_zero)))"

definition q_getfmt :: "'w env \<Rightarrow> ProxyMessageBuffer \<Rightarrow> i32 \<Rightarrow> bytes option \<Rightarrow> ('w, error, SyscallStatus) io" where
  "q_getfmt E msg cmd special =
     bindR (of_res (arg_int msg 2)) (\<lambda>i.
     bindR (of_res (arg_caddr_t msg 3)) (\<lambda>addr.
     quota_fork E msg cmd special i (QBuf (replicate 4 0)) (write_back E msg addr 4)))"

definition q_quotaon :: "'w env \<Rightarrow> ProxyMessageBuffer \<Rightarrow> i32 \<Rightarrow> bytes option \<Rightarrow> ('w, error, SyscallStatus) io" where
  "q_quotaon E msg cmd special =
     bindR (of_res (arg_int msg 2)) (\<lambda>i.
     bindR (arg_c_string E Daemon msg 3) (\<lambda>addr.
     quota_fork E msg cmd special i (QPath addr) return_out))"

definition q_quotaoff :: "'w env \<Rightarrow> ProxyMessageBuffer \<Rightarrow> i32 \<Rightarrow> bytes option \<Rightarrow> ('w, error, SyscallStatus) io" where
  "q_quotaoff E msg cmd special =
     bindR (of_res (arg_int msg 2)) (\<lambda>i.
     quota_fork E msg cmd special i QNull return_out)"

definition uid_gid_arg :: "'w env \<Rightarrow> ProxyMessageBuffer \<Rightarrow> nat \<Rightarrow> i32 \<Rightarrow> ('w, error, i32 \<times> IdMap option) io" where
  "uid_gid_arg E msg i kind =
     bindR (of_res (arg_int msg i)) (\<lambda>ident.
     let with_map = (\<lambda>m.
        bindR (ok_or (NixErr ERANGE) (map_from m (scast ident))) (\<lambda>mapped.
        bindR (ok_or (NixErr ERANGE) (if unat mapped < 2 ^ 31 then Some (ucast mapped) else None)) (\<lambda>host.
        ret (host, Some m))))
     in
     if kind = USRQUOTA then
       bindR (msg_pid_fd msg) (\<lambda>pidfd. bindR (get_uid_map E Daemon pidfd) with_map)
     else if kind = GRPQUOTA then
       bindR (msg_pid_fd msg) (\<lambda>pidfd. bindR (get_gid_map E Daemon pidfd) with_map)
     else ret (ident, None))"

definition q_getquota :: "'w env \<Rightarrow> ProxyMessageBuffer \<Rightarrow> i32 \<Rightarrow> bytes option \<Rightarrow> i32 \<Rightarrow> ('w, error, SyscallStatus) io" where
  "q_getquota E msg cmd special kind = (case special of
       None \<Rightarrow> ret (StatusErr EINVAL)
     | Some sp \<Rightarrow>
         bindR (uid_gid_arg E msg 2 kind) (\<lambda>(i, _).
         bindR (of_res (arg_caddr_t msg 3)) (\<lambda>addr.
         quota_fork E msg cmd (Some sp) i (QBuf (replicate sizeof_dqblk 0)) (write_back E msg addr sizeof_dqblk))))"

definition q_setquota :: "'w env \<Rightarrow> ProxyMessageBuffer \<Rightarrow> i32 \<Rightarrow> bytes option \<Rightarrow> i32 \<Rightarrow> ('w, error, SyscallStatus) io" where
  "q_setquota E msg cmd special kind = (case special of
       None \<Rightarrow> ret (StatusErr EINVAL)
     | Some sp \<Rightarrow>
         bindR (uid_gid_arg E msg 2 kind) (\<lambda>(i, _).
         bindR (arg_struct_by_ptr E Daemon msg 3 sizeof_dqblk) (\<lambda>data.
         quota_fork E msg cmd (Some sp) i (QBuf data) return_zero)))"

text \<open>The id the kernel returned is mapped into the container before the record is written back.\<close>

definition write_back_next ::
  "'w env \<Rightarrow> ProxyMessageBuffer \<Rightarrow> u64 \<Rightarrow> IdMap option \<Rightarrow> actor \<Rightarrow> resp \<Rightarrow> ('w, io_error, SyscallStatus) io" where
  "write_back_next E msg addr idmap q r =
     (let data = fill (replicate sizeof_nextdqblk 0) (r_data r) in
      bindR (case idmap of None \<Rightarrow> ret data
        | Some m \<Rightarrow> bindR (ok_or (OsErr ERANGE) (map_into m (ucast (get_dqb_id data)))) (\<lambda>v.
             ret (set_dqb_id data (ucast v)))) (\<lambda>data.
      bindR (mem_write_struct E q msg addr data) (\<lambda>_.
      ret (StatusOk 0))))"

definition q_getnextquota :: "'w env \<Rightarrow> ProxyMessageBuffer \<Rightarrow> i32 \<Rightarrow> bytes option \<Rightarrow> i32 \<Rightarrow> ('w, error, SyscallStatus) io" where
  "q_getnextquota E msg cmd special kind = (case special of
       None \<Rightarrow> ret (StatusErr EINVAL)
     | Some sp \<Rightarrow>
         bindR (uid_gid_arg E msg 2 kind) (\<lambda>(i, idmap).
         bindR (of_res (arg_caddr_t msg 3)) (\<lambda>addr.
         quota_fork E msg cmd (Some sp) i (QBuf (replicate sizeof_nextdqblk 0)) (write_back_next E msg addr idmap))))"

definition q_sync :: "'w env \<Rightarrow> ProxyMessageBuffer \<Rightarrow> i32 \<Rightarrow> bytes option \<Rightarrow> ('w, error, SyscallStatus) io" where
  "q_sync E msg cmd special = (case special of
       None \<Rightarrow> ret (StatusErr EINVAL)
     | Some sp \<Rightarrow> quota_fork E msg cmd (Some sp) 0 QNull return_zero)"

definition quotactl :: "'w env \<Rightarrow> ProxyMessageBuffer \<Rightarrow> ('w, error, SyscallStatus) io" where
  "quotactl E msg =
     bindR (of_res (arg_int msg 0)) (\<lambda>cmd.
     bindR (arg_opt_c_string E Daemon msg 1) (\<lambda>special.
     let kind = cmd AND KINDMASK; subcmd = drop_bit SUBCMDSHIFT cmd in
     if subcmd = Q_GETINFO then q_getinfo E msg cmd special
     else if subcmd = Q_SETINFO then q_setinfo E msg cmd special
     else if subcmd = Q_GETFMT then q_getfmt E msg cmd special
     else if subcmd = Q_QUOTAON then q_quotaon E msg cmd special
     else if subcmd = Q_QUOTAOFF then q_quotaoff E msg cmd special
     else if subcmd = Q_GETQUOTA then q_getquota E msg cmd special kind
     else if subcmd = Q_SETQUOTA then q_setquota E msg cmd special kind
     else if subcmd = Q_SYNC then q_sync E msg cmd special
     else if subcmd = Q_GETNEXTQUOTA then q_getnextquota E msg cmd special kind
     else ret (StatusErr EOPNOTSUPP)))"

section \<open>The contract\<close>

text \<open>The subcommands that are passed on.\<close>

definition quota_subcmds :: "i32 list" where
  "quota_subcmds = [Q_GETINFO, Q_SETINFO, Q_GETFMT, Q_QUOTAON, Q_QUOTAOFF, Q_GETQUOTA, Q_SETQUOTA,
     Q_SYNC, Q_GETNEXTQUOTA]"

definition quota_allowed :: "ProxyMessageBuffer \<Rightarrow> call \<Rightarrow> bool" where
  "quota_allowed msg c = (case c of
       call.Quotactl cmd special i addr \<Rightarrow>
         arg_int msg 0 = Ok cmd \<and> drop_bit SUBCMDSHIFT cmd \<in> set quota_subcmds
     | _ \<Rightarrow> False)"

lemma emits_mem_write_child:
  "emits (confined who allowed) (mem_write_struct E (Child pid) msg addr data)"
  by (intro emits_intros) (simp add: confined_harmless)

lemma confined_continuations [emits_intros]:
  "emits (confined who allowed) (write_back E msg addr n (Child pid) r)"
  "emits (confined who allowed) (return_zero (Child pid) r)"
  "emits (confined who allowed) (return_out (Child pid) r)"
  "emits (confined who allowed) (write_back_next E msg addr idmap (Child pid) r)"
  unfolding write_back_def return_zero_def return_out_def write_back_next_def
  by (intro emits_intros emits_mem_write_child)+

lemma confined_quota_fork:
  assumes ok: "allowed (call.Quotactl cmd special i addr)"
    and k: "\<And>pid r. emits (confined (caps_of E msg) allowed) (k (Child pid) r)"
  shows "emits (confined (caps_of E msg) allowed) (quota_fork E msg cmd special i addr k)"
  unfolding quota_fork_def
proof (intro emits_bindR_result)
  let ?C = "confined (caps_of E msg) allowed"
  show "emits ?C (msg_pid_fd msg)" by (intro emits_intros)
  show "emits ?C (UserCaps_new E Daemon pidfd)" for pidfd
    by (intro emits_intros) (simp add: harmless_calls)
  fix pidfd caps s s1 s2 s3
  assume "msg_pid_fd msg s = Some (Ok pidfd, s1)" and "UserCaps_new E Daemon pidfd s2 = Some (Ok caps, s3)"
  then have "caps_of E msg caps" by (auto simp: run_simps caps_of_def)
  then show "emits ?C (map_err IoErr
      (forking_syscall E Daemon (quota_child E caps cmd special i addr k) []))"
    unfolding quota_child_def
    by (intro emits_intros emits_confined_fork emits_confined_child ok k)
qed

lemma confined_uid_gid_arg [emits_intros]: "emits (confined who allowed) (uid_gid_arg E msg i kind)"
  unfolding uid_gid_arg_def Let_def by (intro emits_intros) (simp_all add: harmless_calls)

lemmas quota_handler_defs = q_getinfo_def q_setinfo_def q_getfmt_def q_quotaon_def q_quotaoff_def
  q_getquota_def q_setquota_def q_sync_def q_getnextquota_def

lemma confined_quota_handlers:
  assumes "\<And>special i addr. allowed (call.Quotactl cmd special i addr)"
  shows "emits (confined (caps_of E msg) allowed) (q_getinfo E msg cmd special)"
    "emits (confined (caps_of E msg) allowed) (q_setinfo E msg cmd special)"
    "emits (confined (caps_of E msg) allowed) (q_getfmt E msg cmd special)"
    "emits (confined (caps_of E msg) allowed) (q_quotaon E msg cmd special)"
    "emits (confined (caps_of E msg) allowed) (q_quotaoff E msg cmd special)"
    "emits (confined (caps_of E msg) allowed) (q_getquota E msg cmd special kind)"
    "emits (confined (caps_of E msg) allowed) (q_setquota E msg cmd special kind)"
    "emits (confined (caps_of E msg) allowed) (q_sync E msg cmd special)"
    "emits (confined (caps_of E msg) allowed) (q_getnextquota E msg cmd special kind)"
  unfolding quota_handler_defs
  by (intro emits_intros confined_quota_fork assms; simp add: harmless_calls)+

lemma confined_quotactl: "emits (confined (caps_of E msg) (quota_allowed msg)) (quotactl E msg)"
  unfolding quotactl_def Let_def
proof (intro emits_bindR_result)
  show "emits (confined (caps_of E msg) (quota_allowed msg)) (arg_opt_c_string E Daemon msg 1)"
    by (intro emits_intros) (simp add: harmless_calls)
qed (intro emits_intros confined_quota_handlers;
    simp add: quota_allowed_def quota_subcmds_def run_simps)+

lemma silent_continuations [emits_intros]:
  "emits silent (write_back E msg addr n q r)" "emits silent (return_zero q r)"
  "emits silent (return_out q r)" "emits silent (write_back_next E msg addr idmap q r)"
  unfolding write_back_def return_zero_def return_out_def write_back_next_def Let_def
  by (intro emits_intros; simp add: message_call_def)+

lemma silent_quota_fork:
  assumes "\<And>q r. emits silent (k q r)"
  shows "emits silent (quota_fork E msg cmd special i addr k)"
  unfolding quota_fork_def quota_child_def using assms
  by (intro emits_bindR emits_map_err emits_silent_fork emits_silent_child emits_intros)
     (simp_all add: not_message_call)

lemma silent_quotactl: "emits silent (quotactl E msg)"
  unfolding quotactl_def quota_handler_defs uid_gid_arg_def Let_def
  by (intro emits_intros silent_quota_fork) (simp_all add: not_message_call)

interpretation quotactl: syscall_handler E "quotactl E" quota_allowed for E :: "'w env"
  by unfold_locales (rule confined_quotactl silent_quotactl)+

section \<open>Properties\<close>



lemma sint_low:
  fixes ident :: i32
  assumes "unat ident < 2 ^ 31"
  shows "sint ident = uint ident"
proof -
  have "int (unat ident) < int (2 ^ 31)" using assms by (simp only: of_nat_less_iff)
  then have "uint ident < 2 ^ 31" by simp
  then have "take_bit 31 (uint ident) = uint ident" by (simp add: take_bit_int_eq_self)
  moreover from this have "\<not> bit (uint ident) 31" by (metis bit_take_bit_iff less_irrefl)
  ultimately show ?thesis by (simp add: sint_uint signed_take_bit_eq_if_positive)
qed

lemma sint_high:
  fixes ident :: i32
  assumes "unat ident \<ge> 2 ^ 31"
  shows "sint ident < 0"
proof (rule ccontr)
  assume "\<not> sint ident < 0"
  moreover have "sint ident < 2 ^ 31" using sint_less [of ident] by simp
  ultimately have "uint ident < 2 ^ 31" by (subst uint_sint) (simp add: take_bit_int_eq_self)
  moreover have "int (2 ^ 31) \<le> int (unat ident)" using assms by (simp only: of_nat_le_iff)
  ultimately show False by simp
qed

lemma unat_ucast_u64: "unat (ucast (w :: i32) :: u64) = unat w"
proof -
  have "unat w < 2 ^ 32" using unsigned_less [of w] by simp
  then have "unat w < 2 ^ 64" by (rule less_trans) simp
  then show ?thesis by (simp add: unsigned_ucast_eq take_bit_nat_eq_self)
qed

lemma sign_extended_low:
  fixes ident :: i32
  assumes "unat ident < 2 ^ 31"
  shows "(scast ident :: u64) = ucast ident"
proof -
  have "(scast ident :: u64) = word_of_int (sint ident)" by (rule scast_eq)
  also have "\<dots> = word_of_int (uint ident)" by (simp only: sint_low [OF assms])
  also have "\<dots> = ucast ident" by (rule ucast_eq [symmetric])
  finally show ?thesis .
qed

lemma sign_extended_high:
  fixes ident :: i32
  assumes "unat ident \<ge> 2 ^ 31"
  shows "unat (scast ident :: u64) \<ge> 2 ^ 33"
proof -
  have low: "- (2 ^ 31) \<le> sint ident" using sint_greater_eq [of ident] by simp
  have "uint (scast ident :: u64) = sint ident mod 2 ^ 64" by (subst scast_eq) (simp only: uint_word_of_int_eq take_bit_eq_mod len_bit0 len_bit1 len_num1, simp)
  also have "\<dots> = (sint ident + 2 ^ 64) mod 2 ^ 64" by (rule mod_add_self2 [symmetric])
  also have "\<dots> = sint ident + 2 ^ 64"
    using low sint_high [OF assms] by (intro mod_pos_pos_trivial) simp_all
  finally have "int (2 ^ 33) \<le> int (unat (scast ident :: u64))" using low by simp
  then show ?thesis by (simp only: of_nat_le_iff)
qed

text \<open>The id map file of each kind of quota.\<close>

definition id_map_file :: "i32 \<Rightarrow> bytes option" where
  "id_map_file kind = (if kind = USRQUOTA then Some (str ''uid_map'')
     else if kind = GRPQUOTA then Some (str ''gid_map'') else None)"

lemma uid_gid_arg_run:
  assumes "arg_int msg i = Ok ident" and "b_pid_fd msg = Some pidfd" and "id_map_file kind = Some file"
    and "list_all wf_entry m" and "proc_file E Daemon pidfd file (concat (map show_entry m)) s"
  shows "\<exists>s'. uid_gid_arg E msg i kind s = Some (case map_from m (scast ident) of
       None \<Rightarrow> Err (NixErr ERANGE)
     | Some host \<Rightarrow> if unat host < 2 ^ 31 then Ok (ucast host, Some m) else Err (NixErr ERANGE), s')"
proof -
  from id_map_file_read [OF assms(4,5)] obtain s' where
    "get_uid_gid_map E Daemon pidfd file s = Some (Ok m, s')" by blast
  with assms(1-3) show ?thesis
    by (auto simp: uid_gid_arg_def id_map_file_def get_uid_map_def get_gid_map_def bindR_def of_res_def
      msg_pid_fd_def unwrap_def ret_def ok_or_def raise_def Let_def split: option.splits if_splits)
qed

text \<open>C24: The id argument of user and group quotas is translated with the caller's id map: when
  \<^verbatim>\<open>/proc/<pid>/uid_map\<close> (or \<^verbatim>\<open>gid_map\<close>) lists the map \<open>m\<close>, an id below \<open>2\<^sup>3\<^sup>1\<close> that lies in the
  container range of an entry becomes the id at the same distance from the start of its host range;
  an id outside of all ranges, or a host id that is no \<^verbatim>\<open>c_int\<close>, is refused with \<^verbatim>\<open>ERANGE\<close>.\<close>

theorem uid_gid_arg_translates:
  assumes "arg_int msg i = Ok ident" and "unat ident < 2 ^ 31" and "b_pid_fd msg = Some pidfd"
    and "id_map_file kind = Some file"
    and "list_all wf_entry m" and "proc_file E Daemon pidfd file (concat (map show_entry m)) s"
  shows "\<exists>s'. uid_gid_arg E msg i kind s = Some (case find (\<lambda>e. in_ns e (ucast ident)) m of
       None \<Rightarrow> Err (NixErr ERANGE)
     | Some e \<Rightarrow> let host = unat (e_host e) + (unat ident - unat (e_ns e)) in
         if host < 2 ^ 31 then Ok (of_nat host, Some m) else Err (NixErr ERANGE), s')"
proof -
  have "(scast ident :: u64) = ucast ident" by (rule sign_extended_low [OF assms(2)])
  moreover have "unat (e_host e + ucast ident - e_ns e) = unat (e_host e) + (unat ident - unat (e_ns e))
      \<and> (ucast (e_host e + ucast ident - e_ns e) :: i32) = of_nat (unat (e_host e) + (unat ident - unat (e_ns e)))"
    if "find (\<lambda>e. in_ns e (ucast ident)) m = Some e" for e
  proof -
    from that assms(5) have "wf_entry e" "in_ns e (ucast ident)" by (auto simp: find_Some_iff list_all_iff)
    then have "unat (e_host e + ucast ident - e_ns e) = unat (e_host e) + (unat ident - unat (e_ns e))"
      by (simp add: shift_entry(3) unat_ucast_u64)
    then show ?thesis by (metis of_nat_unat)
  qed
  ultimately show ?thesis
    using uid_gid_arg_run [OF assms(1,3-6)]
    by (cases "find (\<lambda>e. in_ns e (ucast ident)) m")
       (auto simp: map_from_find [OF assms(5)] Let_def split: if_splits)
qed

text \<open>The map of a container with the usual 65536 ids, as the sample kernel delivers it.\<close>

definition sample_id_map :: IdMap where
  "sample_id_map = [\<lparr>e_ns = 0, e_host = 100000, e_range = 65536\<rparr>]"

definition sample_map_read :: "resp list" where
  "sample_map_read = [returns 7, delivers (concat (map show_entry sample_id_map)), returns 0, returns 0]"

lemma sample_map_file:
  "list_all wf_entry sample_id_map"
  "proc_file script Daemon \<lparr>pf_fd = 11, pf_pid = 200\<rparr> file (concat (map show_entry sample_id_map)) (boot sample_map_read)"
proof -
  let ?b = "concat (map show_entry sample_id_map)"
  show "list_all wf_entry sample_id_map" by (simp add: sample_id_map_def wf_entry_def)
  have len: "?b \<noteq> []" "length ?b \<le> 8192"
    by (simp_all add: sample_id_map_def show_entry_def column_def show_nat.simps)
  then show "proc_file script Daemon \<lparr>pf_fd = 11, pf_pid = 200\<rparr> file ?b (boot sample_map_read)"
    by (simp only: sample_map_read_def, simp add: proc_file_def answer_def after_def sample_defs,
        intro exI [of _ "[?b]"]) simp
qed

lemma sample_msg_id:
  "arg_int (sample_msg 179 [cmd, sp, v, addr, 0, 0]) 2 = (if unat v < 2 ^ 32 then Ok (ucast v) else Err (NixErr EINVAL))"
  "b_pid_fd (sample_msg 179 [cmd, sp, v, addr, 0, 0]) = Some \<lparr>pf_fd = 11, pf_pid = 200\<rparr>"
  by (simp_all add: arg_int_def arg_uint_def arg_def nth_opt_def sample_msg_def prepare_response_def)

theorem uid_gid_arg_translates_witness:
  "\<exists>s'. uid_gid_arg script (sample_msg 179 [0, 0, 1000, 0, 0, 0]) 2 USRQUOTA (boot sample_map_read)
     = Some (Ok (101000, Some sample_id_map), s')"
  using uid_gid_arg_translates [of "sample_msg 179 [0, 0, 1000, 0, 0, 0]" 2 1000, OF _ _ _ _ sample_map_file,
      of USRQUOTA "str ''uid_map''"]
  by (simp add: sample_msg_id id_map_file_def) (simp add: sample_id_map_def in_ns_def)

text \<open>C39: Ids from \<open>2\<^sup>3\<^sup>1\<close> on are refused for user and group quotas, although they are valid ids and
  the map may contain them: the argument is sign-extended to 64 bits before it is looked up, so no
  entry of a map with 32-bit columns can contain it. The answer is \<^verbatim>\<open>ERANGE\<close>.\<close>

theorem high_ids_refused:
  assumes "arg_int msg i = Ok ident" and "unat ident \<ge> 2 ^ 31" and "b_pid_fd msg = Some pidfd"
    and "id_map_file kind = Some file"
    and "list_all wf_entry m" and "proc_file E Daemon pidfd file (concat (map show_entry m)) s"
  shows "\<exists>s'. uid_gid_arg E msg i kind s = Some (Err (NixErr ERANGE), s')"
proof -
  have "unat (scast ident :: u64) \<ge> 2 ^ 33" by (rule sign_extended_high [OF assms(2)])
  then have "find (\<lambda>e. in_ns e (scast ident)) m = None"
    using assms(5) by (auto simp: find_None_iff list_all_iff in_ns_def wf_entry_def)
  then have "map_from m (scast ident) = None" by (simp add: map_from_find [OF assms(5)])
  with uid_gid_arg_run [OF assms(1,3-6)] show ?thesis by simp
qed

theorem high_ids_refused_witness:
  "\<exists>s'. uid_gid_arg script (sample_msg 179 [0, 0, 0x80000000, 0, 0, 0]) 2 GRPQUOTA (boot sample_map_read)
     = Some (Err (NixErr ERANGE), s')"
  using high_ids_refused [of "sample_msg 179 [0, 0, 0x80000000, 0, 0, 0]" 2 "0x80000000", OF _ _ _ _ sample_map_file,
      of GRPQUOTA "str ''gid_map''"]
  by (simp add: sample_msg_id id_map_file_def)

text \<open>C38: The id of a \<^verbatim>\<open>Q_GETNEXTQUOTA\<close> answer is not translated. The kernel's record is 72 bytes
  with the id in the last four of them; the code's record has its id field behind these, at offset
  72, where it reads zero. So what is looked up is always id 0: where the host's id 0 is not mapped, as
  in every unprivileged container, the request fails with \<^verbatim>\<open>ERANGE\<close>; otherwise the caller receives
  the kernel's record unchanged, host id included, followed by eight more bytes.\<close>

theorem getnextquota_id_not_translated:
  assumes "length (r_data r) = 72"
  shows "write_back_next E msg addr (Some m) q r = (case map_into m 0 of
       None \<Rightarrow> raise (OsErr ERANGE)
     | Some v \<Rightarrow> bindR (mem_write_struct E q msg addr (r_data r @ le_bytes 4 (ucast v :: u32) @ replicate 4 0)) (\<lambda>_.
         ret (StatusOk 0)))"
proof -
  have data: "fill (replicate 80 0) (r_data r) = r_data r @ replicate 8 0"
    using assms by (simp add: fill_def numeral_eq_Suc)
  have "get_dqb_id (r_data r @ replicate 8 0) = 0"
    using assms by (simp add: get_dqb_id_def sizeof_dqblk_def chunk_def)
  moreover have "set_dqb_id (r_data r @ replicate 8 0) w = r_data r @ le_bytes 4 w @ replicate 4 0" for w
    using assms by (simp add: set_dqb_id_def sizeof_dqblk_def)
  ultimately show ?thesis
    by (simp add: write_back_next_def sizeof_nextdqblk_def data ok_or_def raise_def bindR_def ret_def split: option.splits)
qed

theorem getnextquota_id_not_translated_witness:
  "map_into sample_id_map 101000 = Some 1000
   \<and> write_back_next script (sample_msg 179 []) 4096 (Some sample_id_map) (Child 42)
      (delivers (replicate 68 0 @ le_bytes 4 (101000 :: u32))) = raise (OsErr ERANGE)"
  using getnextquota_id_not_translated [of "delivers (replicate 68 0 @ le_bytes 4 (101000 :: u32))" script
      "sample_msg 179 []" 4096 sample_id_map "Child 42"]
  by (simp add: sample_id_map_def delivers_def)

end
