(* ===== verification/Client.thy ===== *)
theory Client
  imports SysMknod SysQuotactl
begin

text \<open>
  \<^verbatim>\<open>src/client.rs\<close>: one connection of a container's monitor. Messages are received, the
  intercepted system call is dispatched to its handler, and the answer is sent back; an error that
  is no error number ends the connection. The lemmas lift the handlers' contract to the whole
  connection and show that requests and replies alternate.
\<close>

record Client =
  cl_socket :: int

definition Client_new :: "int \<Rightarrow> Client" where
  "Client_new socket = \<lparr>cl_socket = socket\<rparr>"

definition handle_syscall_do :: "'w env \<Rightarrow> ProxyMessageBuffer \<Rightarrow> ('w, error, SyscallStatus) io" where
  "handle_syscall_do E msg =
     (let arch = d_arch (n_data (b_seccomp_notif msg)); sysnr = d_nr (n_data (b_seccomp_notif msg)) in
      case translate_syscall arch sysnr of
        None \<Rightarrow> ret (StatusErr ENOSYS)
      | Some syscall_nr \<Rightarrow> (case syscall_nr of
            Mknod \<Rightarrow> mknod E msg
          | MknodAt \<Rightarrow> mknodat E msg
          | Syscall.Quotactl \<Rightarrow> quotactl E msg))"

text \<open>Errors that carry an error number become the result of the system call.\<close>

definition error_status :: "error \<Rightarrow> SyscallStatus option" where
  "error_status err = (case err of
       NixErr errno \<Rightarrow> Some (StatusErr errno)
     | IoErr ioerr \<Rightarrow> (case raw_os_error ioerr of Some errno \<Rightarrow> Some (StatusErr errno) | None \<Rightarrow> None)
     | AnyErr _ \<Rightarrow> None)"

definition set_response :: "ProxyMessageBuffer \<Rightarrow> SyscallStatus \<Rightarrow> ProxyMessageBuffer" where
  "set_response msg result =
     (let resp = b_seccomp_resp msg in
      msg\<lparr>b_seccomp_resp := (case result of
         StatusOk val \<Rightarrow> resp\<lparr>p_val := val, p_error := 0\<rparr>
       | StatusErr err \<Rightarrow> resp\<lparr>p_val := -1, p_error := - err\<rparr>)\<rparr>)"

definition handle_syscall :: "'w env \<Rightarrow> Client \<Rightarrow> ProxyMessageBuffer \<Rightarrow> ('w, error, ProxyMessageBuffer) io" where
  "handle_syscall E self msg =
     bindR (matchR (handle_syscall_do E msg) ret (\<lambda>err.
        case error_status err of Some st \<Rightarrow> ret st | None \<Rightarrow> raise err)) (\<lambda>result.
     let msg = set_response msg result in
     bindR (map_err IoErr (respond E Daemon msg (cl_socket self))) (\<lambda>_. ret msg))"

text \<open>The destructor of the message buffer.\<close>

definition drop_msg :: "'w env \<Rightarrow> ProxyMessageBuffer \<Rightarrow> ('w, error, unit) io" where
  "drop_msg E msg =
     bindR (drop_opt E Daemon (map_option pf_fd (b_pid_fd msg))) (\<lambda>_.
     drop_opt E Daemon (b_mem_fd msg))"

definition main_round :: "'w env \<Rightarrow> Client \<Rightarrow> ProxyMessageBuffer \<Rightarrow> ('w, error, ProxyMessageBuffer + unit) io" where
  "main_round E self msg =
     bindR (recv E Daemon msg (cl_socket self)) (\<lambda>(got, msg).
     if \<not> got then ret (Inr ())
     else bindR (on_failure (handle_syscall E self msg) (drop_msg E msg)) (\<lambda>msg. ret (Inl msg)))"

definition main_do :: "'w env \<Rightarrow> Client \<Rightarrow> ('w, error, unit) io" where
  "main_do E self =
     bindR (ProxyMessageBuffer_new E Daemon 64) (\<lambda>msg. loopM (main_round E self) msg)"

abbreviation (input) SHUT_RDWR :: int where "SHUT_RDWR \<equiv> 2"

definition wrap_error :: "'w env \<Rightarrow> Client \<Rightarrow> ('w, error, unit) io \<Rightarrow> ('w, error, unit) io" where
  "wrap_error E self fut =
     matchR fut ret (\<lambda>err.
       bindR (eprintln E Daemon (str ''client error, dropping connection: '' @ display E err)) (\<lambda>_.
       matchR (SeqPacketSocket_shutdown E Daemon (cl_socket self) SHUT_RDWR) ret (\<lambda>err.
         eprintln E Daemon (str ''    (error shutting down client socket: '' @ display E (NixErr err) @ str '')''))))"

text \<open>The task of a connection; its socket is closed when the last reference goes.\<close>

definition client_main :: "'w env \<Rightarrow> Client \<Rightarrow> ('w, error, unit) io" where
  "client_main E self = owning E Daemon (cl_socket self) (wrap_error E self (main_do E self))"

section \<open>Confinement of a connection\<close>

text \<open>What the three handlers allow, over all messages.\<close>

definition served :: "'w env \<Rightarrow> call \<Rightarrow> bool" where
  "served E c = (case c of
       Mknodat dirfd pathname mode dev \<Rightarrow> check_mknod_dev E mode dev
     | call.Quotactl cmd special i addr \<Rightarrow> drop_bit SUBCMDSHIFT cmd \<in> set quota_subcmds
     | _ \<Rightarrow> False)"

abbreviation sandboxed :: "'w env \<Rightarrow> event list \<Rightarrow> event \<Rightarrow> bool" where
  "sandboxed E \<equiv> confined (\<lambda>caps. \<exists>msg. caps_of E msg caps) (served E)"

lemma emits_case_Syscall [emits_intros]:
  "emits P a \<Longrightarrow> emits P b \<Longrightarrow> emits P c
     \<Longrightarrow> emits P (case x of Mknod \<Rightarrow> a | MknodAt \<Rightarrow> b | Syscall.Quotactl \<Rightarrow> c)"
  by (cases x) simp_all

lemma sandboxed_handle_syscall_do: "emits (sandboxed E) (handle_syscall_do E msg)"
  unfolding handle_syscall_do_def Let_def
  by (intro emits_intros mknod.confines_general mknodat.confines_general quotactl.confines_general)
     (auto simp: served_def mknod_allowed_def quota_allowed_def split: call.splits)

lemma silent_handle_syscall_do: "emits silent (handle_syscall_do E msg)"
  unfolding handle_syscall_do_def Let_def
  by (intro emits_intros mknod.silences mknodat.silences quotactl.silences)

lemma emits_drop_msg [emits_intros]:
  "(\<And>h fd r. P h (Daemon, Close fd, r)) \<Longrightarrow> emits P (drop_msg E msg)"
  unfolding drop_msg_def by (intro emits_intros)

section \<open>Requests and replies\<close>

text \<open>A request is a successful receive that is not the end of the stream, a reply a successful
  send; \<open>busy\<close> is the state of the connection after the events so far.\<close>

definition request :: "int \<Rightarrow> event \<Rightarrow> bool" where
  "request socket e = (case ev_call e of
     Recvmsg fd ls n \<Rightarrow> fd = socket \<and> r_ret (ev_resp e) \<noteq> -1 \<and> r_ret (ev_resp e) \<noteq> 0 | _ \<Rightarrow> False)"

definition reply :: "int \<Rightarrow> event \<Rightarrow> bool" where
  "reply socket e = (case ev_call e of
     Sendmsg fd iov \<Rightarrow> fd = socket \<and> r_ret (ev_resp e) \<noteq> -1 | _ \<Rightarrow> False)"

definition busy_step :: "int \<Rightarrow> event \<Rightarrow> bool \<Rightarrow> bool" where
  "busy_step socket e b = (if request socket e then True else if reply socket e then False else b)"

definition busy :: "int \<Rightarrow> event list \<Rightarrow> bool" where
  "busy socket h = fold (busy_step socket) h False"

text \<open>Requests arrive on an idle connection, replies are sent on a busy one.\<close>

definition turn :: "int \<Rightarrow> event list \<Rightarrow> event \<Rightarrow> bool" where
  "turn socket h e \<longleftrightarrow> (request socket e \<longrightarrow> \<not> busy socket h) \<and> (reply socket e \<longrightarrow> busy socket h)"

definition neutral :: "int \<Rightarrow> event \<Rightarrow> bool" where
  "neutral socket e \<longleftrightarrow> \<not> request socket e \<and> \<not> reply socket e"

lemma busy_append: "busy socket (h @ t) = fold (busy_step socket) t (busy socket h)"
  by (simp add: busy_def)

lemma busy_neutral: "list_all (neutral socket) t \<Longrightarrow> fold (busy_step socket) t b = b"
  by (induction t) (simp_all add: neutral_def busy_step_def)

lemma turn_neutral: "list_all (neutral socket) t \<Longrightarrow> along (turn socket) h t"
  by (induction t arbitrary: h) (simp_all add: neutral_def turn_def)

lemma silent_neutral: "\<not> message_call (ev_call e) \<Longrightarrow> neutral socket e"
  by (simp add: neutral_def request_def reply_def message_call_def split: call.splits)

text \<open>\<open>plays socket b m f\<close>: started in state \<open>b\<close>, \<open>m\<close> keeps to its turn, and leaves the connection
  in state \<open>f a\<close> when it returns \<open>a\<close>.\<close>

definition plays :: "int \<Rightarrow> bool \<Rightarrow> ('w, 'e, 'a) io \<Rightarrow> ('a \<Rightarrow> bool) \<Rightarrow> bool" where
  "plays socket b m f \<longleftrightarrow> (\<forall>s r s'. m s = Some (r, s') \<and> busy socket (m_log s) = b \<longrightarrow>
     (\<exists>t. m_log s' = m_log s @ t \<and> along (turn socket) (m_log s) t)
     \<and> (\<forall>a. r = Ok a \<longrightarrow> busy socket (m_log s') = f a))"

lemma playsD:
  assumes "plays socket b m f" and "m s = Some (r, s')" and "busy socket (m_log s) = b"
  obtains t where "m_log s' = m_log s @ t" and "along (turn socket) (m_log s) t"
    and "\<And>a. r = Ok a \<Longrightarrow> busy socket (m_log s') = f a"
proof -
  from assms(1) have "(\<exists>t. m_log s' = m_log s @ t \<and> along (turn socket) (m_log s) t)
     \<and> (\<forall>a. r = Ok a \<longrightarrow> busy socket (m_log s') = f a)"
    unfolding plays_def using assms(2,3) by (metis (no_types, lifting))
  with that show thesis by blast
qed

lemma playsI:
  assumes "\<And>s r s'. m s = Some (r, s') \<Longrightarrow> busy socket (m_log s) = b \<Longrightarrow>
     (\<exists>t. m_log s' = m_log s @ t \<and> along (turn socket) (m_log s) t)
     \<and> (\<forall>a. r = Ok a \<longrightarrow> busy socket (m_log s') = f a)"
  shows "plays socket b m f"
  using assms unfolding plays_def by blast

lemma plays_neutral: "emits (\<lambda>h e. neutral socket e) m \<Longrightarrow> plays socket b m (\<lambda>_. b)"
  unfolding plays_def emits_def along_const
  by (metis busy_append busy_neutral turn_neutral)

lemma plays_silent: "emits silent m \<Longrightarrow> plays socket b m (\<lambda>_. b)"
  by (rule plays_neutral, elim emits_mono) (rule silent_neutral)

lemma plays_bindR:
  assumes m: "plays socket b m f" and k: "\<And>a. plays socket (f a) (k a) g"
  shows "plays socket b (bindR m k) g"
proof (rule playsI)
  fix s r s'
  assume run: "bindR m k s = Some (r, s')" and b: "busy socket (m_log s) = b"
  from run consider (ok) a s1 where "m s = Some (Ok a, s1)" "k a s1 = Some (r, s')"
    | (stop) x where "m s = Some (x, s')" "\<And>a. r \<noteq> Ok a" by (auto simp: bindR_run)
  then show "(\<exists>t. m_log s' = m_log s @ t \<and> along (turn socket) (m_log s) t)
     \<and> (\<forall>a. r = Ok a \<longrightarrow> busy socket (m_log s') = g a)"
  proof cases
    case ok
    obtain t1 where t1: "m_log s1 = m_log s @ t1" "along (turn socket) (m_log s) t1"
      "busy socket (m_log s1) = f a" by (rule playsD [OF m ok(1) b]) auto
    obtain t2 where "m_log s' = m_log s1 @ t2" "along (turn socket) (m_log s1) t2"
      "\<And>a. r = Ok a \<Longrightarrow> busy socket (m_log s') = g a" by (rule playsD [OF k ok(2) t1(3)]) auto
    with t1 show ?thesis by auto
  next
    case stop
    from m stop(1) b obtain t where "m_log s' = m_log s @ t" "along (turn socket) (m_log s) t"
      by (rule playsD)
    with stop(2) show ?thesis by auto
  qed
qed

lemma plays_ret: "b = f a \<Longrightarrow> plays socket b (ret a) f"
  by (auto simp: plays_def run_simps)

lemma plays_map_err:
  assumes "plays socket b m f"
  shows "plays socket b (map_err g m) f"
proof (rule playsI)
  fix s r s'
  assume "map_err g m s = Some (r, s')" and b: "busy socket (m_log s) = b"
  then obtain x where x: "m s = Some (x, s')" "\<And>a. r = Ok a \<Longrightarrow> x = Ok a"
    by (auto simp: map_err_def split: option.splits res.splits)
  from assms x(1) b show "(\<exists>t. m_log s' = m_log s @ t \<and> along (turn socket) (m_log s) t)
     \<and> (\<forall>a. r = Ok a \<longrightarrow> busy socket (m_log s') = f a)"
    by (rule playsD) (use x(2) in auto)
qed

lemma plays_on_failure:
  assumes m: "plays socket b m f" and c: "emits silent c"
  shows "plays socket b (on_failure m c) f"
proof (rule playsI)
  fix s r s'
  assume run: "on_failure m c s = Some (r, s')" and b: "busy socket (m_log s) = b"
  from run obtain s1 x where m1: "m s = Some (r, s1)"
    and rest: "s' = s1 \<or> (c s1 = Some (x, s') \<and> (\<forall>a. r \<noteq> Ok a))"
    by (auto simp: on_failure_run)
  obtain t1 where t1: "m_log s1 = m_log s @ t1" "along (turn socket) (m_log s) t1"
    "\<And>a. r = Ok a \<Longrightarrow> busy socket (m_log s1) = f a" by (rule playsD [OF m m1 b]) auto
  from rest show "(\<exists>t. m_log s' = m_log s @ t \<and> along (turn socket) (m_log s) t)
     \<and> (\<forall>a. r = Ok a \<longrightarrow> busy socket (m_log s') = f a)"
  proof
    assume cl: "c s1 = Some (x, s') \<and> (\<forall>a. r \<noteq> Ok a)"
    obtain t2 where "m_log s' = m_log s1 @ t2" "along (turn socket) (m_log s1) t2"
      by (rule playsD [OF plays_silent [OF c] conjunct1 [OF cl] refl])
    with t1 cl show ?thesis by auto
  qed (use t1 in auto)
qed

lemma plays_loopM:
  fixes body :: "'a \<Rightarrow> ('w, 'e, 'a + 'b) io"
  assumes body: "\<And>a. plays socket b (body a) (\<lambda>_. b)"
  shows "plays socket b (loopM body a) (\<lambda>_. b)"
proof (rule playsI)
  fix s r s'
  assume run: "loopM body a s = Some (r, s')" and b: "busy socket (m_log s) = b"
  define I where "I a s1 \<longleftrightarrow> busy socket (m_log s1) = b
     \<and> (\<exists>t. m_log s1 = m_log s @ t \<and> along (turn socket) (m_log s) t)" for a :: 'a and s1 :: "'w mach"
  have start: "I a s" using b by (simp add: I_def)
  have ext: "\<exists>t. m_log s2 = m_log s @ t \<and> along (turn socket) (m_log s) t"
    and post: "\<And>y. x = Ok y \<Longrightarrow> busy socket (m_log s2) = b"
    if pre: "I a s1" and step: "body a s1 = Some (x, s2)" for a s1 x s2
  proof -
    from pre obtain t where t: "m_log s1 = m_log s @ t" "along (turn socket) (m_log s) t"
      and b1: "busy socket (m_log s1) = b" by (auto simp: I_def)
    obtain t2 where "m_log s2 = m_log s1 @ t2" "along (turn socket) (m_log s1) t2"
      and p: "\<And>y. x = Ok y \<Longrightarrow> busy socket (m_log s2) = b"
      by (rule playsD [OF body step b1]) auto
    with t show "\<exists>t. m_log s2 = m_log s @ t \<and> along (turn socket) (m_log s) t" by auto
    from p show "\<And>y. x = Ok y \<Longrightarrow> busy socket (m_log s2) = b" .
  qed
  have "I a' s2" if "I a s1" and "body a s1 = Some (Ok (Inl a'), s2)" for a s1 a' s2
    using ext [OF that] post [OF that] by (simp add: I_def)
  then obtain a1 s1 x where inv: "I a1 s1" and last: "body a1 s1 = Some (x, s')" "ends_loop x r"
    by (rule loopM_last [where I = I, OF run start])
  from ext [OF inv last(1)] post [OF inv last(1)] last(2)
  show "(\<exists>t. m_log s' = m_log s @ t \<and> along (turn socket) (m_log s) t)
     \<and> (\<forall>a. r = Ok a \<longrightarrow> busy socket (m_log s') = b)" by auto
qed

text \<open>Receiving turns an idle connection busy, unless it met the end of the stream; sending turns
  it idle again.\<close>

lemma plays_recvmsg:
  "plays socket False (recvmsg_vectored E Daemon socket iov cmsg_buf) (\<lambda>(datalen, _). datalen \<noteq> 0)"
proof (rule playsI)
  fix s r s'
  assume run: "recvmsg_vectored E Daemon socket iov cmsg_buf s = Some (r, s')"
    and idle: "busy socket (m_log s) = False"
  let ?c = "Recvmsg socket (map length iov) (length cmsg_buf)"
  have neutral: "list_all (neutral socket) t"
    if "list_all (waiting Daemon (Readable socket) socket ?c) t" for t
    using that by (rule list.pred_mono_strong) (auto simp: waiting_def neutral_def request_def reply_def)
  from run obtain x where x: "wrap_read E Daemon socket (c_result E Daemon ?c) s = Some (x, s')"
    "r = (case x of Ok y \<Rightarrow> Ok (r_ret y, r_ctllen y, scatter iov (r_data y), fill cmsg_buf (r_ctl y))
       | Err e \<Rightarrow> Err e | Panic \<Rightarrow> Panic)"
    by (auto simp: recvmsg_vectored_def bindR_run run_simps)
  from x(1) show "(\<exists>t. m_log s' = m_log s @ t \<and> along (turn socket) (m_log s) t)
     \<and> (\<forall>a. r = Ok a \<longrightarrow> busy socket (m_log s') = (case a of (datalen, _) \<Rightarrow> datalen \<noteq> 0))"
  proof (cases rule: wrap_read_cases)
    case (ended t y)
    have "busy socket (m_log s @ t) = False"
      using busy_neutral [OF neutral [OF ended(4)]] idle by (simp add: busy_append)
    moreover have "request socket (Daemon, ?c, y) \<longleftrightarrow> r_ret y \<noteq> 0" "\<not> reply socket (Daemon, ?c, y)"
      using ended(3) by (simp_all add: request_def reply_def)
    ultimately show ?thesis
      using ended x(2) turn_neutral [OF neutral [OF ended(4)]] busy_append [of socket "m_log s @ t" "[(Daemon, ?c, y)]"]
      by (auto simp: turn_def busy_step_def)
  next
    case (failed t e)
    with x(2) turn_neutral [OF neutral [OF failed(3)]] show ?thesis by auto
  qed
qed

lemma plays_sendmsg:
  "plays socket True (sendmsg_vectored E Daemon socket iov) (\<lambda>_. False)"
proof (rule playsI)
  fix s r s'
  assume run: "sendmsg_vectored E Daemon socket iov s = Some (r, s')"
    and busy: "busy socket (m_log s) = True"
  let ?c = "Sendmsg socket iov"
  have neutral: "list_all (neutral socket) t"
    if "list_all (waiting Daemon (Writable socket) socket ?c) t" for t
    using that by (rule list.pred_mono_strong) (auto simp: waiting_def neutral_def request_def reply_def)
  from run obtain x where x: "wrap_write E Daemon socket (c_result E Daemon ?c) s = Some (x, s')"
    "r = (case x of Ok y \<Rightarrow> Ok (r_ret y) | Err e \<Rightarrow> Err e | Panic \<Rightarrow> Panic)"
    by (auto simp: sendmsg_vectored_def bindR_run run_simps)
  from x(1) show "(\<exists>t. m_log s' = m_log s @ t \<and> along (turn socket) (m_log s) t)
     \<and> (\<forall>a. r = Ok a \<longrightarrow> busy socket (m_log s') = False)"
  proof (cases rule: wrap_write_cases)
    case (ended t y)
    have "busy socket (m_log s @ t) = True"
      using busy_neutral [OF neutral [OF ended(4)]] busy by (simp add: busy_append)
    moreover have "\<not> request socket (Daemon, ?c, y)" "reply socket (Daemon, ?c, y)"
      using ended(3) by (simp_all add: request_def reply_def)
    ultimately show ?thesis
      using ended turn_neutral [OF neutral [OF ended(4)]] busy_append [of socket "m_log s @ t" "[(Daemon, ?c, y)]"]
      by (auto simp: turn_def busy_step_def)
  next
    case (failed t e)
    with x(2) turn_neutral [OF neutral [OF failed(3)]] show ?thesis by auto
  qed
qed

lemma plays_weaken:
  "plays socket b m f \<Longrightarrow> (\<And>s a s'. m s = Some (Ok a, s') \<Longrightarrow> f a = g a) \<Longrightarrow> plays socket b m g"
  unfolding plays_def by (metis (no_types, lifting))

lemma silent_recv_message: "emits silent (recv_message E Daemon self datalen cmsglen buf)"
  unfolding recv_message_def recv_fds_def
  by (intro emits_intros) (simp_all add: not_message_call)

lemma plays_recv:
  fixes E :: "'a env"
  shows "plays socket False (recv E Daemon msg socket) (\<lambda>(got, _). got)"
proof -
  have got: "plays socket (datalen \<noteq> 0) (recv_message E Daemon self datalen cmsglen buf) (\<lambda>(got, _). got)"
    for self datalen cmsglen buf
    by (rule plays_weaken [OF plays_silent [OF silent_recv_message]])
       (auto simp: recv_message_def run_simps split: if_splits)
  have "emits silent (reset E Daemon msg)" for msg
    unfolding reset_def by (intro emits_intros) (simp_all add: message_call_def)
  moreover have "emits silent (cmsg_buffer E Daemon 8 :: ('a, error, bytes) io)"
    by (intro emits_intros) (simp add: message_call_def)
  ultimately show ?thesis
    unfolding recv_def
    by (intro plays_bindR [OF plays_silent] plays_bindR [OF plays_map_err [OF plays_recvmsg]])
       (auto split: prod.splits intro: got)
qed

lemma plays_handle_syscall: "plays (cl_socket self) True (handle_syscall E self msg) (\<lambda>_. False)"
proof -
  have "emits silent (matchR (handle_syscall_do E msg) ret (\<lambda>err.
        case error_status err of Some st \<Rightarrow> ret st | None \<Rightarrow> raise err))"
    by (intro emits_intros silent_handle_syscall_do)
  moreover have "plays (cl_socket self) True (respond E Daemon msg (cl_socket self)) (\<lambda>_. False)" for msg
    unfolding respond_def Let_def
    by (rule plays_bindR [OF plays_sendmsg]) (auto simp: plays_def run_simps)
  ultimately show ?thesis
    unfolding handle_syscall_def Let_def
    by (intro plays_bindR [OF plays_silent] plays_bindR [OF plays_map_err] plays_ret) auto
qed

lemma plays_main_round: "plays (cl_socket self) False (main_round E self msg) (\<lambda>_. False)"
  unfolding main_round_def
proof (rule plays_bindR [OF plays_recv], clarify)
  fix got b
  have "emits silent (drop_msg E b)" by (intro emits_intros) (simp add: message_call_def)
  then show "plays (cl_socket self) got (if \<not> got then ret (Inr ())
      else bindR (on_failure (handle_syscall E self b) (drop_msg E b)) (\<lambda>msg. ret (Inl msg))) (\<lambda>_. False)"
    by (cases got)
       (simp_all add: plays_ret plays_bindR [OF plays_on_failure [OF plays_handle_syscall] plays_ret])
qed

text \<open>The parts of a reply.\<close>

lemma set_response_keeps [simp]:
  "b_seccomp_notif (set_response msg st) = b_seccomp_notif msg"
  "b_proxy_msg (set_response msg st) = b_proxy_msg msg"
  "p_id (b_seccomp_resp (set_response msg st)) = p_id (b_seccomp_resp msg)"
  "p_flags (b_seccomp_resp (set_response msg st)) = p_flags (b_seccomp_resp msg)"
  by (simp_all add: set_response_def Let_def split: SyscallStatus.splits)

section \<open>The states of a connection\<close>

text \<open>The states at the beginning of a round, as a transition system: a connection may go on for
  ever, and its invariants hold in every state it reaches.\<close>

inductive connection :: "'w env \<Rightarrow> Client \<Rightarrow> 'w mach \<Rightarrow> ProxyMessageBuffer \<Rightarrow> 'w mach \<Rightarrow> bool"
  for E self s0 where
  opened: "ProxyMessageBuffer_new E Daemon 64 s0 = Some (Ok msg :: (error, _) res, s) \<Longrightarrow> connection E self s0 msg s"
| round: "connection E self s0 msg s \<Longrightarrow> main_round E self msg s = Some (Ok (Inl msg'), s')
    \<Longrightarrow> connection E self s0 msg' s'"

text \<open>The transition system and the loop agree: the loop ends as the last round of a reachable
  state does.\<close>

lemma connection_loop:
  assumes "connection E self s0 msg s"
  shows "main_do E self s0 = loopM (main_round E self) msg s"
  using assms
proof induction
  case (opened msg s)
  then show ?case by (simp add: main_do_def bindR_def)
next
  case (round msg s msg' s')
  then show ?case by (subst (asm) loopM.simps) simp
qed

lemma new_cases:
  assumes "ProxyMessageBuffer_new E p n s = Some (r :: (error, _) res, s')"
  obtains (created) msg where "r = Ok msg" | (poisoned) "r = Panic"
  using assms
  by (cases r)
     (auto simp: ProxyMessageBuffer_new_def SECCOMP_SIZES_def vec_uninitialized_def run_simps
       split: static.splits option.splits res.splits)

lemma main_do_iff:
  "main_do E self s0 = Some (r, s') \<longleftrightarrow>
     (\<exists>msg s x. connection E self s0 msg s \<and> main_round E self msg s = Some (x, s') \<and> ends_loop x r)
     \<or> (r = Panic \<and> ProxyMessageBuffer_new E Daemon 64 s0 = Some (Panic :: (error, _) res, s'))" (is "_ \<longleftrightarrow> ?last \<or> ?poisoned")
proof
  assume run: "main_do E self s0 = Some (r, s')"
  then obtain x s where new: "ProxyMessageBuffer_new E Daemon 64 s0 = Some (x :: (error, _) res, s)"
    by (auto simp: main_do_def bindR_run)
  then show "?last \<or> ?poisoned"
  proof (cases rule: new_cases)
    case (created msg)
    with new run have "loopM (main_round E self) msg s = Some (r, s')" by (simp add: main_do_def bindR_def)
    then have ?last
      by (rule loopM_last [where I = "connection E self s0"]) (use new created in \<open>auto intro: opened round\<close>)
    then show ?thesis ..
  next
    case poisoned
    with new run show ?thesis by (simp add: main_do_def bindR_def)
  qed
next
  have "main_do E self s0 = Some (r, s')"
    if "connection E self s0 msg s" "main_round E self msg s = Some (x, s')" "ends_loop x r" for msg s x
    using that(2,3) unfolding connection_loop [OF that(1)]
    by (subst loopM.simps) (auto simp: ends_loop_def split: res.splits sum.splits)
  then show "?last \<or> ?poisoned \<Longrightarrow> main_do E self s0 = Some (r, s')"
    by (auto simp: main_do_def bindR_def)
qed

text \<open>The sizes of the kernel's structures are checked once; what is stored has passed the check.\<close>

definition sizes_checked :: "'w mach \<Rightarrow> bool" where
  "sizes_checked s \<longleftrightarrow> (\<forall>a b c. m_sizes s = StaticInit (a, b, c) \<longrightarrow> (a, b, c) = (80, 24, 64))"

lemma wf_new:
  assumes "ProxyMessageBuffer_new E p n s = Some (Ok msg :: (error, _) res, s')" and "sizes_checked s"
  shows "wf_msg msg"
proof -
  from assms(1) obtain z s1 where z: "SECCOMP_SIZES E p s = Some (Ok z :: (error, _) res, s1)"
    and msg: "b_sizes msg = z" "b_pid_fd msg = None" "b_mem_fd msg = None" "length (b_cookie_mem msg) = n"
      "b_cookie_len msg = n" "b_seccomp_notif msg = dec_SeccompNotif (replicate sizeof_SeccompNotif 0)"
      "b_seccomp_packet_size msg = of_nat sizeof_SeccompNotifyProxyMsg + ucast (z_notif z) + ucast (z_notif_resp z)"
    by (auto simp: ProxyMessageBuffer_new_def vec_uninitialized_def run_simps)
  from z assms(2) have "z = expected_sizes"
    by (auto simp: SECCOMP_SIZES_def sizes_checked_def expected_sizes_def get_checked_Ok
      dest!: get_checked_Ok split: static.splits option.splits res.splits)
  with msg show ?thesis
    by (simp add: wf_msg_def expected_sizes_def sizeof_SeccompNotifyProxyMsg_def SeccompNotif_codec.inv_dec)
qed

lemma wf_main_round:
  assumes "wf_msg msg" and "main_round E self msg s = Some (Ok (Inl msg'), s')"
  shows "wf_msg msg'"
proof -
  from assms(2) obtain m s1 s2 where "recv E Daemon msg (cl_socket self) s = Some (Ok (True, m), s1)"
    and handled: "handle_syscall E self m s1 = Some (Ok msg', s2)"
    by (auto simp: main_round_def run_simps on_failure_run split: if_splits)
  then have "wf_msg m" using assms(1) by (auto dest: wf_recv(1))
  moreover from handled obtain st where "msg' = set_response m st"
    by (auto simp: handle_syscall_def Let_def run_simps)
  ultimately show ?thesis
    by (simp add: wf_msg_def set_response_def Let_def)
qed

lemma sandboxed_main_round: "emits (sandboxed E) (main_round E self msg)"
  unfolding main_round_def handle_syscall_def Let_def
  by (intro emits_intros sandboxed_handle_syscall_do) (simp_all add: harmless_calls)

lemma sandboxed_new: "emits (sandboxed E) (ProxyMessageBuffer_new E Daemon n :: ('w, error, _) io)"
  by (intro emits_intros) (simp_all add: harmless_calls, simp add: privileged_def)

lemma plays_new: "plays socket b (ProxyMessageBuffer_new E Daemon n :: ('w, error, _) io) (\<lambda>_. b)"
  by (rule plays_silent, intro emits_intros) (simp add: message_call_def, simp add: not_message_call)

text \<open>What the log of a connection looks like after a part that is confined and keeps to its turn.\<close>

definition orderly :: "'w env \<Rightarrow> Client \<Rightarrow> 'w mach \<Rightarrow> 'w mach \<Rightarrow> bool" where
  "orderly E self s0 s \<longleftrightarrow> (\<exists>t. m_log s = m_log s0 @ t \<and> along (sandboxed E) (m_log s0) t
     \<and> along (turn (cl_socket self)) (m_log s0) t)"

lemma orderlyI:
  assumes "emits (sandboxed E) m" and "plays (cl_socket self) b m f" and "m s = Some (r, s')"
    and "busy (cl_socket self) (m_log s) = b"
  shows "orderly E self s s'"
proof -
  from assms(1,3) obtain t where "m_log s' = m_log s @ t" "along (sandboxed E) (m_log s) t" by (rule emitsD)
  moreover from assms(2-4) obtain u where "m_log s' = m_log s @ u" "along (turn (cl_socket self)) (m_log s) u"
    by (rule playsD)
  ultimately show ?thesis unfolding orderly_def by auto
qed

lemma orderly_trans: "orderly E self s0 s1 \<Longrightarrow> orderly E self s1 s2 \<Longrightarrow> orderly E self s0 s2"
  unfolding orderly_def by (auto simp: along_append)

lemma connection_orderly:
  assumes "connection E self s0 msg s" and "\<not> busy (cl_socket self) (m_log s0)" and "sizes_checked s0"
  shows "orderly E self s0 s \<and> \<not> busy (cl_socket self) (m_log s) \<and> wf_msg msg"
  using assms(1)
proof induction
  case (opened msg s)
  have "orderly E self s0 s"
    by (rule orderlyI [OF sandboxed_new plays_new opened refl])
  moreover have "\<not> busy (cl_socket self) (m_log s)"
    by (rule playsD [OF plays_new [of "cl_socket self"] opened refl]) (simp add: assms(2))
  moreover have "wf_msg msg" using opened assms(3) by (rule wf_new)
  ultimately show ?case by blast
next
  case (round msg s msg' s')
  then have idle: "busy (cl_socket self) (m_log s) = False" by simp
  have "orderly E self s s'"
    by (rule orderlyI [OF sandboxed_main_round plays_main_round round(2) idle])
  then have "orderly E self s0 s'" using round(3) orderly_trans by blast
  moreover have "\<not> busy (cl_socket self) (m_log s')"
    by (rule playsD [OF plays_main_round round(2) idle]) simp
  moreover have "wf_msg msg'" using round wf_main_round by blast
  ultimately show ?case by blast
qed

text \<open>On a connection, requests and replies alternate: started on an idle connection, the
  client loop receives a request only when the connection is idle and sends a reply only when a
  request is pending, whatever happens in between; when the loop returns, no request is pending.\<close>

theorem requests_and_replies_alternate:
  fixes E :: "'a env"
  shows "plays (cl_socket self) False (main_do E self) (\<lambda>_. False)"
  unfolding main_do_def by (intro plays_bindR [OF plays_new] plays_loopM plays_main_round)


text \<open>C2: In every state a connection reaches between two requests, also one that never ends, all
  it did is confined, requests and replies alternated, no request is left without its reply, and the
  message buffer is well-formed.\<close>

theorem connection_invariant:
  assumes "connection E self s0 msg s" and "\<not> busy (cl_socket self) (m_log s0)" and "sizes_checked s0"
  shows "(\<exists>t. m_log s = m_log s0 @ t \<and> along (sandboxed E) (m_log s0) t
      \<and> along (turn (cl_socket self)) (m_log s0) t) \<and> \<not> busy (cl_socket self) (m_log s) \<and> wf_msg msg"
  using connection_orderly [OF assms] unfolding orderly_def .

theorem connection_invariant_witness:
  "\<exists>msg s t. connection script (Client_new 3) ((boot [])\<lparr>m_sizes := StaticInit (80, 24, 64)\<rparr>) msg s
     \<and> m_log s = [] @ t \<and> along (sandboxed script) [] t \<and> along (turn 3) [] t \<and> \<not> busy 3 (m_log s) \<and> wf_msg msg"
proof -
  let ?s0 = "(boot [] :: resp list mach)\<lparr>m_sizes := StaticInit (80, 24, 64)\<rparr>"
  have "\<exists>msg s. ProxyMessageBuffer_new script Daemon 64 ?s0 = Some (Ok msg :: (error, _) res, s)"
    by (simp add: ProxyMessageBuffer_new_def SECCOMP_SIZES_def vec_uninitialized_def io_defs sample_defs)
  then obtain msg s where c: "connection script (Client_new 3) ?s0 msg s" using opened by blast
  have "m_log ?s0 = []" "cl_socket (Client_new 3) = 3" by (simp_all add: boot_def Client_new_def)
  moreover have "\<not> busy (cl_socket (Client_new 3)) (m_log ?s0)" "sizes_checked ?s0"
    by (simp_all add: boot_def busy_def sizes_checked_def)
  note connection_invariant [OF c this]
  ultimately show ?thesis using c by auto
qed

section \<open>Properties of a connection\<close>


lemma respond_Ok:
  assumes "respond E p msg socket s = Some (Ok u, s')" and "wf_SeccompNotif (b_seccomp_notif msg)"
  obtains t r where "m_log s' = m_log s @ t @ [(p, Sendmsg socket (msg_iov msg), r)]" and "r_ret r = 136"
proof -
  have "sum_list (map length (msg_iov msg)) = 136"
    using length_msg_iov [OF assms(2)] by simp
  with assms(1) obtain r where w: "wrap_write E p socket (c_result E p (Sendmsg socket (msg_iov msg))) s = Some (Ok r, s')"
    and "r_ret r = 136"
    by (auto simp: respond_def sendmsg_vectored_def Let_def run_simps split: if_splits)
  from w that this(2) show thesis by (cases rule: wrap_write_cases) auto
qed

lemma error_status_iff:
  "error_status e = Some st \<longleftrightarrow> (\<exists>n. st = StatusErr n \<and> (e = NixErr n \<or> e = IoErr (OsErr n)))"
  by (cases e) (auto simp: error_status_def raw_os_error_def split: io_error.splits)

text \<open>The answer for the outcome of a handler: its value, or its error number negated, or nothing
  when the error carries no number.\<close>

definition answer_for :: "(error, SyscallStatus) res \<Rightarrow> (i64 \<times> i32) option" where
  "answer_for x = (case x of
       Ok (StatusOk val) \<Rightarrow> Some (val, 0)
     | Ok (StatusErr n) \<Rightarrow> Some (-1, - n)
     | Err (NixErr n) \<Rightarrow> Some (-1, - n)
     | Err (IoErr (OsErr n)) \<Rightarrow> Some (-1, - n)
     | _ \<Rightarrow> None)"

text \<open>C6: A handled request was answered: the last thing that happened is that the whole reply
  of 136 bytes was sent; it repeats the request and carries the request's id and the outcome of
  the handler (its value, or an error number negated, also for errors the handler failed with).\<close>

theorem handle_syscall_answers:
  assumes run: "handle_syscall E self msg s = Some (Ok msg', s')"
    and wf: "wf_SeccompNotif (b_seccomp_notif msg)"
    and prepared: "p_id (b_seccomp_resp msg) = n_id (b_seccomp_notif msg)"
  shows "\<exists>x s1 t r. handle_syscall_do E msg s = Some (x, s1)
    \<and> answer_for x = Some (p_val (b_seccomp_resp msg'), p_error (b_seccomp_resp msg'))
    \<and> p_id (b_seccomp_resp msg') = n_id (b_seccomp_notif msg)
    \<and> b_seccomp_notif msg' = b_seccomp_notif msg
    \<and> m_log s' = m_log s1 @ t @ [(Daemon, Sendmsg (cl_socket self) (msg_iov msg'), r)] \<and> r_ret r = 136"
proof -
  from run obtain st s1 where st: "matchR (handle_syscall_do E msg) ret (\<lambda>err.
        case error_status err of Some st \<Rightarrow> ret st | None \<Rightarrow> raise err) s = Some (Ok st, s1)"
    and sent: "respond E Daemon msg' (cl_socket self) s1 = Some (Ok (), s')"
    and msg': "msg' = set_response msg st"
    by (auto simp: handle_syscall_def Let_def run_simps)
  from st obtain x where x: "handle_syscall_do E msg s = Some (x, s1)"
    and "(\<exists>y. x = Ok y \<and> st = y) \<or> (\<exists>e. x = Err e \<and> error_status e = Some st)"
    by (auto simp: run_simps split: option.splits)
  then have "answer_for x = Some (p_val (b_seccomp_resp msg'), p_error (b_seccomp_resp msg'))"
    by (auto simp: msg' answer_for_def set_response_def Let_def error_status_iff split: SyscallStatus.splits)
  moreover obtain t r where "m_log s' = m_log s1 @ t @ [(Daemon, Sendmsg (cl_socket self) (msg_iov msg'), r)]"
    "r_ret r = 136"
    by (rule respond_Ok [OF sent]) (simp_all add: msg' wf)
  ultimately show ?thesis using x msg' prepared by auto
qed

text \<open>A request for a system call that is not handled, answered with \<^verbatim>\<open>ENOSYS\<close>.\<close>

lemma sample_run:
  "\<exists>s'. handle_syscall script (Client_new 3) (sample_msg 0 [0, 0, 0, 0, 0, 0]) (boot [returns 0, returns 136])
     = Some (Ok (set_response (sample_msg 0 [0, 0, 0, 0, 0, 0]) (StatusErr ENOSYS)), s')"
proof -
  let ?msg = "sample_msg 0 [0, 0, 0, 0, 0, 0]"
  have wf: "wf_SeccompNotif (b_seccomp_notif ?msg)"
    by (simp add: sample_msg_def prepare_response_def wf_SeccompNotif_def wf_SeccompData_def)
  then have "sum_list (map length (msg_iov (set_response ?msg (StatusErr ENOSYS)))) = 136"
    using length_msg_iov [of "set_response ?msg (StatusErr ENOSYS)"] by simp
  moreover have "handle_syscall_do script ?msg = ret (StatusErr ENOSYS)"
    by (simp add: handle_syscall_do_def sample_msg_def prepare_response_def translate_syscall_def SYSCALL_TABLE_def)
  ultimately show ?thesis
    by (simp add: handle_syscall_def respond_def sendmsg_vectored_def wrap_write_def Let_def
      loopM.simps tokio_result_def io_defs sample_defs)
qed

theorem handle_syscall_answers_witness:
  "\<exists>msg' s' x s1 t r. handle_syscall script (Client_new 3) (sample_msg 0 [0, 0, 0, 0, 0, 0])
       (boot [returns 0, returns 136]) = Some (Ok msg', s')
    \<and> handle_syscall_do script (sample_msg 0 [0, 0, 0, 0, 0, 0]) (boot [returns 0, returns 136]) = Some (x, s1)
    \<and> answer_for x = Some (p_val (b_seccomp_resp msg'), p_error (b_seccomp_resp msg'))
    \<and> m_log s' = m_log s1 @ t @ [(Daemon, Sendmsg 3 (msg_iov msg'), r)] \<and> r_ret r = 136"
proof -
  obtain msg' s' where run: "handle_syscall script (Client_new 3) (sample_msg 0 [0, 0, 0, 0, 0, 0])
       (boot [returns 0, returns 136]) = Some (Ok msg', s')"
    using sample_run by blast
  have "wf_SeccompNotif (b_seccomp_notif (sample_msg 0 [0, 0, 0, 0, 0, 0]))"
    "p_id (b_seccomp_resp (sample_msg 0 [0, 0, 0, 0, 0, 0])) = n_id (b_seccomp_notif (sample_msg 0 [0, 0, 0, 0, 0, 0]))"
    by (simp_all add: sample_msg_def prepare_response_def wf_SeccompNotif_def wf_SeccompData_def)
  from handle_syscall_answers [OF run this] run show ?thesis
    by (simp add: Client_new_def) blast
qed


text \<open>C40: A container can drop its own connection: \<^verbatim>\<open>mknodat\<close> of a permitted device with the directory
  descriptor \<open>-1\<close> makes \<^verbatim>\<open>arg_fd\<close> build an owned descriptor from \<open>-1\<close>, which panics. No call is made
  and no reply is sent.\<close>

theorem mknodat_bad_dirfd_panics:
  assumes "translate_syscall (d_arch (n_data (b_seccomp_notif msg))) (d_nr (n_data (b_seccomp_notif msg))) = Some MknodAt"
    and "arg_mode_t msg 2 = Ok mode" and "arg_dev_t msg 3 = Ok dev" and "check_mknod_dev E mode dev"
    and "arg msg 0 = Ok v" and "(ucast v :: i32) = -1"
  shows "handle_syscall E self msg s = Some (Panic, s)"
  using assms
  by (simp add: handle_syscall_def handle_syscall_do_def mknodat_def arg_fd_def owned_fd_def
    bindR_def of_res_def matchR_def panic_def ret_def)

theorem mknodat_bad_dirfd_panics_witness:
  "handle_syscall script (Client_new 3) (sample_msg 259 [0xffffffff, 4096, 0x21b6, 0x103, 0, 0]) (boot [])
     = Some (Panic, boot [])"
proof (rule mknodat_bad_dirfd_panics)
  let ?msg = "sample_msg 259 [0xffffffff, 4096, 0x21b6, 0x103, 0, 0]"
  show "translate_syscall (d_arch (n_data (b_seccomp_notif ?msg))) (d_nr (n_data (b_seccomp_notif ?msg))) = Some MknodAt"
    by (simp add: sample_msg_def prepare_response_def translate_syscall_def SYSCALL_TABLE_def)
  show "arg_mode_t ?msg 2 = Ok 0x21b6" "arg_dev_t ?msg 3 = Ok 0x103" "arg ?msg 0 = Ok 0xffffffff"
    by (simp_all add: arg_mode_t_def arg_dev_t_def arg_def nth_opt_def sample_msg_def prepare_response_def)
  show "check_mknod_dev script 0x21b6 0x103"
    by (simp add: check_mknod_dev_def mknod_whitelist_def script_def env_of_def linux_major_def linux_minor_def)
  show "(ucast (0xffffffff :: u64) :: i32) = -1" by simp
qed

end
