(* ===== verification/Progress.thy ===== *)
theory Progress
  imports Client
begin

text \<open>
  Every part of a connection ends. The loops of the program retry interrupted calls, wait for
  readiness, read files to their end and serve requests until the peer hangs up; none of this ends in
  every environment. The contract \<open>live\<close> says that the environment lets each of these loops make
  progress: retries, non-empty reads and requests use up a finite budget. Under it every function
  returns (\<open>halts\<close>), up to the whole task of a connection.
\<close>

section \<open>The contract\<close>

text \<open>Responses after which some loop of the program goes round again.\<close>

definition retried :: "call \<Rightarrow> resp \<Rightarrow> bool" where
  "retried c r = (let again = (r_ret r = -1 \<and> (r_errno r = EINTR \<or> r_errno r = EAGAIN)); got = (r_ret r \<noteq> -1 \<and> r_ret r \<noteq> 0) in
     case c of
       Read fd n \<Rightarrow> again \<or> got
     | Recvmsg fd ls n \<Rightarrow> again \<or> got
     | Waitpid pid \<Rightarrow> again \<or> (r_ret r \<noteq> -1 \<and> r_ret r \<noteq> pid)
     | PollReadReady fd \<Rightarrow> r_ret r = 0
     | Write fd bs \<Rightarrow> again
     | Sendmsg fd iov \<Rightarrow> again
     | Accept4 fd flags \<Rightarrow> again
     | Open path flags mode \<Rightarrow> again
     | _ \<Rightarrow> False)"

definition live :: "'w env \<Rightarrow> ('w \<Rightarrow> nat) \<Rightarrow> bool" where
  "live E budget \<longleftrightarrow> (\<forall>p c w. case kern E p c w of (r, w') \<Rightarrow>
     budget w' \<le> budget w \<and> (retried c r \<longrightarrow> budget w' < budget w))"

lemmas retry_defs = retried_def Let_def would_block_def interrupted_def

section \<open>Runs that end\<close>

text \<open>\<open>ends B m Q\<close>: \<open>m\<close> returns from every state and does not add to the budget; when its result
  satisfies \<open>Q\<close>, it used some of it.\<close>

definition ends :: "('w \<Rightarrow> nat) \<Rightarrow> ('w, 'e, 'a) io \<Rightarrow> (('e, 'a) res \<Rightarrow> bool) \<Rightarrow> bool" where
  "ends B m Q \<longleftrightarrow> (\<forall>s. \<exists>r s'. m s = Some (r, s') \<and> B (m_world s') \<le> B (m_world s)
     \<and> (Q r \<longrightarrow> B (m_world s') < B (m_world s)))"

abbreviation halts :: "('w \<Rightarrow> nat) \<Rightarrow> ('w, 'e, 'a) io \<Rightarrow> bool" where
  "halts B m \<equiv> ends B m (\<lambda>_. False)"

named_theorems ends_intros \<open>rules for showing that a computation ends\<close>

lemma endsD:
  assumes "ends B m Q"
  obtains r s' where "m s = Some (r, s')" and "B (m_world s') \<le> B (m_world s)"
    and "Q r \<Longrightarrow> B (m_world s') < B (m_world s)"
  using assms unfolding ends_def by blast

lemma ends_weaken: "ends B m Q \<Longrightarrow> (\<And>r. R r \<Longrightarrow> Q r) \<Longrightarrow> ends B m R"
  unfolding ends_def by blast

lemma ends_halts: "ends B m Q \<Longrightarrow> halts B m"
  by (erule ends_weaken) simp

lemma ends_ret [ends_intros]: "\<not> Q (Ok a) \<Longrightarrow> ends B (ret a) Q"
  by (simp add: ends_def ret_def)

lemma ends_raise [ends_intros]: "\<not> Q (Err e) \<Longrightarrow> ends B (raise e) Q"
  by (simp add: ends_def raise_def)

lemma ends_panic [ends_intros]: "\<not> Q Panic \<Longrightarrow> ends B panic Q"
  by (simp add: ends_def panic_def)

lemma ends_of_res [ends_intros]: "\<not> Q x \<Longrightarrow> ends B (of_res x) Q"
  by (simp add: ends_def of_res_def)

lemma ends_ok_or [ends_intros]: "halts B (ok_or e x)"
  by (cases x) (simp_all add: ok_or_def ends_intros)

lemma ends_unwrap [ends_intros]: "halts B (unwrap x)"
  by (cases x) (simp_all add: unwrap_def ends_intros)

text \<open>Sequences: the budget may have been used by the first part already.\<close>

lemma ends_matchR:
  assumes m: "ends B m P"
    and f: "\<And>a. P (Ok a) \<Longrightarrow> halts B (f a)" "\<And>a. \<not> P (Ok a) \<Longrightarrow> ends B (f a) Q"
    and h: "\<And>e. P (Err e) \<Longrightarrow> halts B (h e)" "\<And>e. \<not> P (Err e) \<Longrightarrow> ends B (h e) Q"
    and panic: "Q Panic \<Longrightarrow> P Panic"
  shows "ends B (matchR m f h) Q"
  unfolding ends_def
proof
  fix s
  obtain x s1 where x: "m s = Some (x, s1)" "B (m_world s1) \<le> B (m_world s)"
    "P x \<Longrightarrow> B (m_world s1) < B (m_world s)" by (rule endsD [where s = s, OF m]) blast
  have go: "\<exists>r s'. k s1 = Some (r, s') \<and> B (m_world s') \<le> B (m_world s) \<and> (Q r \<longrightarrow> B (m_world s') < B (m_world s))"
    if k: "P x \<Longrightarrow> halts B k" "\<not> P x \<Longrightarrow> ends B k Q" for k :: "('a, 'd, 'e) io"
  proof (cases "P x")
    case True
    obtain r s' where "k s1 = Some (r, s')" "B (m_world s') \<le> B (m_world s1)" by (rule endsD [where s = s1, OF k(1) [OF True]]) blast
    with x(3) [OF True] show ?thesis by auto
  next
    case False
    obtain r s' where "k s1 = Some (r, s')" "B (m_world s') \<le> B (m_world s1)"
      "Q r \<Longrightarrow> B (m_world s') < B (m_world s1)" by (rule endsD [where s = s1, OF k(2) [OF False]]) blast
    with x(2) show ?thesis by auto
  qed
  show "\<exists>r s'. matchR m f h s = Some (r, s') \<and> B (m_world s') \<le> B (m_world s)
    \<and> (Q r \<longrightarrow> B (m_world s') < B (m_world s))"
    using x go [of "f _"] go [of "h _"] f h panic
    by (cases x) (auto simp: matchR_def)
qed

lemma bindR_matchR: "bindR m f = matchR m f raise"
  by (auto simp: bindR_def matchR_def raise_def fun_eq_iff split: option.splits res.splits)

lemma ends_bindR:
  assumes "ends B m P" and "\<And>a. P (Ok a) \<Longrightarrow> halts B (f a)" "\<And>a. \<not> P (Ok a) \<Longrightarrow> ends B (f a) Q"
    and "\<And>e. Q (Err e) \<Longrightarrow> P (Err e)" and "Q Panic \<Longrightarrow> P Panic"
  shows "ends B (bindR m f) Q"
  unfolding bindR_matchR using assms by (intro ends_matchR [where P = P] ends_raise) auto

lemma halts_bindR [ends_intros]: "halts B m \<Longrightarrow> (\<And>a. halts B (f a)) \<Longrightarrow> halts B (bindR m f)"
  by (rule ends_bindR) auto

text \<open>The second part only ever sees values the first part returned.\<close>

lemma halts_bindR_result:
  assumes m: "halts B m" and f: "\<And>a s s1. m s = Some (Ok a, s1) \<Longrightarrow> halts B (f a)"
  shows "halts B (bindR m f)"
proof -
  have "bindR m f = bindR m (\<lambda>a. if \<exists>s s1. m s = Some (Ok a, s1) then f a else panic)"
    by (auto simp: bindR_def fun_eq_iff split: option.splits res.splits)
  moreover have "halts B (bindR m (\<lambda>a. if \<exists>s s1. m s = Some (Ok a, s1) then f a else panic))"
    using m f by (intro halts_bindR) (auto intro: ends_panic)
  ultimately show ?thesis by simp
qed

lemma halts_matchR [ends_intros]:
  "halts B m \<Longrightarrow> (\<And>a. halts B (f a)) \<Longrightarrow> (\<And>e. halts B (h e)) \<Longrightarrow> halts B (matchR m f h)"
  by (rule ends_matchR) auto

lemma ends_map_err:
  "ends B m (\<lambda>r. Q (case r of Ok a \<Rightarrow> Ok a | Err e \<Rightarrow> Err (g e) | Panic \<Rightarrow> Panic)) \<Longrightarrow> ends B (map_err g m) Q"
  unfolding ends_def map_err_def by (fastforce split: option.splits)

lemma halts_map_err [ends_intros]: "halts B m \<Longrightarrow> halts B (map_err g m)"
  by (rule ends_map_err)

lemma ends_ensuring [ends_intros]:
  assumes m: "ends B m Q" and c: "halts B c"
  shows "ends B (ensuring m c) Q"
  unfolding ends_def
proof
  fix s
  obtain x s1 where x: "m s = Some (x, s1)" "B (m_world s1) \<le> B (m_world s)"
    "Q x \<Longrightarrow> B (m_world s1) < B (m_world s)" by (rule endsD [where s = s, OF m]) blast
  obtain y s2 where y: "c s1 = Some (y, s2)" "B (m_world s2) \<le> B (m_world s1)" by (rule endsD [where s = s1, OF c]) blast
  from x y show "\<exists>r s'. ensuring m c s = Some (r, s') \<and> B (m_world s') \<le> B (m_world s)
    \<and> (Q r \<longrightarrow> B (m_world s') < B (m_world s))"
    by (auto simp: ensuring_def)
qed

lemma ends_on_failure [ends_intros]:
  assumes m: "ends B m Q" and c: "halts B c"
  shows "ends B (on_failure m c) Q"
  unfolding ends_def
proof
  fix s
  obtain x s1 where x: "m s = Some (x, s1)" "B (m_world s1) \<le> B (m_world s)"
    "Q x \<Longrightarrow> B (m_world s1) < B (m_world s)" by (rule endsD [where s = s, OF m]) blast
  obtain y s2 where y: "c s1 = Some (y, s2)" "B (m_world s2) \<le> B (m_world s1)" by (rule endsD [where s = s1, OF c]) blast
  from x y show "\<exists>r s'. on_failure m c s = Some (r, s') \<and> B (m_world s') \<le> B (m_world s)
    \<and> (Q r \<longrightarrow> B (m_world s') < B (m_world s))"
    by (cases x) (auto simp: on_failure_def)
qed

lemma ends_if [ends_intros]: "(b \<Longrightarrow> ends B m Q) \<Longrightarrow> (\<not> b \<Longrightarrow> ends B n Q) \<Longrightarrow> ends B (if b then m else n) Q"
  by simp

lemma ends_case_option [ends_intros]:
  "(x = None \<Longrightarrow> ends B m Q) \<Longrightarrow> (\<And>a. x = Some a \<Longrightarrow> ends B (f a) Q)
     \<Longrightarrow> ends B (case x of None \<Rightarrow> m | Some a \<Rightarrow> f a) Q"
  by (cases x) simp_all

lemma ends_case_prod [ends_intros]:
  "(\<And>a b. x = (a, b) \<Longrightarrow> ends B (f a b) Q) \<Longrightarrow> ends B (case x of (a, b) \<Rightarrow> f a b) Q"
  by (cases x) simp

lemma ends_case_poll [ends_intros]:
  "(\<And>a. x = Ready a \<Longrightarrow> ends B (f a) Q) \<Longrightarrow> (x = Pending \<Longrightarrow> ends B m Q)
     \<Longrightarrow> ends B (case x of Ready a \<Rightarrow> f a | Pending \<Rightarrow> m) Q"
  by (cases x) simp_all

lemma ends_case_Syscall [ends_intros]:
  "ends B a Q \<Longrightarrow> ends B b Q \<Longrightarrow> ends B c Q
     \<Longrightarrow> ends B (case x of Mknod \<Rightarrow> a | MknodAt \<Rightarrow> b | Syscall.Quotactl \<Rightarrow> c) Q"
  by (cases x) simp_all

lemma ends_let [ends_intros]: "(\<And>a. a = x \<Longrightarrow> ends B (f a) Q) \<Longrightarrow> ends B (let a = x in f a) Q"
  by simp

text \<open>Loops: each further round uses budget or makes the loop state smaller.\<close>

lemma loopM_unfold: "loopM body a = bindR (body a) (\<lambda>x. case x of Inl a' \<Rightarrow> loopM body a' | Inr b \<Rightarrow> ret b)"
  by (rule ext, subst loopM.simps) (auto simp: bindR_def ret_def split: option.splits res.splits sum.splits)

lemma ends_loopM:
  fixes B :: "'w \<Rightarrow> nat" and body :: "'a \<Rightarrow> ('w, 'e, 'a + 'b) io" and size_of :: "'a \<Rightarrow> nat"
  assumes body: "\<And>a. ends B (body a) (\<lambda>r. case r of
       Ok (Inl a') \<Rightarrow> \<not> size_of a' < size_of a | Ok (Inr b) \<Rightarrow> Q (Ok b) | Err e \<Rightarrow> Q (Err e) | Panic \<Rightarrow> Q Panic)"
  shows "ends B (loopM body a) Q"
proof -
  have "\<exists>r s'. loopM body a s = Some (r, s') \<and> B (m_world s') \<le> B (m_world s)
      \<and> (Q r \<longrightarrow> B (m_world s') < B (m_world s))" for a s
  proof (induction "(B (m_world s), size_of a)" arbitrary: a s rule: wf_induct_rule [OF wf_lex_prod [OF wf_less_than wf_less_than]])
    case 1
    let ?P = "\<lambda>r. case r of
       Ok (Inl a') \<Rightarrow> \<not> size_of a' < size_of a | Ok (Inr b) \<Rightarrow> Q (Ok b) | Err e \<Rightarrow> Q (Err e) | Panic \<Rightarrow> Q Panic"
    obtain x s1 where x: "body a s = Some (x, s1)" "B (m_world s1) \<le> B (m_world s)"
      "?P x \<Longrightarrow> B (m_world s1) < B (m_world s)" by (rule endsD [where s = s, OF body [of a]]) blast
    show ?case
    proof (cases "\<exists>a'. x = Ok (Inl a')")
      case True
      then obtain a' where a': "x = Ok (Inl a')" by blast
      with x have "B (m_world s1) < B (m_world s) \<or> (B (m_world s1) = B (m_world s) \<and> size_of a' < size_of a)"
        by (auto simp: le_less)
      then obtain r s' where "loopM body a' s1 = Some (r, s')" "B (m_world s') \<le> B (m_world s1)"
        "Q r \<longrightarrow> B (m_world s') < B (m_world s1)" using 1 [of s1 a'] by auto
      with x(1,2) a' show ?thesis by (subst loopM.simps) auto
    next
      case False
      with x show ?thesis
        by (subst loopM.simps) (auto split: res.splits sum.splits)
    qed
  qed
  then show ?thesis by (simp add: ends_def)
qed

section \<open>Calls\<close>

lemma ends_sys:
  fixes E :: "'w env"
  assumes "live E B"
  shows "ends B (sys E p c) (\<lambda>x. case x of Ok r \<Rightarrow> retried c r | _ \<Rightarrow> True)"
  unfolding ends_def
proof
  fix s :: "'w mach"
  obtain r w where k: "kern E p c (m_world s) = (r, w)" by (cases "kern E p c (m_world s)")
  with assms have "B w \<le> B (m_world s) \<and> (retried c r \<longrightarrow> B w < B (m_world s))"
    unfolding live_def by (metis (no_types, lifting) case_prod_conv)
  with k show "\<exists>x s'. sys E p c s = Some (x, s') \<and> B (m_world s') \<le> B (m_world s)
      \<and> ((case x of Ok r \<Rightarrow> retried c r | _ \<Rightarrow> True) \<longrightarrow> B (m_world s') < B (m_world s))"
    by (simp add: sys_def)
qed

lemma halts_sys [ends_intros]: "live E B \<Longrightarrow> halts B (sys E p c)"
  by (rule ends_halts [OF ends_sys])

text \<open>Calls that are retried when they fail with the error \<open>e\<close>.\<close>

abbreviation retries_failure :: "call \<Rightarrow> io_error \<Rightarrow> bool" where
  "retries_failure c e \<equiv> (\<forall>r. r_ret r = -1 \<longrightarrow> e = OsErr (r_errno r) \<longrightarrow> retried c r)"

lemma ends_c_result:
  assumes "live E B"
  shows "ends B (c_result E p c) (\<lambda>x. case x of Ok r \<Rightarrow> retried c r \<or> r_ret r = -1 | Err e \<Rightarrow> retries_failure c e | Panic \<Rightarrow> True)"
  unfolding c_result_def
  by (rule ends_bindR [OF ends_sys [OF assms]]) (auto intro!: ends_intros split: if_splits)

lemma halts_c_result [ends_intros]: "live E B \<Longrightarrow> halts B (c_result E p c)"
  by (rule ends_halts [OF ends_c_result])

lemma halts_results [ends_intros]:
  "live E B \<Longrightarrow> halts B (tokio_result E p c)" "live E B \<Longrightarrow> halts B (nix_result E p c)"
  unfolding tokio_result_def nix_result_def by (intro ends_intros; simp)+

lemma halts_drop_fd [ends_intros]: "live E B \<Longrightarrow> halts B (drop_fd E p fd)"
  unfolding drop_fd_def by (intro ends_intros; simp)

lemma halts_drop_fds [ends_intros]: "live E B \<Longrightarrow> halts B (drop_fds E p fds)"
  by (induction fds) (auto intro!: ends_intros)

lemma ends_owning [ends_intros]: "live E B \<Longrightarrow> ends B m Q \<Longrightarrow> ends B (owning E p fd m) Q"
  unfolding owning_def by (intro ends_intros)

lemma ends_closing_on_error [ends_intros]: "live E B \<Longrightarrow> ends B m Q \<Longrightarrow> ends B (closing_on_error E p fd m) Q"
  unfolding closing_on_error_def by (intro ends_intros)

lemma halts_owned_fd [ends_intros]: "halts B (owned_fd fd)"
  unfolding owned_fd_def by (intro ends_intros; simp)

section \<open>Reading and writing\<close>

lemmas loop_rule = ends_loopM [where size_of = "\<lambda>_. 0"]

text \<open>Waiting for readiness: the call is tried again only after it failed.\<close>

lemma ends_wrap_read:
  assumes "live E B" and "\<And>r. r_ret r = -1 \<Longrightarrow> r_errno r = EAGAIN \<Longrightarrow> retried c r"
  shows "ends B (wrap_read E p fd (c_result E p c)) (\<lambda>x. case x of Ok r \<Rightarrow> retried c r \<or> r_ret r = -1 | _ \<Rightarrow> False)"
    and "ends B (wrap_write E p fd (c_result E p c)) (\<lambda>x. case x of Ok r \<Rightarrow> retried c r \<or> r_ret r = -1 | _ \<Rightarrow> False)"
  unfolding wrap_read_def wrap_write_def
  by (rule loop_rule, rule ends_bindR [OF halts_results(1) [OF assms(1)]], simp,
      rule ends_matchR [OF ends_c_result [OF assms(1)]], use assms in \<open>auto simp: would_block_def intro!: ends_intros\<close>)+

lemma ends_recvmsg:
  "live E B \<Longrightarrow> ends B (recvmsg_vectored E p socket iov buf) (\<lambda>x. case x of Ok (n, _) \<Rightarrow> n \<noteq> 0 | _ \<Rightarrow> False)"
  unfolding recvmsg_vectored_def
  by (rule ends_bindR [OF ends_wrap_read(1)]) (auto simp: retry_defs intro!: ends_intros)

lemma halts_sendmsg [ends_intros]: "live E B \<Longrightarrow> halts B (sendmsg_vectored E p socket iov)"
  unfolding sendmsg_vectored_def
  by (rule ends_bindR [OF ends_wrap_read(2)]) (auto simp: retry_defs intro!: ends_intros)

lemma ends_read_some:
  assumes "live E B"
  shows "ends B (read_some E p fd) (\<lambda>x. case x of Ok bs \<Rightarrow> bs \<noteq> [] | _ \<Rightarrow> False)"
  unfolding read_some_def
  by (rule loop_rule, rule ends_matchR [OF ends_c_result [OF assms]])
     (auto simp: retry_defs fit_def intro!: ends_intros)

lemma halts_read_to_end [ends_intros]: "live E B \<Longrightarrow> halts B (read_to_end E p fd)"
  unfolding read_to_end_def
  by (rule loop_rule, rule ends_bindR [OF ends_read_some]) (auto intro!: ends_intros)

lemma split_newline_shorter: "split_newline buf = Some (line, rest) \<Longrightarrow> length rest < length buf"
proof -
  assume "split_newline buf = Some (line, rest)"
  then have "10 \<in> set buf" and rest: "rest = tl (dropWhile (\<lambda>b. b \<noteq> 10) buf)"
    by (auto simp: split_newline_def split: if_splits)
  then have "dropWhile (\<lambda>b. b \<noteq> 10) buf \<noteq> []" by (auto simp: dropWhile_eq_Nil_conv)
  then have "length rest < length (dropWhile (\<lambda>b. b \<noteq> 10) buf)" by (simp add: rest)
  also have "\<dots> \<le> length buf" by (rule length_dropWhile_le)
  finally show ?thesis .
qed

text \<open>A line either comes out of the buffer, which gets shorter, or was read.\<close>

lemma ends_next_split:
  fixes E :: "'w env"
  assumes "live E B"
  shows "ends B (next_split E p fd buf) (\<lambda>x. case x of Ok (l, rest) \<Rightarrow> l \<noteq> None \<and> \<not> length rest < length buf | _ \<Rightarrow> False)"
proof -
  let ?body = "\<lambda>buf. case split_newline buf of
       Some (line, rest) \<Rightarrow> ret (Inr (Some (line, True), rest))
     | None \<Rightarrow> bindR (read_some E p fd) (\<lambda>bs.
         if bs = [] then ret (Inr (if buf = [] then None else Some (buf, False), []))
         else ret (Inl (buf @ bs)))"
  have body: "ends B (?body buf) (\<lambda>x. case x of Ok (Inl _) \<Rightarrow> True
      | Ok (Inr (l, rest)) \<Rightarrow> l \<noteq> None \<and> \<not> length rest < length buf | _ \<Rightarrow> False)" for buf
    by (cases "split_newline buf")
       (auto intro!: ends_bindR [OF ends_read_some [OF assms]] ends_intros dest: split_newline_shorter)
  have loop: "halts B (loopM ?body buf)" for buf
    by (rule loop_rule, rule ends_weaken [OF body]) (auto split: res.splits sum.splits)
  show ?thesis
    unfolding next_split_def
    by (subst loopM_unfold, rule ends_bindR [OF body])
       (auto split: sum.splits intro!: ends_intros loop)
qed

lemma ends_next_line:
  assumes "live E B"
  shows "ends B (next_line E p fd buf) (\<lambda>x. case x of Ok (l, rest) \<Rightarrow> l \<noteq> None \<and> \<not> length rest < length buf | _ \<Rightarrow> False)"
  unfolding next_line_def
  by (rule ends_bindR [OF ends_next_split [OF assms]]) (auto split: option.splits intro!: ends_intros)

lemma halts_for_lines [ends_intros]:
  assumes "live E B"
  shows "halts B (for_lines E p fd f g a)"
  unfolding for_lines_def
  by (rule ends_loopM [where size_of = "\<lambda>(buf, a). length buf"], clarify, rule ends_bindR [OF ends_next_line [OF assms]])
     (auto split: option.splits sum.splits intro!: ends_intros halts_bindR ends_bindR [OF ends_of_res])

lemma halts_write_all [ends_intros]:
  assumes "live E B"
  shows "halts B (write_all E p fd buf)"
  unfolding write_all_def
  by (rule ends_loopM [where size_of = length], rule ends_if, rule ends_ret, simp,
      rule ends_matchR [OF ends_c_result [OF assms]]) (auto simp: retry_defs intro!: ends_intros)

lemma ends_tokio_result:
  "live E B \<Longrightarrow> ends B (tokio_result E p c) (\<lambda>x. case x of Ok r \<Rightarrow> retried c r | _ \<Rightarrow> False)"
  unfolding tokio_result_def by (rule ends_bindR [OF ends_sys]) (auto intro!: ends_intros split: if_splits)

lemma ends_poll_read:
  assumes "live E B"
  shows "ends B (poll_read E p fd buf) (\<lambda>x. case x of Ok Pending \<Rightarrow> True
     | Ok (Ready b) \<Rightarrow> length (rb_filled b) \<noteq> length (rb_filled buf) | _ \<Rightarrow> False)"
  unfolding poll_read_def Let_def
  apply (rule ends_bindR [OF ends_tokio_result [OF assms]])
     apply (simp add: retry_defs ends_intros)
    apply (simp add: retry_defs)
    apply (rule ends_matchR [OF ends_c_result [OF assms]])
        apply (use assms in \<open>auto simp: retry_defs intro!: ends_intros\<close>)
  done

lemma halts_read_exact [ends_intros]:
  assumes "live E B"
  shows "halts B (read_exact E p fd n)"
  unfolding read_exact_def
  by (rule loop_rule, rule ends_if, rule ends_ret, simp, rule ends_bindR [OF ends_poll_read [OF assms]])
     (auto split: poll.splits intro!: ends_intros)

lemma halts_Fork_wait:
  assumes "live E B" and "pid \<noteq> -1"
  shows "halts B (Fork_wait E p pid)"
  unfolding Fork_wait_def
  by (rule halts_bindR, rule loop_rule, rule ends_matchR [OF ends_c_result [OF assms(1)]])
     (use assms(2) in \<open>auto simp: retry_defs intro!: ends_intros\<close>)

section \<open>The components\<close>

lemma halts_opens [ends_intros]:
  assumes "live E B"
  shows "halts B (PidFd_fd E p self path flags mode)" "halts B (fd_cwd E p self)" "halts B (fd_num E p self num flags)"
    "halts B (open_file E p self path flags mode)" "halts B (open_buffered E p self path)"
    "halts B (PidFd_open E p pid)" "halts B (NsFd_openat E p ty fd path)"
  unfolding file_open_defs PidFd_fd_def PidFd_open_def NsFd_openat_def RawNsFd_openat_def
  by (intro ends_intros assms; simp)+

lemma halts_get_cgroups [ends_intros]:
  assumes "live E B"
  shows "halts B (get_cgroups E p self)"
proof -
  have split: "ends B (map_err IoErr (next_split E p reader buf)) (\<lambda>x. case x of
      Ok (l, rest) \<Rightarrow> l \<noteq> None \<and> \<not> length rest < length buf | _ \<Rightarrow> False)" for reader buf
    by (rule ends_map_err, rule ends_weaken [OF ends_next_split [OF assms]]) (auto split: res.splits)
  have "halts B (loopM (\<lambda>(buf, cg).
       bindR (map_err IoErr (next_split E p reader buf)) (\<lambda>(x, rest). case x of
           None \<Rightarrow> ret (Inr cg)
         | Some (line, nl) \<Rightarrow> bindR (of_res (cgroup_line line cg)) (\<lambda>cg'. ret (Inl (rest, cg'))))) (buf, cg))" for reader buf cg
    by (rule ends_loopM [where size_of = "\<lambda>(buf, a). length buf"], clarify, rule ends_bindR [OF split])
       (auto split: option.splits intro!: ends_intros ends_bindR [OF ends_of_res])
  then show ?thesis
    unfolding get_cgroups_def by (intro ends_intros assms)
qed

lemma halts_inspections [ends_intros]:
  assumes "live E B"
  shows "halts B (read_pid E p self)" "halts B (get_status E p self)" "halts B (read_file E p self path)"
    "halts B (get_uid_map E p self)" "halts B (get_gid_map E p self)" "halts B (get_label E p self)"
    "halts B (try_from_fd E p fd)"
  unfolding try_from_fd_def read_pid_def get_status_def read_file_def get_uid_map_def get_gid_map_def
    get_uid_gid_map_def get_label_def
  by (intro ends_intros assms; simp)+

lemma halts_UserCaps_new [ends_intros]: "live E B \<Longrightarrow> halts B (UserCaps_new E p pidfd)"
  unfolding UserCaps_new_def by (intro ends_intros; simp)

lemma halts_fs_write [ends_intros]:
  assumes "live E B"
  shows "halts B (fs_write E p path bs)"
proof -
  have "halts B (loopM (\<lambda>_. matchR (c_result E p (create_call path))
      (\<lambda>r. bindR (owned_fd (r_ret r)) (\<lambda>fd. ret (Inr fd)))
      (\<lambda>e. if interrupted e then ret (Inl ()) else raise e)) ())"
    by (rule loop_rule, rule ends_matchR [OF ends_c_result [OF assms]])
       (auto simp: retry_defs intro!: ends_intros ends_bindR [OF halts_owned_fd])
  then show ?thesis unfolding fs_write_def by (intro ends_intros assms; simp)
qed

lemma halts_apply_current [ends_intros]:
  assumes "live E B"
  shows "halts B (apply_current E p caps)"
  unfolding apply_current_def PidFd_current_def UserCaps_apply_def apply_cgroups_def enter_cgroup_def mount_namespace_def
    NsFd_setns_def RawNsFd_setns_def enter_chroot_def enter_cwd_def set_label_def
    apply_user_caps_def SecureBits_get_current_def SecureBits_apply_def capset_def
  by (intro ends_intros assms; simp)

lemma halts_set_fd_nonblocking [ends_intros]: "live E B \<Longrightarrow> halts B (set_fd_nonblocking E p fd on)"
  unfolding set_fd_nonblocking_def by (intro ends_intros; simp)

lemma halts_catch_unwind [ends_intros]: "halts B m \<Longrightarrow> halts B h \<Longrightarrow> halts B (catch_unwind m h)"
  unfolding ends_def catch_unwind_def by (fastforce split: option.splits res.splits)

lemma Fork_new_pid:
  assumes "Fork_new E p func captured s = Some (Ok fork, s')"
  shows "fk_pid fork \<noteq> -1"
  using assms by (auto simp: Fork_new_def ensuring_run run_simps Let_def)

lemma halts_forking_syscall [ends_intros]:
  assumes "live E B" and "\<And>q. halts B (func q)"
  shows "halts B (forking_syscall E p func captured)"
  unfolding forking_syscall_def
proof (rule halts_bindR_result)
  show "halts B (Fork_new E p func captured)"
    unfolding Fork_new_def pipe_fds_def child_main_def child_report_def Pipe_try_from_def async_fd_new_def
    by (intro ends_intros assms; simp)
  fix fork s s1
  assume "Fork_new E p func captured s = Some (Ok fork, s1)"
  then have "fk_pid fork \<noteq> -1" by (rule Fork_new_pid)
  then show "halts B (owning E p (fk_out fork) (
       bindR (on_failure (get_result E p (fk_out fork)) (Fork_wait E p (fk_pid fork))) (\<lambda>result.
       bindR (Fork_wait E p (fk_pid fork)) (\<lambda>_. ret result))))"
    unfolding get_result_def by (intro ends_intros halts_Fork_wait assms; simp)
qed

lemma halts_msg_fds [ends_intros]: "halts B (msg_pid_fd msg)" "halts B (msg_mem_fd msg)"
  unfolding msg_pid_fd_def msg_mem_fd_def by (intro ends_intros)+

lemma halts_arguments [ends_intros]:
  assumes "live E B"
  shows "halts B (vec_uninitialized E p n)"
    "halts B (get_c_string E p msg ofs)" "halts B (arg_opt_c_string E p msg i)" "halts B (arg_c_string E p msg i)"
    "halts B (arg_struct_by_ptr E p msg i n)" "halts B (mem_write_struct E p msg ofs data)" "halts B (arg_fd E p msg i flags)"
  unfolding arg_c_string_def arg_opt_c_string_def get_c_string_def arg_struct_by_ptr_def mem_write_struct_def arg_fd_def
    vec_uninitialized_def
  by (intro ends_intros assms; simp)+

lemma halts_sc_libc_try [ends_intros]:
  "live E B \<Longrightarrow> (\<And>r. halts B (k r)) \<Longrightarrow> halts B (sc_libc_try E p c k)"
  unfolding sc_libc_try_def by (intro ends_intros; simp)

lemma halts_mknod [ends_intros]:
  assumes "live E B"
  shows "halts B (mknod E msg)" "halts B (mknodat E msg)"
  unfolding mknod_def mknodat_def do_mknodat_def mknodat_child_def by (intro ends_intros assms; simp)+

lemma halts_quota_fork [ends_intros]:
  assumes "live E B" and "\<And>q r. halts B (k q r)"
  shows "halts B (quota_fork E msg cmd special i addr k)"
  unfolding quota_fork_def quota_child_def by (intro ends_intros assms)

lemma halts_quotactl [ends_intros]:
  assumes "live E B"
  shows "halts B (quotactl E msg)"
  unfolding quotactl_def quota_handler_defs uid_gid_arg_def write_back_def return_zero_def return_out_def write_back_next_def
    Let_def
  by (intro ends_intros assms; simp)

lemma halts_handle_syscall [ends_intros]:
  assumes "live E B"
  shows "halts B (handle_syscall E self msg)"
  unfolding handle_syscall_def handle_syscall_do_def respond_def by (intro ends_intros assms; simp)

lemma halts_owned_fds [ends_intros]: "live E B \<Longrightarrow> halts B (owned_fds E p vec fds)"
  by (induction fds arbitrary: vec) (auto intro!: ends_intros)

lemma halts_recv_message [ends_intros]:
  assumes "live E B"
  shows "halts B (recv_message E p self datalen cmsglen buf)"
  unfolding recv_message_def recv_fds_def by (intro ends_intros assms; simp)

lemma halts_drop_opt [ends_intros]: "live E B \<Longrightarrow> halts B (drop_opt E p x)"
  unfolding drop_opt_def by (intro ends_intros; simp)

text \<open>A received message used budget.\<close>

lemma ends_recv:
  assumes "live E B"
  shows "ends B (recv E p msg socket) (\<lambda>x. case x of Ok (got, _) \<Rightarrow> got | _ \<Rightarrow> False)"
proof -
  have "ends B (map_err IoErr (recvmsg_vectored E p socket iov buf)) (\<lambda>x. case x of Ok (n, _) \<Rightarrow> n \<noteq> 0 | _ \<Rightarrow> False)" for iov buf
    by (rule ends_map_err, rule ends_weaken [OF ends_recvmsg [OF assms]]) (auto split: res.splits)
  moreover have "halts B (reset E p msg)" "halts B (cmsg_buffer E p n :: ('a, error, bytes) io)" for n
    unfolding reset_def cmsg_buffer_def by (intro ends_intros assms; simp)+
  ultimately show ?thesis
    unfolding recv_def
    by (intro ends_bindR [where P = "\<lambda>_. False"] ends_bindR [where P = "\<lambda>x. case x of Ok (n, _) \<Rightarrow> n \<noteq> 0 | _ \<Rightarrow> False"])
       (auto simp: recv_message_def assms intro!: ends_intros)
qed

lemma ends_main_round:
  assumes "live E B"
  shows "ends B (main_round E self msg) (\<lambda>x. case x of Ok (Inl _) \<Rightarrow> True | _ \<Rightarrow> False)"
  unfolding main_round_def drop_msg_def
  by (rule ends_bindR [OF ends_recv [OF assms]]) (auto intro!: ends_intros assms)

lemma halts_get_checked [ends_intros]: "live E B \<Longrightarrow> halts B (SeccompNotifSizes_get_checked E p)"
  unfolding SeccompNotifSizes_get_checked_def SeccompNotifSizes_get_def by (intro ends_intros; simp)

lemma halts_SECCOMP_SIZES [ends_intros]:
  assumes "live E B"
  shows "halts B (SECCOMP_SIZES E p)"
  unfolding ends_def
proof
  fix s
  obtain x s1 where "SeccompNotifSizes_get_checked E p s = Some (x, s1)" "B (m_world s1) \<le> B (m_world s)"
    by (rule endsD [where s = s, OF halts_get_checked [OF assms]]) blast
  then show "\<exists>r s'. SECCOMP_SIZES E p s = Some (r, s') \<and> B (m_world s') \<le> B (m_world s) \<and> (False \<longrightarrow> B (m_world s') < B (m_world s))"
    by (auto simp: SECCOMP_SIZES_def split: static.splits res.splits)
qed

lemma halts_main_do [ends_intros]:
  assumes "live E B"
  shows "halts B (main_do E self)"
proof -
  have "halts B (loopM (main_round E self) msg)" for msg
    by (rule loop_rule, rule ends_weaken [OF ends_main_round [OF assms]]) (auto split: res.splits sum.splits)
  then show ?thesis
    unfolding main_do_def ProxyMessageBuffer_new_def by (intro ends_intros assms; simp)
qed

section \<open>Properties\<close>

text \<open>An environment in which nothing is ever retried, no file has contents and no message arrives;
  sending always succeeds.\<close>

definition steady :: "unit env" where
  "steady = env_of (\<lambda>p c w. (case c of Waitpid pid \<Rightarrow> returns pid | PollReadReady fd \<Rightarrow> returns 1
     | Sendmsg fd iov \<Rightarrow> returns (int (sum_list (map length iov))) | _ \<Rightarrow> returns 0, w))"

lemma live_steady: "live steady (\<lambda>_. 0)"
  unfolding live_def
proof (intro allI)
  fix p c and w :: unit
  have "0 \<le> int n" for n by simp
  then have "int n \<noteq> -1" for n by linarith
  then show "case kern steady p c w of (r, w') \<Rightarrow> (0 :: nat) \<le> 0 \<and> (retried c r \<longrightarrow> (0 :: nat) < 0)"
    by (cases c) (simp_all add: steady_def env_of_def returns_def retried_def)
qed



text \<open>A kernel that does not refuse to send: the socket can be waited for, and a packet is sent as a whole
  or not yet.\<close>

definition sends :: "'w env \<Rightarrow> bool" where
  "sends E \<longleftrightarrow> (\<forall>p fd iov w. r_ret (fst (kern E p (Writable fd) w)) \<noteq> -1
     \<and> (let r = fst (kern E p (Sendmsg fd iov) w) in
        r_ret r = int (sum_list (map length iov)) \<or> (r_ret r = -1 \<and> r_errno r = EAGAIN)))"

lemma sends_answer:
  assumes "sends E"
  shows "r_ret (answer E p (Writable fd) s) \<noteq> -1"
    and "r_ret (answer E p (Sendmsg fd iov) s) = int (sum_list (map length iov))
      \<or> (r_ret (answer E p (Sendmsg fd iov) s) = -1 \<and> r_errno (answer E p (Sendmsg fd iov) s) = EAGAIN)"
  using assms by (auto simp: sends_def answer_def Let_def)

lemma respond_returns:
  assumes "live E B" and "sends E"
  shows "\<exists>s'. respond E p msg socket s = Some (Ok (), s')"
proof -
  let ?c = "Sendmsg socket (msg_iov msg)"
  obtain r s' where run: "wrap_write E p socket (c_result E p ?c) s = Some (r, s')"
    by (rule endsD [where s = s, OF ends_wrap_read(2) [OF assms(1)]]) (auto simp: retry_defs)
  then obtain s1 x where x: "bindR (tokio_result E p (Writable socket)) (\<lambda>_.
     matchR (c_result E p ?c) (\<lambda>v. ret (Inr v)) (\<lambda>err.
       if would_block err then bindR (sys E p (ClearReady socket)) (\<lambda>_. ret (Inl ()))
       else raise err)) s1 = Some (x, s')" "ends_loop x r"
    unfolding wrap_write_def by (rule loopM_last [where I = "\<lambda>_ _. True"]) auto
  then have "\<exists>v. r = Ok v \<and> r_ret v = int (sum_list (map length (msg_iov msg)))"
    using sends_answer(1) [OF assms(2), of p socket s1]
      sends_answer(2) [OF assms(2), of p socket "msg_iov msg" "after E p (Writable socket) s1"]
    by (cases r) (auto simp: run_simps would_block_def split: if_splits)
  with run show ?thesis
    by (auto simp: respond_def sendmsg_vectored_def bindR_def ret_def Let_def)
qed


lemma sends_steady: "sends steady"
  by (simp add: sends_def steady_def env_of_def returns_def Let_def)


end
