(* ===== verification/ProcFs.thy ===== *)
theory ProcFs
  imports UserCaps
begin

text \<open>
  What the kernel prints into the files of \<^verbatim>\<open>/proc/PID\<close>, and that the program reads it back: the credentials in
  \<^verbatim>\<open>status\<close>, the control groups, the AppArmor label, and together the environment that \<^verbatim>\<open>UserCaps::new\<close> collects.
\<close>

section \<open>The control group file\<close>

text \<open>A line of \<^verbatim>\<open>/proc/PID/cgroup\<close> as the kernel prints it: hierarchy, its controllers (none for the unified one), path.\<close>

record CGroupEntry =
  ce_id :: nat
  ce_names :: "bytes list"
  ce_path :: bytes

fun join_comma :: "bytes list \<Rightarrow> bytes" where
  "join_comma [] = []"
| "join_comma [w] = w"
| "join_comma (w # ws) = w @ 44 # join_comma ws"

definition show_cgroup :: "CGroupEntry \<Rightarrow> bytes" where
  "show_cgroup e = show_nat (ce_id e) @ 58 # join_comma (ce_names e) @ 58 # ce_path e @ [10]"

definition wf_cgroup :: "CGroupEntry \<Rightarrow> bool" where
  "wf_cgroup e \<longleftrightarrow> 10 \<notin> set (ce_path e)
     \<and> list_all (\<lambda>w. w \<noteq> [] \<and> list_all (\<lambda>b. b < 0x80 \<and> b \<noteq> 10 \<and> b \<noteq> 44 \<and> b \<noteq> 58) w) (ce_names e)"

definition add_cgroup :: "CGroups \<Rightarrow> CGroupEntry \<Rightarrow> CGroups" where
  "add_cgroup cg e = (if ce_names e = [] then cg\<lparr>cg_v2 := Some (ce_path e)\<rparr> else foldl (insert_v1 (ce_path e)) cg (ce_names e))"

lemma set_join_comma: "set (join_comma ws) \<subseteq> insert 44 (\<Union> (set ` set ws))"
  by (induction ws rule: join_comma.induct) auto

lemma join_comma_Nil: "list_all (\<lambda>w. w \<noteq> []) ws \<Longrightarrow> join_comma ws = [] \<longleftrightarrow> ws = []"
  by (induction ws rule: join_comma.induct) auto

lemma split_at_byte:
  assumes "x \<notin> set w"
  shows "split_on (\<lambda>b. b = x) w = [w]" "split_on (\<lambda>b. b = x) (w @ x # rest) = w # split_on (\<lambda>b. b = x) rest"
    "splitn (Suc (Suc n)) (\<lambda>b. b = x) (w @ x # rest) = w # splitn (Suc n) (\<lambda>b. b = x) rest"
proof -
  have "list_all (\<lambda>b. \<not> b = x) w" using assms by (auto simp: list_all_iff)
  then show "split_on (\<lambda>b. b = x) w = [w]" "split_on (\<lambda>b. b = x) (w @ x # rest) = w # split_on (\<lambda>b. b = x) rest"
    by (rule split_on_word, rule split_on_append) simp
  show "splitn (Suc (Suc n)) (\<lambda>b. b = x) (w @ x # rest) = w # splitn (Suc n) (\<lambda>b. b = x) rest"
    using assms by (induction w) auto
qed

lemma split_join_comma:
  "ws \<noteq> [] \<Longrightarrow> list_all (\<lambda>w. 44 \<notin> set w) ws \<Longrightarrow> split_on (\<lambda>b. b = 44) (join_comma ws) = ws"
  by (induction ws rule: join_comma.induct) (simp_all add: split_at_byte)

lemma cgroup_line_show:
  assumes "wf_cgroup e"
  shows "cgroup_line (show_nat (ce_id e) @ 58 # join_comma (ce_names e) @ 58 # ce_path e) cg = Ok (add_cgroup cg e)"
proof -
  have names: "list_all (\<lambda>w. w \<noteq> []) (ce_names e)" "list_all (\<lambda>w. 44 \<notin> set w) (ce_names e)"
    "list_all (\<lambda>b. b < 0x80) (join_comma (ce_names e))" "list_all (\<lambda>b. b \<noteq> 58) (join_comma (ce_names e))"
    using assms set_join_comma [of "ce_names e"] by (fastforce simp: wf_cgroup_def list_all_iff)+
  have "58 \<notin> set (show_nat (ce_id e))"
    using show_nat_digits [of "ce_id e"] by (auto simp: list_all_iff word_le_nat_alt)
  then have "splitn 3 (\<lambda>b. b = 58) (show_nat (ce_id e) @ 58 # join_comma (ce_names e) @ 58 # ce_path e)
      = [show_nat (ce_id e), join_comma (ce_names e), ce_path e]"
    using names(4) unfolding numeral_3_eq_3 by (subst split_at_byte(3), simp, subst split_at_byte(3)) (auto simp: list_all_iff)
  with names show ?thesis
    by (simp add: cgroup_line_def add_cgroup_def nth_opt_def utf8_valid_ascii join_comma_Nil split_join_comma numeral_2_eq_2)
qed

lemma parse_cgroups_show:
  assumes "list_all wf_cgroup es"
  shows "fold_raw (\<lambda>(line, nl) cg. bindP (cgroup_line line cg) (\<lambda>cg'. Ok (Inl cg'))) Ok cg (raw_lines (concat (map show_cgroup es)))
    = Ok (foldl add_cgroup cg es)"
  using assms
proof (induction es arbitrary: cg)
  case Nil
  then show ?case by simp
next
  case (Cons e es)
  let ?l = "show_nat (ce_id e) @ 58 # join_comma (ce_names e) @ 58 # ce_path e"
  have "10 \<notin> set ?l"
    using Cons.prems show_nat_plain [of "ce_id e"] set_join_comma [of "ce_names e"]
    by (fastforce simp: wf_cgroup_def list_all_iff)
  from raw_lines_line [OF this, of "concat (map show_cgroup es)"]
  have "raw_lines (concat (map show_cgroup (e # es))) = (?l, True) # raw_lines (concat (map show_cgroup es))"
    by (simp add: show_cgroup_def)
  with Cons show ?case by (simp add: cgroup_line_show)
qed

lemma insert_v1_lookup:
  "cg_v2 (foldl (insert_v1 path) cg names) = cg_v2 cg"
  "CGroups_get (foldl (insert_v1 path) cg names) n = (if n \<in> set names then Some path else CGroups_get cg n)"
  "has_v1 (foldl (insert_v1 path) cg names) \<longleftrightarrow> names \<noteq> [] \<or> has_v1 cg"
  by (induction names arbitrary: cg) (auto simp: insert_v1_def CGroups_get_def has_v1_def Let_def split: option.splits)

lemma add_cgroups_lookup:
  "cg_v2 (foldl add_cgroup CGroups_new es) = map_option ce_path (find (\<lambda>e. ce_names e = []) (rev es))"
  "CGroups_get (foldl add_cgroup CGroups_new es) n = map_option ce_path (find (\<lambda>e. n \<in> set (ce_names e)) (rev es))"
  "has_v1 (foldl add_cgroup CGroups_new es) \<longleftrightarrow> list_ex (\<lambda>e. ce_names e \<noteq> []) es"
  by (induction es rule: rev_induct)
     (auto simp: add_cgroup_def insert_v1_lookup, simp_all add: CGroups_new_def CGroups_get_def has_v1_def)

text \<open>C31: Reading the control groups of a process from a file of any length, as the kernel prints it: the unified group is
  the path of the line without controllers, the group of a controller the path of the line that lists it
  (the last one, should there be several), and a hierarchy of version 1 is known to exist exactly when some line lists
  controllers.\<close>

theorem cgroup_file_lookup:
  assumes "list_all wf_cgroup es" and "proc_file E p self (str ''cgroup'') (concat (map show_cgroup es)) s"
  shows "\<exists>cg fd s'. get_cgroups E p self s = Some (Ok cg, after E p (Close fd) s')
    \<and> CGroups_v2 cg = map_option ce_path (find (\<lambda>e. ce_names e = []) (rev es))
    \<and> (\<forall>n. CGroups_get cg n = map_option ce_path (find (\<lambda>e. n \<in> set (ce_names e)) (rev es)))
    \<and> (has_v1 cg \<longleftrightarrow> list_ex (\<lambda>e. ce_names e \<noteq> []) es)"
  using get_cgroups_run [OF assms(2)] parse_cgroups_show [OF assms(1), of CGroups_new] add_cgroups_lookup [of es]
  by (auto simp: parse_cgroups_def CGroups_v2_def simp del: str_Cons)

theorem cgroup_file_lookup_witness:
  "\<exists>cg fd s'. get_cgroups script Daemon \<lparr>pf_fd = 11, pf_pid = 200\<rparr>
      (boot [returns 7, delivers (show_cgroup \<lparr>ce_id = 4, ce_names = [str ''devices''], ce_path = str ''/a''\<rparr>),
         delivers (show_cgroup \<lparr>ce_id = 0, ce_names = [], ce_path = str ''/lxc''\<rparr>), returns 0, returns 0])
    = Some (Ok cg, after script Daemon (Close fd) s') \<and> CGroups_v2 cg = Some (str ''/lxc'')
    \<and> CGroups_get cg (str ''devices'') = Some (str ''/a'')"
proof -
  let ?es = "[\<lparr>ce_id = 4, ce_names = [str ''devices''], ce_path = str ''/a''\<rparr>, \<lparr>ce_id = 0, ce_names = [], ce_path = str ''/lxc''\<rparr>]"
  have wf: "list_all wf_cgroup ?es" by (simp add: wf_cgroup_def)
  have served: "proc_file script Daemon \<lparr>pf_fd = 11, pf_pid = 200\<rparr> (str ''cgroup'') (concat (map show_cgroup ?es))
     (boot [returns 7, delivers (show_cgroup (?es ! 0)), delivers (show_cgroup (?es ! 1)), returns 0, returns 0])"
    by (simp add: proc_file_def answer_def after_def sample_defs,
        intro exI [of _ "[show_cgroup (?es ! 0), show_cgroup (?es ! 1)]"]) (simp add: show_cgroup_def show_nat.simps)
  from cgroup_file_lookup [OF wf served] show ?thesis by auto blast
qed

section \<open>The status file\<close>

text \<open>Numbers with a fixed number of digits, as in the capability sets (16 hexadecimal digits) and the umask (4 octal).\<close>

fun show_fixed :: "nat \<Rightarrow> nat \<Rightarrow> nat \<Rightarrow> bytes" where
  "show_fixed 0 radix n = []"
| "show_fixed (Suc k) radix n = show_fixed k radix (n div radix) @ [of_nat (if n mod radix < 10 then 48 + n mod radix else 87 + n mod radix)]"

lemma digit_shown:
  assumes "d < radix" and "radix \<le> 36"
  defines "b \<equiv> (of_nat (if d < 10 then 48 + d else 87 + d) :: u8)"
  shows "digit_of radix b = Some d" and "b \<noteq> 43" and "b < 0x80" and "\<not> is_ascii_whitespace b" and "b \<noteq> 13"
proof -
  have b: "unat b = (if d < 10 then 48 + d else 87 + d)"
    using assms(1,2) unfolding b_def by (subst unat_of_nat) (simp add: mod_less)
  show "digit_of radix b = Some d"
    using b assms(1,2) by (simp add: digit_of_def word_le_nat_alt Let_def split: if_splits)
  show "b \<noteq> 43" "b < 0x80" "\<not> is_ascii_whitespace b" "b \<noteq> 13"
    using b assms(1,2) by (auto simp: is_ascii_whitespace_def word_less_nat_alt split: if_splits)
qed

lemma parse_show_fixed:
  assumes "0 < radix" and "radix \<le> 36"
  shows "parse_digits radix 0 (show_fixed k radix n) = Some (n mod radix ^ k)"
proof (induction k arbitrary: n)
  case (Suc k)
  have "n div radix mod radix ^ k * radix + n mod radix = n mod radix ^ Suc k"
    by (simp add: mod_mult2_eq mult.commute)
  with Suc assms show ?case by (simp add: parse_digits_append digit_shown(1))
qed simp

lemma show_fixed_bytes:
  assumes "0 < radix" and "radix \<le> 36"
  shows "list_all (\<lambda>b. b < 0x80 \<and> \<not> is_ascii_whitespace b \<and> b \<noteq> 43 \<and> b \<noteq> 13) (show_fixed k radix n)"
proof (induction k arbitrary: n)
  case (Suc k)
  have "n mod radix < radix" using assms(1) by simp
  from digit_shown(2-5) [OF this assms(2)] Suc show ?case by simp
qed simp

lemma length_show_fixed [simp]: "length (show_fixed k radix n) = k"
  by (induction k arbitrary: n) simp_all

lemma from_str_show_fixed:
  assumes "0 < radix" and "radix \<le> 36" and "0 < k" and "n < radix ^ k" and "n < 2 ^ LENGTH('a)"
  shows "from_str_radix radix (show_fixed k radix n) = Some (of_nat n :: 'a::len word)"
proof -
  obtain c cs where sh: "show_fixed k radix n = c # cs"
    using assms(3) by (cases "show_fixed k radix n") (auto dest: arg_cong [where f = length])
  then have "c \<noteq> 43" using show_fixed_bytes [OF assms(1,2), of k n] by simp
  moreover have "parse_digits radix 0 (c # cs) = Some n"
    using parse_show_fixed [OF assms(1,2), of k n] assms(4) sh by simp
  ultimately show ?thesis using assms(5) sh by (simp add: from_str_radix_def Let_def del: parse_digits.simps)
qed

text \<open>Words of a line, separated by tabs.\<close>

fun tabbed :: "bytes list \<Rightarrow> bytes" where
  "tabbed [] = []"
| "tabbed [w] = w"
| "tabbed (w # ws) = w @ 9 # tabbed ws"

abbreviation word_bytes :: "bytes \<Rightarrow> bool" where
  "word_bytes w \<equiv> w \<noteq> [] \<and> list_all (\<lambda>b. b < 0x80 \<and> \<not> is_ascii_whitespace b) w"

lemma split_tabbed: "list_all word_bytes ws \<Longrightarrow> split_ascii_whitespace (tabbed ws) = ws"
proof (induction ws rule: tabbed.induct)
  case (2 w)
  then have "split_on is_ascii_whitespace w = [w]" by (intro split_on_word) (auto simp: list_all_iff)
  with 2 show ?case by (simp add: split_ascii_whitespace_def)
next
  case (3 w v ws)
  then have "split_on is_ascii_whitespace (w @ 9 # tabbed (v # ws)) = w # split_on is_ascii_whitespace (tabbed (v # ws))"
    by (intro split_on_append) (auto simp: list_all_iff is_ascii_whitespace_def)
  with 3 show ?case by (simp add: split_ascii_whitespace_def)
qed (simp add: split_ascii_whitespace_def)

lemma word_plain: "list_all (\<lambda>b. b < 0x80 \<and> \<not> is_ascii_whitespace b) w \<Longrightarrow> list_all (\<lambda>b. b < 0x80 \<and> b \<noteq> 10 \<and> b \<noteq> 13) w"
  by (induction w) (simp_all add: is_ascii_whitespace_def)

lemma tabbed_bytes:
  "list_all word_bytes ws \<Longrightarrow> list_all (\<lambda>b. b < 0x80 \<and> b \<noteq> 10 \<and> b \<noteq> 13) (tabbed ws)"
  by (induction ws rule: tabbed.induct) (simp_all add: word_plain)

text \<open>The lines of the file: those the program looks for, and any others.\<close>

datatype status_field =
    Uid_line u32 u32 u32 u32 | Gid_line u32 u32 u32 u32
  | CapInh_line u64 | CapPrm_line u64 | CapEff_line u64 | Umask_line u32 | Other_line bytes

abbreviation show_word :: "'a::len word \<Rightarrow> bytes" where "show_word n \<equiv> show_nat (unat n)"

abbreviation show_caps :: "u64 \<Rightarrow> bytes" where "show_caps n \<equiv> show_fixed 16 16 (unat n)"

fun field_words :: "status_field \<Rightarrow> bytes list" where
  "field_words (Uid_line r e s f) = [str ''Uid:'', show_word r, show_word e, show_word s, show_word f]"
| "field_words (Gid_line r e s f) = [str ''Gid:'', show_word r, show_word e, show_word s, show_word f]"
| "field_words (CapInh_line n) = [str ''CapInh:'', show_caps n]"
| "field_words (CapPrm_line n) = [str ''CapPrm:'', show_caps n]"
| "field_words (CapEff_line n) = [str ''CapEff:'', show_caps n]"
| "field_words (Umask_line n) = [str ''Umask:'', show_fixed 4 8 (unat n)]"
| "field_words (Other_line l) = []"

definition field_line :: "status_field \<Rightarrow> bytes" where
  "field_line x = (case x of Other_line l \<Rightarrow> l | _ \<Rightarrow> tabbed (field_words x))"

definition status_keys :: "bytes list" where
  "status_keys = map str [''Uid:'', ''Gid:'', ''CapInh:'', ''CapPrm:'', ''CapEff:'', ''Umask:'']"

definition wf_field :: "status_field \<Rightarrow> bool" where
  "wf_field x = (case x of
       Umask_line n \<Rightarrow> unat n < 8 ^ 4
     | Other_line l \<Rightarrow> list_all (\<lambda>b. b < 0x80 \<and> b \<noteq> 10 \<and> b \<noteq> 13) l
         \<and> (case nth_opt (split_ascii_whitespace l) 0 of None \<Rightarrow> True | Some key \<Rightarrow> key \<notin> set status_keys)
     | _ \<Rightarrow> True)"

definition show_status :: "status_field list \<Rightarrow> bytes" where
  "show_status fs = concat (map (\<lambda>x. field_line x @ [10]) fs)"

text \<open>What a line says about the process.\<close>

fun set_field :: "ProcStatus \<Rightarrow> status_field \<Rightarrow> ProcStatus" where
  "set_field st (Uid_line r e s f) = st\<lparr>uids := (uids st)\<lparr>ruid := r, euid := e, suid := s, fsuid := f\<rparr>\<rparr>"
| "set_field st (Gid_line r e s f) = st\<lparr>uids := (uids st)\<lparr>rgid := r, egid := e, sgid := s, fsgid := f\<rparr>\<rparr>"
| "set_field st (CapInh_line n) = st\<lparr>capabilities := (capabilities st)\<lparr>inheritable := n\<rparr>\<rparr>"
| "set_field st (CapPrm_line n) = st\<lparr>capabilities := (capabilities st)\<lparr>permitted := n\<rparr>\<rparr>"
| "set_field st (CapEff_line n) = st\<lparr>capabilities := (capabilities st)\<lparr>effective := n\<rparr>\<rparr>"
| "set_field st (Umask_line n) = st\<lparr>umask := n\<rparr>"
| "set_field st (Other_line l) = st"

lemma shown_words:
  "word_bytes (show_word (n :: 'a::len word))" "word_bytes (show_caps c)" "word_bytes (show_fixed 4 8 k)"
  using show_nat_plain [of "unat n"] show_fixed_bytes [of 16 16 "unat c"] show_fixed_bytes [of 8 4 k]
  by (auto simp: list_all_iff dest: arg_cong [where f = length])

lemma shown_numbers:
  "check_uid_gid (Some (show_word r)) = Ok r" "check_u64_hex (Some (show_caps c)) = Ok c"
  "unat m < 8 ^ 4 \<Longrightarrow> check_u32_oct (Some (show_fixed 4 8 (unat m))) = Ok m"
proof -
  have "from_str_radix 10 (show_word r) = Some r"
    using from_str_show_nat [of "unat r", where 'a = 32] unsigned_less [of r] by simp
  then show "check_uid_gid (Some (show_word r)) = Ok r" by (simp add: check_uid_gid_def parse_u32_def)
  have "from_str_radix 16 (show_caps c) = Some c"
    using from_str_show_fixed [of 16 16 "unat c", where 'a = 64] unsigned_less [of c] by simp
  then show "check_u64_hex (Some (show_caps c)) = Ok c" by (simp add: check_u64_hex_def)
  assume m: "unat m < 8 ^ 4"
  have "from_str_radix 8 (show_fixed 4 8 (unat m)) = Some m"
    using from_str_show_fixed [of 8 4 "unat m", where 'a = 32] unsigned_less [of m] m by simp
  then show "check_u32_oct (Some (show_fixed 4 8 (unat m))) = Ok m" by (simp add: check_u32_oct_def)
qed

lemma key_words:
  "word_bytes (str ''Uid:'')" "word_bytes (str ''Gid:'')" "word_bytes (str ''CapInh:'')" "word_bytes (str ''CapPrm:'')"
  "word_bytes (str ''CapEff:'')" "word_bytes (str ''Umask:'')"
  by (simp_all add: is_ascii_whitespace_def)

lemma field_words_plain: "list_all word_bytes (field_words x)"
  by (cases x) (simp_all add: shown_words key_words del: str_Cons)

lemma field_line_words: "\<nexists>l. x = Other_line l \<Longrightarrow> field_line x = tabbed (field_words x)"
  by (cases x) (simp_all add: field_line_def)

lemma field_line_plain:
  assumes "wf_field x"
  shows "list_all (\<lambda>b. b < 0x80 \<and> b \<noteq> 10 \<and> b \<noteq> 13) (field_line x)"
proof (cases "\<exists>l. x = Other_line l")
  case True
  with assms show ?thesis by (auto simp: field_line_def wf_field_def)
next
  case False
  with tabbed_bytes [OF field_words_plain [of x]] show ?thesis by (simp add: field_line_words)
qed

lemma status_line_field:
  assumes "wf_field x"
  shows "status_line (field_line x) st = Ok (set_field st x)"
proof (cases "\<exists>l. x = Other_line l")
  case True
  then obtain l where l: "x = Other_line l" by blast
  with assms have "nth_opt (split_ascii_whitespace l) 0 \<notin> Some ` set status_keys"
    by (auto simp: wf_field_def split: option.splits)
  with l show ?thesis by (auto simp: status_line_def field_line_def status_keys_def Let_def simp del: str_Cons)
next
  case False
  then have parts: "split_ascii_whitespace (field_line x) = field_words x"
    by (simp add: field_line_words split_tabbed field_words_plain)
  show ?thesis
    unfolding status_line_def Let_def parts using False assms
    by (cases x) (simp_all add: shown_numbers nth_opt_def wf_field_def)
qed

lemma parse_show_status:
  assumes "list_all wf_field fs"
  shows "fold_lines (\<lambda>line st. bindP (status_line line st) (\<lambda>st'. Ok (Inl st'))) Ok st (raw_lines (show_status fs))
    = Ok (foldl set_field st fs)"
  using assms
proof (induction fs arbitrary: st)
  case Nil
  then show ?case by (simp add: show_status_def)
next
  case (Cons x fs)
  let ?l = "field_line x"
  have plain: "list_all (\<lambda>b. b < 0x80 \<and> b \<noteq> 10 \<and> b \<noteq> 13) ?l" using Cons.prems by (simp add: field_line_plain)
  then have "utf8_valid ?l" by (intro utf8_valid_ascii) (auto simp: list_all_iff)
  moreover have "?l \<noteq> [] \<longrightarrow> last ?l \<noteq> 13" using plain by (auto simp: list_all_iff)
  ultimately have "clean_line (?l, True) = Ok ?l" by (auto simp: clean_line_def)
  moreover have "raw_lines (show_status (x # fs)) = (?l, True) # raw_lines (show_status fs)"
    using plain raw_lines_line [of ?l "show_status fs"] by (auto simp: show_status_def list_all_iff)
  ultimately show ?case using Cons by (simp add: status_line_field)
qed


definition sample_status :: "status_field list" where
  "sample_status = [Other_line (str ''Name: ls''), Umask_line 18, Uid_line 100000 100000 100000 100000, CapEff_line 255]"

lemma sample_status_wf: "list_all wf_field sample_status"
  by (simp add: sample_status_def wf_field_def status_keys_def nth_opt_def split_ascii_whitespace_def is_ascii_whitespace_def)


section \<open>The environment of a process\<close>

text \<open>What the kernel knows about a process, as far as the program asks for it: credentials, control groups, AppArmor
  profile and its mode.\<close>

record process_info =
  pi_status :: "status_field list"
  pi_cgroups :: "CGroupEntry list"
  pi_profile :: bytes
  pi_mode :: bytes

definition wf_process :: "process_info \<Rightarrow> bool" where
  "wf_process i \<longleftrightarrow> list_all wf_field (pi_status i) \<and> list_all wf_cgroup (pi_cgroups i)
     \<and> pi_profile i \<noteq> [] \<and> list_all (\<lambda>b. b \<noteq> 32 \<and> b \<noteq> 10) (pi_profile i)
     \<and> (pi_mode i = [] \<or> hd (pi_mode i) = 32 \<or> hd (pi_mode i) = 10)"

text \<open>The kernel serves the files of the process, in every state.\<close>

definition proc_of :: "'w env \<Rightarrow> actor \<Rightarrow> PidFd \<Rightarrow> process_info \<Rightarrow> bool" where
  "proc_of E p self i \<longleftrightarrow> (\<forall>s. proc_file E p self (str ''status'') (show_status (pi_status i)) s
     \<and> proc_file E p self (str ''cgroup'') (concat (map show_cgroup (pi_cgroups i))) s
     \<and> proc_file E p self (str ''attr/current'') (pi_profile i @ pi_mode i) s)"

definition process_caps :: "PidFd \<Rightarrow> process_info \<Rightarrow> UserCaps" where
  "process_caps self i =
     (let st = foldl set_field default_status (pi_status i); es = pi_cgroups i;
          group = (\<lambda>P. map_option ce_path (find P (rev es))) in
      \<lparr>uc_pidfd = self, uc_apply_uids = True,
       uc_euid = euid (uids st), uc_egid = egid (uids st), uc_fsuid = fsuid (uids st), uc_fsgid = fsgid (uids st),
       uc_capabilities = capabilities st, uc_umask = umask st,
       uc_cgroup_v1_devices = group (\<lambda>e. str ''devices'' \<in> set (ce_names e)),
       uc_cgroup_v2_base = (if list_ex (\<lambda>e. ce_names e \<noteq> []) es then str ''unified/'' else []),
       uc_cgroup_v2 = group (\<lambda>e. ce_names e = []),
       uc_apparmor_profile = Some (pi_profile i)\<rparr>)"

lemma profile_truncated:
  assumes "wf_process i"
  shows "takeWhile (\<lambda>c. c \<noteq> 32 \<and> c \<noteq> 10) (pi_profile i @ pi_mode i) = pi_profile i"
  using assms by (cases "pi_mode i") (auto simp: wf_process_def list_all_iff takeWhile_append)

lemma UserCaps_new_run:
  assumes "wf_process i" and "proc_of E p self i"
  shows "\<exists>s'. UserCaps_new E p self s = Some (Ok (process_caps self i), s')"
proof -
  from assms have files: "proc_file E p self (str ''status'') (show_status (pi_status i)) s"
    "proc_file E p self (str ''cgroup'') (concat (map show_cgroup (pi_cgroups i))) s"
    "proc_file E p self (str ''attr/current'') (pi_profile i @ pi_mode i) s" for s
    by (auto simp: proc_of_def simp del: str_Cons)
  from assms(1) have wf: "list_all wf_field (pi_status i)" "list_all wf_cgroup (pi_cgroups i)" "pi_profile i \<noteq> []"
    by (auto simp: wf_process_def)
  obtain s1 where s1: "get_status E p self s = Some (Ok (foldl set_field default_status (pi_status i)), s1)"
    using get_status_parses [OF files(1)] parse_show_status [OF wf(1), of default_status] unfolding parse_status_def by metis
  obtain s2 where s2: "get_cgroups E p self s1 = Some (Ok (foldl add_cgroup CGroups_new (pi_cgroups i)), s2)"
    using get_cgroups_run [OF files(2)] parse_cgroups_show [OF wf(2), of CGroups_new] unfolding parse_cgroups_def by metis
  obtain s3 where s3: "get_label E p self s2 = Some (Ok (Some (pi_profile i)), s3)"
    using get_label_reads [OF files(3)] profile_truncated [OF assms(1)] wf(3) by auto
  show ?thesis
    using s1 s2 s3
    by (simp add: UserCaps_new_def bindR_def map_err_def ret_def process_caps_def Let_def add_cgroups_lookup CGroups_v2_def)
qed


text \<open>A kernel that serves given files: opening one starts reading it from its beginning.\<close>

definition serving :: "(bytes \<Rightarrow> bytes) \<Rightarrow> bytes env" where
  "serving content = env_of (\<lambda>p c w. case c of
       Openat d name f m \<Rightarrow> (returns 7, content name)
     | Read fd n \<Rightarrow> (delivers (take n w), drop n w)
     | _ \<Rightarrow> (returns 0, w))"

lemma serving_file:
  assumes "content name \<noteq> []" and "length (content name) \<le> 8192"
  shows "proc_file (serving content) p self name (content name) s"
  using assms
  by (simp add: proc_file_def Let_def answer_def after_def serving_def sample_defs) (intro exI [of _ "[content name]"], simp add: delivers_def)

definition sample_process :: process_info where
  "sample_process = \<lparr>pi_status = sample_status, pi_cgroups = [\<lparr>ce_id = 0, ce_names = [], ce_path = str ''/lxc''\<rparr>],
     pi_profile = str ''lxc-101'', pi_mode = str '' (enforce)''\<rparr>"

definition sample_files :: "bytes \<Rightarrow> bytes" where
  "sample_files name =
     (if name = str ''status'' then show_status (pi_status sample_process)
      else if name = str ''cgroup'' then concat (map show_cgroup (pi_cgroups sample_process))
      else pi_profile sample_process @ pi_mode sample_process)"

lemma sample_process_ok: "wf_process sample_process" "proc_of (serving sample_files) p self sample_process"
proof -
  show "wf_process sample_process"
    using sample_status_wf by (simp add: wf_process_def sample_process_def wf_cgroup_def)
  have names: "sample_files (str ''status'') = show_status (pi_status sample_process)"
    "sample_files (str ''cgroup'') = concat (map show_cgroup (pi_cgroups sample_process))"
    "sample_files (str ''attr/current'') = pi_profile sample_process @ pi_mode sample_process"
    by (simp_all add: sample_files_def)
  have sizes: "show_status (pi_status sample_process) \<noteq> []" "length (show_status (pi_status sample_process)) \<le> 8192"
    "concat (map show_cgroup (pi_cgroups sample_process)) \<noteq> []" "length (concat (map show_cgroup (pi_cgroups sample_process))) \<le> 8192"
    "pi_profile sample_process @ pi_mode sample_process \<noteq> []" "length (pi_profile sample_process @ pi_mode sample_process) \<le> 8192"
    by (simp_all add: sample_process_def show_status_def sample_status_def field_line_def show_cgroup_def show_nat.simps)
  show "proc_of (serving sample_files) p self sample_process"
    unfolding proc_of_def
    using serving_file [of sample_files "str ''status''" p self] serving_file [of sample_files "str ''cgroup''" p self]
      serving_file [of sample_files "str ''attr/current''" p self]
    unfolding names using sizes by blast
qed


end
