(* ===== verification/Logs.thy ===== *)
theory Logs
  imports Runtime
begin

text \<open>
  Properties of what a computation adds to the log that cannot be said event by event, because they look ahead: such a
  property is a set of logs. When it holds of no events and is kept when logs are joined, every construct of the
  language keeps it; the locale \<open>log_closed\<close> has the rules.
\<close>

definition logs :: "(event list \<Rightarrow> bool) \<Rightarrow> ('w, 'e, 'a) io \<Rightarrow> bool" where
  "logs D m \<longleftrightarrow> (\<forall>s r s'. m s = Some (r, s') \<longrightarrow> (\<exists>t. m_log s' = m_log s @ t \<and> D t))"

lemma logsD:
  assumes "logs D m" and "m s = Some (r, s')"
  obtains t where "m_log s' = m_log s @ t" and "D t"
  using assms unfolding logs_def by blast

locale log_closed =
  fixes D :: "event list \<Rightarrow> bool"
  assumes empty: "D []" and join: "D t \<Longrightarrow> D u \<Longrightarrow> D (t @ u)"
begin

lemma silent: "(\<And>s r s'. m s = Some (r, s') \<Longrightarrow> s' = s) \<Longrightarrow> logs D m"
  unfolding logs_def using empty by fastforce

text \<open>A run of \<open>m\<close>, after which nothing was done, or \<open>k\<close>.\<close>

lemma seq:
  assumes "logs D m" and "m s = Some (x, s1)" and "s' = s1 \<or> (\<exists>y. k s1 = Some (y, s') \<and> logs D k)"
  shows "\<exists>t. m_log s' = m_log s @ t \<and> D t"
proof -
  obtain t where t: "m_log s1 = m_log s @ t" "D t" using assms(1,2) by (rule logsD)
  from assms(3) empty obtain u where "m_log s' = m_log s1 @ u" "D u" by (auto elim: logsD)
  with t join show ?thesis by (intro exI [of _ "t @ u"]) simp
qed

lemma pointwise:
  assumes "emits (\<lambda>h e. D [e]) m"
  shows "logs D m"
  unfolding logs_def
proof (intro allI impI)
  fix s r s'
  assume "m s = Some (r, s')"
  with assms obtain t where t: "m_log s' = m_log s @ t" "list_all (\<lambda>e. D [e]) t"
    by (auto elim: emitsD simp: along_const)
  from t(2) have "D t"
  proof (induction t)
    case (Cons e t)
    then show ?case using join [of "[e]" t] by simp
  qed (rule empty)
  with t(1) show "\<exists>t. m_log s' = m_log s @ t \<and> D t" by blast
qed

lemma ret: "logs D (ret a)"
  by (rule silent) (simp add: ret_run)

lemma raise: "logs D (raise e)"
  by (rule silent) (simp add: raise_run)

lemma panic: "logs D panic"
  by (rule silent) (simp add: panic_run)

lemma of_res: "logs D (of_res x)"
  by (rule silent) (simp add: of_res_run)

lemma bindR:
  assumes "logs D m" and "\<And>a. logs D (f a)"
  shows "logs D (bindR m f)"
  unfolding logs_def
proof (intro allI impI)
  fix s r s'
  assume "bindR m f s = Some (r, s')"
  then obtain x s1 a where m: "m s = Some (x, s1)" and "s' = s1 \<or> f a s1 = Some (r, s')" by (auto simp: bindR_run)
  with assms(2) show "\<exists>t. m_log s' = m_log s @ t \<and> D t" by (intro seq [OF assms(1) m, of s' "f a"]) blast
qed

lemma matchR:
  assumes "logs D m" and "\<And>a. logs D (f a)" and "\<And>e. logs D (g e)"
  shows "logs D (matchR m f g)"
  unfolding logs_def
proof (intro allI impI)
  fix s r s'
  assume "matchR m f g s = Some (r, s')"
  then obtain x s1 a e where m: "m s = Some (x, s1)" and "s' = s1 \<or> f a s1 = Some (r, s') \<or> g e s1 = Some (r, s')"
    by (auto simp: matchR_run)
  with assms(2,3) show "\<exists>t. m_log s' = m_log s @ t \<and> D t"
    using seq [OF assms(1) m, of s' "f a"] seq [OF assms(1) m, of s' "g e"] by blast
qed

lemma map_err:
  assumes "logs D m"
  shows "logs D (map_err f m)"
  using assms unfolding logs_def map_err_def by (fastforce split: option.splits)

lemma ensuring:
  assumes "logs D m" and "logs D k"
  shows "logs D (ensuring m k)"
  unfolding logs_def
proof (intro allI impI)
  fix s r s'
  assume "ensuring m k s = Some (r, s')"
  then obtain s1 y where m: "m s = Some (r, s1)" and "k s1 = Some (y, s')" by (auto simp: ensuring_run)
  with assms(2) show "\<exists>t. m_log s' = m_log s @ t \<and> D t" by (intro seq [OF assms(1) m, of s' k]) blast
qed

lemma on_failure:
  assumes "logs D m" and "logs D k"
  shows "logs D (on_failure m k)"
  unfolding logs_def
proof (intro allI impI)
  fix s r s'
  assume "on_failure m k s = Some (r, s')"
  then obtain s1 y where m: "m s = Some (r, s1)" and "s' = s1 \<or> k s1 = Some (y, s')" by (auto simp: on_failure_run)
  with assms(2) show "\<exists>t. m_log s' = m_log s @ t \<and> D t" by (intro seq [OF assms(1) m, of s' k]) blast
qed

lemma loopM:
  fixes body :: "'b \<Rightarrow> ('w, 'e, 'b + 'c) io"
  assumes "\<And>a. logs D (body a)"
  shows "logs D (loopM body a)"
  unfolding logs_def
proof (intro allI impI)
  fix s s' :: "'w mach" and r
  assume run: "loopM body a s = Some (r, s')"
  define I where "I b s1 \<longleftrightarrow> (\<exists>t. m_log s1 = m_log s @ t \<and> D t)" for b :: 'b and s1 :: "'w mach"
  have start: "I a s" using empty by (auto simp: I_def)
  have step: "I b' s2" if "I b s1" "body b s1 = Some (x, s2)" for b s1 b' s2 x
    using that assms [of b] by (fastforce simp: I_def elim: logsD intro: join)
  obtain b s1 x where "I b s1" "body b s1 = Some (x, s')"
    by (rule loopM_last [where I = I, OF run start]) (blast intro: step)+
  then have "I b s'" by (rule step)
  then show "\<exists>t. m_log s' = m_log s @ t \<and> D t" by (simp add: I_def)
qed

lemma if_cases: "(b \<Longrightarrow> logs D m) \<Longrightarrow> (\<not> b \<Longrightarrow> logs D n) \<Longrightarrow> logs D (if b then m else n)"
  by simp

lemma case_option: "logs D m \<Longrightarrow> (\<And>a. logs D (f a)) \<Longrightarrow> logs D (case x of None \<Rightarrow> m | Some a \<Rightarrow> f a)"
  by (cases x) simp_all

lemma case_prod: "(\<And>a b. logs D (f a b)) \<Longrightarrow> logs D (case x of (a, b) \<Rightarrow> f a b)"
  by (cases x) simp

lemmas intros = ret raise panic of_res bindR matchR map_err ensuring on_failure loopM if_cases case_option case_prod

end

end
