(* ===== verification/Delivery.thy ===== *)
theory Delivery
  imports Client ProcFs Logs
begin

text \<open>
  The way of a result: the closure that \<^verbatim>\<open>fork.rs\<close> runs in the child ends with a status, the child writes it into the
  pipe, the parent reads it, and \<^verbatim>\<open>client.rs\<close> sends it to the container. The theorems hold on every kernel that keeps
  the contract of pipes (\<open>pipe_delivers\<close>) and does not give out a descriptor that is in use (\<open>pipe_kept\<close>).
\<close>

section \<open>Bytes in a pipe\<close>

text \<open>The two ends of the pipe that \<^verbatim>\<open>pipe2\<close> returned, and the bytes that went through a descriptor.\<close>

definition pipe_end :: "resp \<Rightarrow> nat \<Rightarrow> int" where
  "pipe_end x i = fill [0, 0] (r_fds x) ! i"

abbreviation bytes_read :: "actor \<Rightarrow> int \<Rightarrow> event list \<Rightarrow> bytes" where
  "bytes_read p fd t \<equiv> concat (map (read_bytes p fd) t)"

abbreviation bytes_written :: "actor \<Rightarrow> int \<Rightarrow> event list \<Rightarrow> bytes" where
  "bytes_written p fd t \<equiv> concat (map (written_bytes p fd) t)"

lemma written_bytes_other:
  "written_bytes q fd (q, Close f, r) = []" "written_bytes q fd (q, FcntlGetfl f, r) = []"
  "written_bytes q fd (q, FcntlSetfl f g, r) = []" "written_bytes q fd (q, Exit n, r) = []"
  "ev_actor e \<noteq> q \<Longrightarrow> written_bytes q fd e = []"
  by (simp_all add: written_bytes_def split: call.splits)

lemma read_bytes_other: "ev_actor e \<noteq> p \<Longrightarrow> read_bytes p fd e = []"
  by (simp add: read_bytes_def split: call.splits)

lemma bytes_none:
  "list_all (\<lambda>e. ev_actor e \<noteq> p) t \<Longrightarrow> bytes_read p fd t = [] \<and> bytes_written p fd t = []"
  by (induction t) (simp_all add: read_bytes_other written_bytes_other)

text \<open>The process \<open>q\<close> opens a file and gets the descriptor \<open>fd\<close>.\<close>

definition reopens :: "actor \<Rightarrow> int \<Rightarrow> event \<Rightarrow> bool" where
  "reopens q fd e \<longleftrightarrow> ev_actor e = q \<and> r_ret (ev_resp e) = fd
     \<and> (case ev_call e of Open _ _ _ \<Rightarrow> True | Openat _ _ _ _ \<Rightarrow> True | _ \<Rightarrow> False)"

text \<open>\<open>aside q fd t\<close>: the events are those of \<open>q\<close> alone, which writes nothing into \<open>fd\<close> unless it opened it itself.\<close>

definition aside :: "actor \<Rightarrow> int \<Rightarrow> event list \<Rightarrow> bool" where
  "aside q fd t \<longleftrightarrow> list_all (\<lambda>e. ev_actor e = q) t \<and> (list_ex (reopens q fd) t \<or> bytes_written q fd t = [])"

lemma aside_Nil [simp]: "aside q fd []"
  by (simp add: aside_def)

lemma aside_append: "aside q fd t \<Longrightarrow> aside q fd u \<Longrightarrow> aside q fd (t @ u)"
  unfolding aside_def list_all_append list_ex_append map_append concat_append by auto

interpretation aside: log_closed "aside q fd" for q fd
  by unfold_locales (simp_all add: aside_append)

abbreviation keeps_aside :: "actor \<Rightarrow> int \<Rightarrow> ('w, 'e, 'a) io \<Rightarrow> bool" where
  "keeps_aside q fd \<equiv> logs (aside q fd)"

named_theorems aside_intros \<open>rules for computations that leave the pipe alone\<close>

lemmas [aside_intros] = aside.intros

lemma aside_emits:
  assumes "emits (\<lambda>h e. ev_actor e = q \<and> written_bytes q fd e = []) m"
  shows "keeps_aside q fd m"
  by (intro aside.pointwise emits_mono [OF assms]) (simp add: aside_def)

lemma aside_drops [aside_intros]:
  "keeps_aside q fd (drop_fd E q f :: ('w, 'e, unit) io)" "keeps_aside q fd (drop_fds E q fds :: ('w, 'e, unit) io)"
  by (intro aside_emits emits_intros; simp add: written_bytes_other)+

lemma aside_owning [aside_intros]: "keeps_aside q fd m \<Longrightarrow> keeps_aside q fd (owning E q f m)"
  unfolding owning_def by (intro aside_intros)

section \<open>What the child writes\<close>

text \<open>The part of a log in which \<open>func\<close> ran, with outcome \<open>out\<close>.\<close>

definition child_ran ::
  "('w, io_error, SyscallStatus) io \<Rightarrow> event list \<Rightarrow> SyscallStatus + io_error \<Rightarrow> bool" where
  "child_ran func c out \<longleftrightarrow> (\<exists>s1 x s2 c1 f c2. func s1 = Some (x, s2) \<and> outcome x = Some out
     \<and> m_log s2 = m_log s1 @ f \<and> c = c1 @ f @ c2)"

lemma child_ran_append: "child_ran func c out \<Longrightarrow> child_ran func (a @ c @ b) out"
  unfolding child_ran_def by (metis append_assoc)

text \<open>The pipe gets nothing, or the beginning of the record of the closure's outcome.\<close>

definition reports_only :: "actor \<Rightarrow> int \<Rightarrow> ('w, io_error, SyscallStatus) io \<Rightarrow> event list \<Rightarrow> bool" where
  "reports_only q pw func c \<longleftrightarrow> aside q pw c \<or> list_all (\<lambda>e. ev_actor e = q) c
     \<and> (\<exists>out rest. child_ran func c out \<and> bytes_written q pw c @ rest = enc_ForkData (fork_data out))"

lemma reports_only_append:
  assumes "aside q pw a" and "reports_only q pw func c" and "aside q pw b"
  shows "reports_only q pw func (a @ c @ b)"
proof (cases "aside q pw c \<or> list_ex (reopens q pw) (a @ c @ b)")
  case True
  then have "aside q pw (a @ c @ b)"
    using assms by (auto simp: reports_only_def aside_def)
  then show ?thesis by (simp add: reports_only_def)
next
  case False
  with assms obtain out rest where c: "list_all (\<lambda>e. ev_actor e = q) c" "child_ran func c out"
    "bytes_written q pw c @ rest = enc_ForkData (fork_data out)" by (auto simp: reports_only_def)
  from False assms have "bytes_written q pw a = []" "bytes_written q pw b = []" by (auto simp: aside_def)
  then have "bytes_written q pw (a @ c @ b) = bytes_written q pw c"
    by (simp only: map_append concat_append append_Nil append_Nil2)
  with c assms child_ran_append [OF c(2), of a b] show ?thesis
    unfolding reports_only_def aside_def list_all_append by metis
qed

lemma bindR_split:
  assumes "bindR m (\<lambda>_. k) s = Some (r, s')"
  obtains x s1 where "m s = Some (x, s1)" and "s' = s1 \<or> k s1 = Some (r, s')"
  using assms by (auto simp: bindR_run)

lemma child_body_pipe:
  fixes E :: "'w env" and func :: "('w, io_error, SyscallStatus) io" and r :: "(io_error, int) res"
  assumes run: "bindR (matchR (ensuring func (drop_fds E q captured :: ('w, io_error, unit) io))
       (\<lambda>st. ret (Inl st)) (\<lambda>err. ret (Inr err))) (\<lambda>out.
       matchR (write_all E q pw (enc_ForkData (fork_data out))) (\<lambda>_. ret 0) (\<lambda>_. ret (1 :: int))) s = Some (r, s')"
    and func: "keeps_aside q pw func"
  shows "\<exists>c. m_log s' = m_log s @ c \<and> reports_only q pw func c"
proof -
  from run obtain x s1 y s2 where x: "func s = Some (x, s1)"
    and y: "drop_fds E q captured s1 = Some (y :: (io_error, unit) res, s2)"
    and rest: "(outcome x = None \<and> s' = s2) \<or> (\<exists>out z. outcome x = Some out
       \<and> write_all E q pw (enc_ForkData (fork_data out)) s2 = Some (z, s'))"
    by (auto simp: bindR_run matchR_run ensuring_run ret_run outcome_def split: res.splits)
  obtain f where f: "m_log s1 = m_log s @ f" "aside q pw f" by (rule logsD [OF func x])
  obtain d where d: "m_log s2 = m_log s1 @ d" "aside q pw d" by (rule logsD [OF aside_drops(2) y])
  from rest show ?thesis
  proof (elim disjE exE conjE)
    assume "s' = s2"
    with f d show ?thesis by (auto simp: reports_only_def intro: aside_append)
  next
    fix out z
    assume out: "outcome x = Some out" and w: "write_all E q pw (enc_ForkData (fork_data out)) s2 = Some (z, s')"
    have actor: "emits (\<lambda>h e. ev_actor e = q) (write_all E q pw bs)" for bs by (intro emits_intros) simp
    obtain c where c: "m_log s' = m_log s2 @ c" "list_all (\<lambda>e. ev_actor e = q) c"
      by (rule emitsD [OF actor w]) (simp add: along_const)
    with write_all_prefix [OF w] obtain rest where rest: "bytes_written q pw c @ rest = enc_ForkData (fork_data out)" by auto
    have log: "m_log s' = m_log s @ (f @ d @ c)" using f d c by simp
    have "reports_only q pw func (f @ d @ c)"
    proof (cases "list_ex (reopens q pw) (f @ d)")
      case True
      then have "aside q pw (f @ d @ c)" using f d c by (auto simp: aside_def)
      then show ?thesis by (simp add: reports_only_def)
    next
      case False
      with f d have none: "bytes_written q pw f = []" "bytes_written q pw d = []" by (auto simp: aside_def)
      have "bytes_written q pw (f @ d @ c) @ rest = enc_ForkData (fork_data out)"
        by (simp only: map_append concat_append none append_Nil rest)
      moreover have "child_ran func (f @ d @ c) out"
        unfolding child_ran_def using x out f(1) by (metis append_Nil)
      moreover have "list_all (\<lambda>e. ev_actor e = q) (f @ d @ c)" using f d c by (simp add: aside_def)
      ultimately show ?thesis unfolding reports_only_def by blast
    qed
    with log show ?thesis by blast
  qed
qed

lemma child_report_pipe:
  fixes E :: "'w env" and func :: "('w, io_error, SyscallStatus) io"
  assumes run: "child_report E q pw func captured s = Some (r, s')" and func: "keeps_aside q pw func"
  shows "\<exists>c. m_log s' = m_log s @ c \<and> reports_only q pw func c"
proof -
  let ?start = "on_failure (matchR (set_fd_nonblocking E q pw False) ret (\<lambda>_. panic) :: ('w, io_error, int) io)
       (drop_fds E q (pw # captured) :: ('w, io_error, unit) io)"
  have start: "keeps_aside q pw ?start"
    by (intro aside_emits emits_intros; simp add: written_bytes_other)
  let ?body = "bindR (matchR (ensuring func (drop_fds E q captured :: ('w, io_error, unit) io))
       (\<lambda>st. ret (Inl st)) (\<lambda>err. ret (Inr err))) (\<lambda>out.
       matchR (write_all E q pw (enc_ForkData (fork_data out))) (\<lambda>_. ret 0) (\<lambda>_. ret (1 :: int)))"
  from run obtain x s1 where x: "?start s = Some (x, s1)"
    and rest: "s' = s1 \<or> on_failure ?body (drop_fd E q pw :: ('w, io_error, unit) io) s1 = Some (r, s')"
    unfolding child_report_def by (rule bindR_split)
  obtain a where a: "m_log s1 = m_log s @ a" "aside q pw a" by (rule logsD [OF start x])
  from rest show ?thesis
  proof
    assume "s' = s1"
    with a show ?thesis by (auto simp: reports_only_def)
  next
    assume "on_failure ?body (drop_fd E q pw :: ('w, io_error, unit) io) s1 = Some (r, s')"
    then obtain s4 y where body: "?body s1 = Some (r, s4)" and last: "s' = s4 \<or> drop_fd E q pw s4 = Some (y :: (io_error, unit) res, s')"
      by (auto simp: on_failure_run)
    obtain d where "m_log s' = m_log s4 @ d" "aside q pw d"
      using last by (auto elim: logsD [OF aside_drops(1)])
    with child_body_pipe [OF body func] a show ?thesis by (auto intro: reports_only_append)
  qed
qed

lemma child_main_pipe:
  fixes E :: "'w env" and func :: "('w, io_error, SyscallStatus) io"
  assumes run: "child_main E q pr pw func captured s = Some (r, s')" and func: "keeps_aside q pw func"
  shows "\<exists>c. m_log s' = m_log s @ c \<and> reports_only q pw func c"
proof -
  let ?s = "after E q (Close pr) s" and ?a = "[(q, Close pr, answer E q (Close pr) s)]"
  from run obtain x s3 d where report: "child_report E q pw func captured ?s = Some (x, s3)"
    and d: "m_log s' = m_log s3 @ d" "aside q pw d"
    by (auto simp: child_main_def bindR_run run_simps catch_unwind_def written_bytes_other aside_def
      split: option.splits res.splits)
  have "aside q pw ?a" by (simp add: aside_def written_bytes_other)
  with child_report_pipe [OF report func] d show ?thesis by (auto dest: reports_only_append)
qed

section \<open>What the parent reads\<close>

text \<open>The parent's side up to the registered pipe: pipe, fork, the child, and calls that read nothing.\<close>

lemma Fork_new_log:
  fixes E :: "'w env"
  assumes "Fork_new E p func captured s = Some (Ok fork, s')"
  obtains x y sf sc r u where "fk_pid fork = r_ret y" and "fk_out fork = pipe_end x 0"
    and "m_log sf = m_log s @ [(p, Pipe2 O_CLOEXEC, x), (p, call.Fork, y)]"
    and "child_main E (Child (r_ret y)) (pipe_end x 0) (pipe_end x 1) (func (Child (r_ret y))) captured sf = Some (r, sc)"
    and "m_log s' = m_log sc @ u" and "list_all (\<lambda>e. ev_actor e = p \<and> read_bytes p fd e = []) u"
proof -
  let ?P = "\<lambda>(h :: event list) e. ev_actor e = p \<and> read_bytes p fd e = []"
  let ?x = "answer E p (Pipe2 O_CLOEXEC) s" and ?s1 = "after E p (Pipe2 O_CLOEXEC) s"
  let ?y = "answer E p call.Fork ?s1" and ?sf = "after E p call.Fork ?s1"
  let ?pid = "r_ret ?y" and ?r = "pipe_end ?x 0" and ?w = "pipe_end ?x 1"
  let ?rest = "bindR (drop_fd E p ?w) (\<lambda>_. matchR (Pipe_try_from E p ?r)
         (\<lambda>out. ret \<lparr>fk_pid = ?pid, fk_out = out\<rparr>)
         (\<lambda>err. bindR (sys E p (Kill ?pid 9)) (\<lambda>_. raise err)))"
  from assms obtain s2 s3 s4 z where child: "child_main E (Child ?pid) ?r ?w (func (Child ?pid)) captured ?sf = Some (Ok (), s2)"
    and rest: "?rest s2 = Some (Ok fork, s3)" and drops: "drop_fds E p captured s3 = Some (z :: (io_error, unit) res, s')"
    by (auto simp: Fork_new_def ensuring_run run_simps pipe_fds_def closing_on_error_def owned_fd_def pipe_end_def Let_def
      split: if_splits)
  have "emits ?P ?rest" unfolding Pipe_try_from_def async_fd_new_def by (intro emits_intros) (simp_all add: read_bytes_def)
  then obtain u1 where u1: "m_log s3 = m_log s2 @ u1" "along ?P (m_log s2) u1" using rest by (rule emitsD)
  have "emits ?P (drop_fds E p captured :: ('w, io_error, unit) io)" by (intro emits_intros) (simp_all add: read_bytes_def)
  then obtain u2 where u2: "m_log s' = m_log s3 @ u2" "along ?P (m_log s3) u2" using drops by (rule emitsD)
  show thesis
  proof (rule that [of ?y ?x ?sf "Ok ()" s2 "u1 @ u2"])
    show "fk_pid fork = ?pid" "fk_out fork = ?r"
      using rest by (auto simp: run_simps Pipe_try_from_def async_fd_new_def)
  qed (use child u1 u2 in \<open>simp_all add: along_const\<close>)
qed

text \<open>What follows in a log after the daemon made a pipe and forked right away.\<close>

definition after_fork :: "(resp \<Rightarrow> resp \<Rightarrow> event list \<Rightarrow> bool) \<Rightarrow> event list \<Rightarrow> bool" where
  "after_fork P t \<longleftrightarrow> (\<forall>a x y b. t = a @ (Daemon, Pipe2 O_CLOEXEC, x) # (Daemon, call.Fork, y) # b \<longrightarrow> P x y b)"

lemma after_fork_simps:
  "after_fork P []"
  "after_fork P (e # t) \<longleftrightarrow> after_fork P t
     \<and> (\<forall>x y b. e = (Daemon, Pipe2 O_CLOEXEC, x) \<and> t = (Daemon, call.Fork, y) # b \<longrightarrow> P x y b)"
  by (auto simp: after_fork_def Cons_eq_append_conv)

lemma after_fork_suffix: "after_fork P (t @ u) \<Longrightarrow> after_fork P u"
  by (induction t) (simp_all add: after_fork_simps)

text \<open>The contract of \<^verbatim>\<open>pipe(2)\<close>: what the parent reads from its end is the beginning of what the child writes into
  the other.\<close>

definition pipe_delivers :: "event list \<Rightarrow> bool" where
  "pipe_delivers = after_fork (\<lambda>x y b. \<exists>rest. bytes_read Daemon (pipe_end x 0) b @ rest
     = bytes_written (Child (r_ret y)) (pipe_end x 1) b)"

text \<open>The kernel does not give out a descriptor that is in use: an open never returns the child's end of the pipe, which
  the child closes only when there is nothing left to open.\<close>

definition pipe_kept :: "event list \<Rightarrow> bool" where
  "pipe_kept = after_fork (\<lambda>x y b. \<not> list_ex (reopens (Child (r_ret y)) (pipe_end x 1)) b)"

text \<open>A run that ends with a status: pipe and fork, the child's part, and the parent's, which reads the 16 bytes of a record.\<close>

lemma forking_syscall_log:
  fixes E :: "'w env"
  assumes run: "forking_syscall E Daemon func captured s = Some (Ok st, s')" and log: "m_log s' = m_log s @ t"
    and func: "\<And>q fd. keeps_aside q fd (func q)"
  obtains x y c b bs where "t = (Daemon, Pipe2 O_CLOEXEC, x) # (Daemon, call.Fork, y) # c @ b"
    and "reports_only (Child (r_ret y)) (pipe_end x 1) (func (Child (r_ret y))) c" and "list_all (\<lambda>e. ev_actor e = Daemon) b"
    and "bytes_read Daemon (pipe_end x 0) b = bs" and "length bs = 16" and "fork_result (dec_ForkData bs) = Ok st"
proof -
  from run obtain fork s1 s2 s3 where new: "Fork_new E Daemon func captured s = Some (Ok fork, s1)"
    and result: "get_result E Daemon (fk_out fork) s1 = Some (Ok st, s2)"
    and wait: "Fork_wait E Daemon (fk_pid fork) s2 = Some (Ok (), s3)"
    and s': "s' = after E Daemon (Close (fk_out fork)) s3"
    by (auto simp: forking_syscall_def run_simps on_failure_run)
  from result obtain bs where bs: "read_exact E Daemon (fk_out fork) 16 s1 = Some (Ok bs, s2)" "fork_result (dec_ForkData bs) = Ok st"
    by (auto simp: get_result_def run_simps sizeof_ForkData_def)
  from read_exact_bytes [OF bs(1)] obtain v where v: "m_log s2 = m_log s1 @ v" "bs = bytes_read Daemon (fk_out fork) v"
    and len: "length bs = 16" by blast
  have reads: "emits (\<lambda>h e. ev_actor e = Daemon) (read_exact E Daemon (fk_out fork) 16)" by (intro emits_intros) simp
  have v': "list_all (\<lambda>e. ev_actor e = Daemon) v" by (rule emitsD [OF reads bs(1)]) (use v(1) in \<open>simp add: along_const\<close>)
  have waits: "emits (\<lambda>h e. ev_actor e = Daemon \<and> read_bytes Daemon (fk_out fork) e = []) (Fork_wait E Daemon (fk_pid fork))"
    by (intro emits_intros) (simp add: read_bytes_def forking_def split: call.splits)
  obtain w where w: "m_log s3 = m_log s2 @ w" "list_all (\<lambda>e. ev_actor e = Daemon \<and> read_bytes Daemon (fk_out fork) e = []) w"
    by (rule emitsD [OF waits wait]) (simp add: along_const)
  obtain x y sf sc r u where fk: "fk_pid fork = r_ret y" "fk_out fork = pipe_end x 0"
    and sf: "m_log sf = m_log s @ [(Daemon, Pipe2 O_CLOEXEC, x), (Daemon, call.Fork, y)]"
    and child: "child_main E (Child (r_ret y)) (pipe_end x 0) (pipe_end x 1) (func (Child (r_ret y))) captured sf = Some (r, sc)"
    and u: "m_log s1 = m_log sc @ u" "list_all (\<lambda>e. ev_actor e = Daemon \<and> read_bytes Daemon (fk_out fork) e = []) u"
    by (rule Fork_new_log [OF new])
  from child_main_pipe [OF child func] obtain c where c: "m_log sc = m_log sf @ c"
    "reports_only (Child (r_ret y)) (pipe_end x 1) (func (Child (r_ret y))) c" by blast
  let ?b = "u @ v @ w @ [(Daemon, Close (fk_out fork), answer E Daemon (Close (fk_out fork)) s3)]"
  have silent: "bytes_read Daemon (fk_out fork) z = []"
    if "list_all (\<lambda>e. ev_actor e = Daemon \<and> read_bytes Daemon (fk_out fork) e = []) z" for z
    using that by (auto simp: list_all_iff)
  show thesis
  proof (rule that [of x y c ?b bs])
    show "t = (Daemon, Pipe2 O_CLOEXEC, x) # (Daemon, call.Fork, y) # c @ ?b" using log s' w(1) v(1) u(1) c(1) sf by simp
    show "list_all (\<lambda>e. ev_actor e = Daemon) ?b" using u(2) v' w(2) by (auto simp: list_all_iff)
    have "bytes_read Daemon (fk_out fork) ?b = bytes_read Daemon (fk_out fork) v"
      unfolding map_append concat_append silent [OF u(2)] silent [OF w(2)] by (simp add: read_bytes_def)
    then show "bytes_read Daemon (pipe_end x 0) ?b = bs" using v(2) fk(2) by simp
  qed (use c(2) len bs(2) in simp_all)
qed

lemma forking_syscall_result:
  fixes E :: "'w env"
  assumes run: "forking_syscall E Daemon func captured s = Some (Ok st, s')" and log: "m_log s' = m_log s @ t"
    and pipe: "pipe_delivers t" and kept: "pipe_kept t" and func: "\<And>q fd. keeps_aside q fd (func q)"
  shows "\<exists>pid out. child_ran (func (Child pid)) t out \<and> fork_result (fork_data out) = Ok st"
proof -
  obtain x y c b bs where "t = (Daemon, Pipe2 O_CLOEXEC, x) # (Daemon, call.Fork, y) # c @ b"
    and only: "reports_only (Child (r_ret y)) (pipe_end x 1) (func (Child (r_ret y))) c" and b: "list_all (\<lambda>e. ev_actor e = Daemon) b"
    and rd: "bytes_read Daemon (pipe_end x 0) b = bs" and len: "length bs = 16" and res: "fork_result (dec_ForkData bs) = Ok st"
    by (rule forking_syscall_log [OF run log func])
  then have t: "t = [] @ (Daemon, Pipe2 O_CLOEXEC, x) # (Daemon, call.Fork, y) # c @ b" by simp
  let ?q = "Child (r_ret y)" and ?w = "pipe_end x 1"
  from t kept have "\<not> list_ex (reopens ?q ?w) c" unfolding pipe_kept_def after_fork_def by fastforce
  with only have actor: "list_all (\<lambda>e. ev_actor e = ?q) c" and report: "bytes_written ?q ?w c = []
      \<or> (\<exists>out rest. child_ran (func ?q) c out \<and> bytes_written ?q ?w c @ rest = enc_ForkData (fork_data out))"
    by (auto simp: reports_only_def aside_def)
  have "bytes_read Daemon (pipe_end x 0) c = []" by (rule conjunct1 [OF bytes_none]) (use actor in \<open>auto simp: list_all_iff\<close>)
  moreover have "bytes_written ?q ?w b = []" by (rule conjunct2 [OF bytes_none]) (use b in \<open>auto simp: list_all_iff\<close>)
  moreover from pipe t obtain more_bytes where "bytes_read Daemon (pipe_end x 0) (c @ b) @ more_bytes = bytes_written ?q ?w (c @ b)"
    unfolding pipe_delivers_def after_fork_def by blast
  ultimately have some: "bytes_written ?q ?w c = bs @ more_bytes"
    by (simp only: map_append concat_append rd append_Nil append_Nil2)
  have "bs @ more_bytes \<noteq> []" using len by auto
  with report obtain out rest where out: "child_ran (func ?q) c out" "bs @ more_bytes @ rest = enc_ForkData (fork_data out)"
    unfolding some append_assoc by blast
  moreover have "length (enc_ForkData (fork_data out)) = 16" using ForkData_codec.length_enc by (simp add: sizeof_ForkData_def)
  ultimately have "bs = enc_ForkData (fork_data out)"
    using len by (metis add_cancel_right_right append_Nil2 length_0_conv length_append)
  with res have "fork_result (fork_data out) = Ok st" by (simp add: ForkData_codec.dec_enc)
  moreover have "child_ran (func ?q) t out"
    using child_ran_append [OF out(1), of "[(Daemon, Pipe2 O_CLOEXEC, x), (Daemon, call.Fork, y)]" b] t by simp
  ultimately show ?thesis by blast
qed

lemma fork_result_Ok:
  assumes "fork_result (fork_data out) = Ok st"
  shows "out = Inl st \<or> out = Inl (StatusErr 0) \<and> st = StatusOk (-1) \<or> out = Inr (OsErr 0) \<and> st = StatusErr (-1)"
  using assms by (auto simp: fork_result_def fork_data_def raw_os_error_def
    split: sum.splits SyscallStatus.splits io_error.splits if_splits)

lemma forking_syscall_status:
  fixes E :: "'w env"
  assumes "forking_syscall E Daemon func captured s = Some (Ok st, s')" and "m_log s' = m_log s @ t"
    and "pipe_delivers t" and "pipe_kept t" and "\<And>q fd. keeps_aside q fd (func q)"
  shows "\<exists>pid. child_ran (func (Child pid)) t (Inl st)
    \<or> child_ran (func (Child pid)) t (Inl (StatusErr 0)) \<and> st = StatusOk (-1)
    \<or> child_ran (func (Child pid)) t (Inr (OsErr 0)) \<and> st = StatusErr (-1)"
proof -
  from forking_syscall_result [OF assms] obtain pid out where "child_ran (func (Child pid)) t out"
    and "fork_result (fork_data out) = Ok st" by blast
  from this(1) fork_result_Ok [OF this(2)] show ?thesis by blast
qed

text \<open>C18: A status that \<^verbatim>\<open>forking_syscall\<close> returns is the one the closure ended with in the child, on every kernel whose
  pipes deliver what is written into them and for every closure that writes only into files it opened. The
  two exceptions are the outcomes with an error number 0, which the record cannot tell from a value.\<close>

theorem forking_syscall_delivers:
  fixes E :: "'w env"
  assumes "forking_syscall E Daemon func captured s = Some (Ok st, s')" and "m_log s' = m_log s @ t"
    and "pipe_delivers t" and "pipe_kept t" and "\<And>q fd. keeps_aside q fd (func q)"
  shows "\<exists>pid. child_ran (func (Child pid)) t (Inl st)
    \<or> child_ran (func (Child pid)) t (Inl (StatusErr 0)) \<and> st = StatusOk (-1)
    \<or> child_ran (func (Child pid)) t (Inr (OsErr 0)) \<and> st = StatusErr (-1)"
  using assms by (rule forking_syscall_status)

lemmas pipe_eval = pipe_delivers_def pipe_kept_def after_fork_simps pipe_end_def read_bytes_def written_bytes_def
  reopens_def fit_def

lemma sample_fork_delivers:
  "\<exists>s'. forking_syscall script Daemon (\<lambda>q. ret (StatusOk 5)) [] (boot sample_fork) = Some (Ok (StatusOk 5), s')
     \<and> pipe_delivers (m_log s') \<and> pipe_kept (m_log s')"
  by (simp add: fork_run_eval sample_fork_def pipe_eval)

theorem forking_syscall_delivers_witness:
  "\<exists>s'. forking_syscall script Daemon (\<lambda>q. ret (StatusOk 5)) [] (boot sample_fork) = Some (Ok (StatusOk 5), s')
     \<and> child_ran (ret (StatusOk 5) :: (resp list, io_error, SyscallStatus) io) (m_log s') (Inl (StatusOk 5))"
proof -
  obtain s' where run: "forking_syscall script Daemon (\<lambda>q. ret (StatusOk 5)) [] (boot sample_fork) = Some (Ok (StatusOk 5), s')"
    and pipe: "pipe_delivers (m_log s')" "pipe_kept (m_log s')" using sample_fork_delivers by blast
  have log: "m_log s' = m_log (boot sample_fork) @ m_log s'" by (simp add: boot_def)
  from forking_syscall_delivers [OF run log pipe aside.ret] run show ?thesis by auto
qed

section \<open>The handlers' closures\<close>

text \<open>A process that opens a file and writes into it leaves the pipe alone.\<close>

lemma aside_open_write:
  assumes opener: "\<And>s r s1. opener s = Some (r, s1) \<Longrightarrow> \<exists>c. m_log s1 = m_log s @ c \<and> aside q pw c
      \<and> (\<forall>fd. r = Ok fd \<longrightarrow> list_ex (reopens q fd) c)"
  shows "keeps_aside q pw (bindR opener (\<lambda>fd. owning E q fd (write_all E q fd bs)))"
  unfolding logs_def
proof (intro allI impI)
  fix s r s'
  assume "bindR opener (\<lambda>fd. owning E q fd (write_all E q fd bs)) s = Some (r, s')"
  then obtain x s1 where x: "opener s = Some (x, s1)"
    and rest: "s' = s1 \<or> (\<exists>fd. x = Ok fd \<and> owning E q fd (write_all E q fd bs) s1 = Some (r, s'))"
    by (auto simp: bindR_run)
  obtain c where c: "m_log s1 = m_log s @ c" "aside q pw c" "\<forall>fd. x = Ok fd \<longrightarrow> list_ex (reopens q fd) c"
    using opener [OF x] by blast
  from rest show "\<exists>c. m_log s' = m_log s @ c \<and> aside q pw c"
  proof (elim disjE exE conjE)
    fix fd
    assume fd: "x = Ok fd" and w: "owning E q fd (write_all E q fd bs) s1 = Some (r, s')"
    have actor: "emits (\<lambda>h e. ev_actor e = q) (owning E q fd (write_all E q fd bs))" by (intro emits_intros) simp_all
    obtain d where d: "m_log s' = m_log s1 @ d" "list_all (\<lambda>e. ev_actor e = q) d"
      by (rule emitsD [OF actor w]) (simp add: along_const)
    have "aside q pw (c @ d)"
    proof (cases "fd = pw")
      case True
      with c fd d show ?thesis by (simp add: aside_def)
    next
      case False
      then have "keeps_aside q pw (owning E q fd (write_all E q fd bs))"
        by (intro aside_emits emits_intros) (simp_all add: written_bytes_def)
      then obtain d' where "m_log s' = m_log s1 @ d'" "aside q pw d'" using w by (rule logsD)
      with d c show ?thesis by (auto intro: aside_append)
    qed
    with c d show ?thesis by (intro exI [of _ "c @ d"]) simp
  qed (use c in auto)
qed

lemma aside_set_label [aside_intros]: "keeps_aside q pw (set_label E q own label)"
  unfolding set_label_def
proof (rule aside_open_write)
  fix s :: "'a mach" and r s1
  assume "open_file E q own (str ''attr/current'') (O_RDWR OR O_CLOEXEC) 0 s = Some (r, s1)"
  then show "\<exists>c. m_log s1 = m_log s @ c \<and> aside q pw c \<and> (\<forall>fd. r = Ok fd \<longrightarrow> list_ex (reopens q fd) c)"
    by (auto simp: open_file_def PidFd_fd_def bindR_run run_simps owned_fd_def aside_def reopens_def written_bytes_def
      split: if_splits)
qed

lemma aside_fs_write [aside_intros]: "keeps_aside q pw (fs_write E q path bs)"
proof (cases "0 \<in> set path")
  case True
  then show ?thesis unfolding fs_write_def by (simp add: aside_emits emits_raise)
next
  case False
  let ?body = "\<lambda>_ :: unit. matchR (c_result E q (create_call path))
      (\<lambda>r. bindR (owned_fd (r_ret r)) (\<lambda>fd. ret (Inr fd)))
      (\<lambda>e. if interrupted e then ret (Inl ()) else raise e)"
  have "keeps_aside q pw (bindR (loopM ?body ()) (\<lambda>fd. owning E q fd (write_all E q fd bs)))"
  proof (rule aside_open_write)
    fix s :: "'a mach" and r s1
    assume run: "loopM ?body () s = Some (r, s1)"
    have "keeps_aside q pw (loopM ?body ())"
      by (intro aside_emits emits_intros) (simp_all add: written_bytes_def)
    then obtain c where c: "m_log s1 = m_log s @ c" "aside q pw c" using run by (rule logsD)
    moreover have "list_ex (reopens q fd) c" if "r = Ok fd" for fd
    proof -
      have ok: "loopM ?body () s = Some (Ok fd, s1)" using run that by simp
      obtain a x where "m_log s1 = m_log s @ a @ [(q, create_call path, x)]" "r_ret x = fd"
        by (rule loopM_last [where I = "\<lambda>_ s1. \<exists>a. m_log s1 = m_log s @ a", OF ok])
           (auto simp: run_simps owned_fd_def split: if_splits)
      with c have "c = a @ [(q, create_call path, x)]" "r_ret x = fd" by simp_all
      then show ?thesis by (simp add: reopens_def)
    qed
    ultimately show "\<exists>c. m_log s1 = m_log s @ c \<and> aside q pw c \<and> (\<forall>fd. r = Ok fd \<longrightarrow> list_ex (reopens q fd) c)" by blast
  qed
  with False show ?thesis by (simp add: fs_write_def)
qed

lemma aside_apply_current [aside_intros]: "keeps_aside q pw (apply_current E q caps)"
proof -
  have "keeps_aside q pw (mount_namespace E q pidfd)" "keeps_aside q pw (NsFd_setns E q ns)"
    "keeps_aside q pw (enter_chroot E q pidfd)" "keeps_aside q pw (enter_cwd E q pidfd)"
    "keeps_aside q pw (apply_user_caps E q caps)" "keeps_aside q pw (PidFd_current E q)" for pidfd ns
    unfolding mount_namespace_def NsFd_openat_def RawNsFd_openat_def NsFd_setns_def RawNsFd_setns_def enter_chroot_def enter_cwd_def
      apply_user_caps_def SecureBits_get_current_def SecureBits_apply_def capset_def PidFd_current_def PidFd_open_def
    by (intro aside_emits emits_intros; simp add: written_bytes_def inspecting_def split: call.splits)+
  then show ?thesis
    unfolding apply_current_def UserCaps_apply_def apply_cgroups_def enter_cgroup_def by (intro aside_intros)
qed

section \<open>Success is real\<close>

text \<open>A call on the container's behalf that succeeded.\<close>

definition done_for :: "event list \<Rightarrow> bool" where
  "done_for t \<longleftrightarrow> list_ex (\<lambda>e. effect (ev_call e) \<and> r_ret (ev_resp e) \<noteq> -1) t"

lemma done_for_append: "done_for t \<or> done_for u \<Longrightarrow> done_for (t @ u)"
  by (auto simp: done_for_def)

text \<open>\<open>acts D m\<close>: when \<open>m\<close> ends with a value, its events satisfy \<open>D\<close>, provided pipes work. The value \<open>-1\<close> is none that a
  system call returns. \<open>D\<close> says that some part of the events is right.\<close>

definition within :: "(event list \<Rightarrow> bool) \<Rightarrow> bool" where
  "within D \<longleftrightarrow> (\<forall>a t b. D t \<longrightarrow> D (a @ t @ b))"

definition acts :: "(event list \<Rightarrow> bool) \<Rightarrow> ('w, 'e, SyscallStatus) io \<Rightarrow> bool" where
  "acts D m \<longleftrightarrow> (\<forall>s v s'. m s = Some (Ok (StatusOk v), s') \<longrightarrow> v \<noteq> -1 \<longrightarrow> (\<exists>t. m_log s' = m_log s @ t
     \<and> (pipe_delivers t \<longrightarrow> pipe_kept t \<longrightarrow> D t)))"

named_theorems acts_intros \<open>rules for handlers that act when they succeed\<close>

lemma withinD: "within D \<Longrightarrow> D t \<Longrightarrow> D (a @ t @ b)"
  by (simp add: within_def)

lemma within_done_for [acts_intros]: "within done_for"
  by (auto simp: within_def done_for_def)

lemma acts_StatusErr [acts_intros]: "acts D (ret (StatusErr e))"
  by (simp add: acts_def ret_run)

lemma acts_map_err [acts_intros]: "acts D m \<Longrightarrow> acts D (map_err g m)"
  by (simp add: acts_def map_err_Ok)

lemma acts_bindR_result:
  assumes "within D" and "emits (\<lambda>h e. True) m" and "\<And>a s s1. m s = Some (Ok a, s1) \<Longrightarrow> acts D (f a)"
  shows "acts D (bindR m f)"
  unfolding acts_def
proof (intro allI impI)
  fix s v s'
  assume run: "bindR m f s = Some (Ok (StatusOk v), s')" and v: "v \<noteq> -1"
  from run obtain a s1 where a: "m s = Some (Ok a, s1)" "f a s1 = Some (Ok (StatusOk v), s')" by (auto simp: bindR_Ok)
  obtain t1 where t1: "m_log s1 = m_log s @ t1" using assms(2) a(1) by (rule emitsD)
  from assms(3) [OF a(1)] a(2) v obtain t2 where t2: "m_log s' = m_log s1 @ t2" "pipe_delivers t2 \<longrightarrow> pipe_kept t2 \<longrightarrow> D t2"
    unfolding acts_def by blast
  from t2(2) have "pipe_delivers (t1 @ t2) \<longrightarrow> pipe_kept (t1 @ t2) \<longrightarrow> D (t1 @ t2)"
    using withinD [OF assms(1), of t2 t1 "[]"] unfolding pipe_delivers_def pipe_kept_def by (auto dest: after_fork_suffix)
  with t1 t2(1) show "\<exists>t. m_log s' = m_log s @ t \<and> (pipe_delivers t \<longrightarrow> pipe_kept t \<longrightarrow> D t)"
    by (intro exI [of _ "t1 @ t2"]) simp
qed

lemma acts_bindR [acts_intros]:
  "within D \<Longrightarrow> emits (\<lambda>h e. True) m \<Longrightarrow> (\<And>a. acts D (f a)) \<Longrightarrow> acts D (bindR m f)"
  by (rule acts_bindR_result)

lemma acts_cases [acts_intros]:
  "(b \<Longrightarrow> acts D m) \<Longrightarrow> (\<not> b \<Longrightarrow> acts D n) \<Longrightarrow> acts D (if b then m else n)"
  "acts D m \<Longrightarrow> (\<And>a. acts D (f a)) \<Longrightarrow> acts D (case x of None \<Rightarrow> m | Some a \<Rightarrow> f a)"
  "(\<And>a b. acts D (g a b)) \<Longrightarrow> acts D (case y of (a, b) \<Rightarrow> g a b)"
  "acts D m \<Longrightarrow> acts D n \<Longrightarrow> acts D k \<Longrightarrow> acts D (case z of Mknod \<Rightarrow> m | MknodAt \<Rightarrow> n | Syscall.Quotactl \<Rightarrow> k)"
  by (auto split: option.splits prod.splits) (cases z; simp)

text \<open>A closure: enter the environment, make the call, go on with its result.\<close>

lemma closure_done:
  assumes run: "bindR (apply_current E q caps) (\<lambda>_. sc_libc_try E q c k) s = Some (Ok (StatusOk v), s')"
    and k: "\<And>r. emits (\<lambda>h e. True) (k r)" and c: "effect c" and log: "m_log s' = m_log s @ t"
  shows "done_for t"
proof -
  from run obtain u s1 where s1: "apply_current E q caps s = Some (Ok u, s1)"
    and ok: "r_ret (answer E q c s1) \<noteq> -1" and cont: "k (answer E q c s1) (after E q c s1) = Some (Ok (StatusOk v), s')"
    by (auto simp: sc_libc_try_def bindR_Ok sys_run ret_run split: if_splits)
  obtain t1 where "m_log s1 = m_log s @ t1" using emits_apply_current s1 by (rule emitsD)
  moreover obtain t2 where "m_log s' = m_log (after E q c s1) @ t2" using k cont by (rule emitsD)
  ultimately have "t = t1 @ (q, c, answer E q c s1) # t2" using log by simp
  with ok c show ?thesis by (simp add: done_for_def)
qed

lemma outcome_Inl: "outcome x = Some (Inl st) \<longleftrightarrow> x = Ok st"
  by (simp add: outcome_def split: res.splits)

lemma aside_sc_libc_try:
  assumes "\<And>r. written_bytes q fd (q, c, r) = []" and "\<And>r. keeps_aside q fd (k r)"
  shows "keeps_aside q fd (sc_libc_try E q c k)"
  unfolding sc_libc_try_def by (intro aside_intros aside_emits [OF emits_sys] assms conjI refl) (simp_all add: assms)

lemma acts_fork:
  fixes E :: "'w env"
  assumes D: "within D" and aside: "\<And>q fd. keeps_aside q fd (func q)" and any: "\<And>q. emits (\<lambda>h e. True) (func q)"
    and closure: "\<And>pid s v s' t. func (Child pid) s = Some (Ok (StatusOk v), s') \<Longrightarrow> m_log s' = m_log s @ t \<Longrightarrow> D t"
  shows "acts D (forking_syscall E Daemon func captured)"
  unfolding acts_def
proof (intro allI impI)
  fix s v s'
  assume run: "forking_syscall E Daemon func captured s = Some (Ok (StatusOk v), s')" and v: "v \<noteq> -1"
  have "emits (\<lambda>h e. True) (forking_syscall E Daemon func captured)" by (intro emits_intros any) simp_all
  then obtain t where t: "m_log s' = m_log s @ t" using run by (rule emitsD)
  have "D t" if pipe: "pipe_delivers t" "pipe_kept t"
  proof -
    from forking_syscall_status [OF run t pipe aside] v obtain pid where "child_ran (func (Child pid)) t (Inl (StatusOk v))" by auto
    then obtain s1 s2 a f b where ran: "func (Child pid) s1 = Some (Ok (StatusOk v), s2)" "m_log s2 = m_log s1 @ f"
      and f: "t = a @ f @ b" unfolding child_ran_def outcome_Inl by blast
    from withinD [OF D closure [OF ran]] f show ?thesis by simp
  qed
  with t show "\<exists>t. m_log s' = m_log s @ t \<and> (pipe_delivers t \<longrightarrow> pipe_kept t \<longrightarrow> D t)" by blast
qed

text \<open>The handlers' closures leave the pipe alone.\<close>

lemma closure_aside:
  assumes "effect c" and "\<And>r. keeps_aside q fd (k r)"
  shows "keeps_aside q fd (bindR (apply_current E q caps) (\<lambda>_. sc_libc_try E q c k))"
  using assms by (intro aside_intros aside_sc_libc_try) (simp add: written_bytes_def effect_def split: call.splits)

lemma emits_closure:
  assumes "\<And>r. emits (\<lambda>h e. True) (k r)"
  shows "emits (\<lambda>h e. True) (bindR (apply_current E q caps) (\<lambda>_. sc_libc_try E q c k))"
  by (intro emits_intros assms emits_apply_current [THEN emits_mono]) simp_all

locale acting_handler = syscall_handler +
  assumes succeeds: "acts done_for (handler msg)"
begin

text \<open>A value that the handler returns stands for a call that the handler's rules allow, which succeeded, and which a child
  made in the environment of the sender.\<close>

lemma success_real:
  assumes run: "handler msg s = Some (Ok (StatusOk v), s')" and v: "v \<noteq> -1" and log: "m_log s' = m_log s @ t"
    and pipe: "pipe_delivers t" "pipe_kept t"
  shows "\<exists>a pid c r b caps. t = a @ (Child pid, c, r) # b \<and> effect c \<and> r_ret r \<noteq> -1 \<and> allowed msg c
    \<and> caps_of E msg caps \<and> entered (Child pid) caps (m_log s @ a)"
proof -
  from succeeds run v log pipe have "done_for t" unfolding acts_def by fastforce
  then obtain a e b where t: "t = a @ e # b" and e: "effect (ev_call e)" "r_ret (ev_resp e) \<noteq> -1"
    by (auto simp: done_for_def list_ex_iff dest!: split_list)
  from effect_by_confined_child [OF run] log t e(1) obtain pid caps where "ev_actor e = Child pid"
    "allowed msg (ev_call e)" "caps_of E msg caps" "entered (Child pid) caps (m_log s @ a)" by blast
  moreover obtain q c r where "e = (q, c, r)" by (cases e)
  ultimately show ?thesis using t e by (intro exI [of _ a] exI [of _ pid] exI [of _ c] exI [of _ r] exI [of _ b] exI [of _ caps]) simp
qed

end

lemma acts_do_mknodat [acts_intros]: "acts done_for (do_mknodat E pidfd dirfd pathname mode dev)"
  unfolding do_mknodat_def
  by (intro acts_intros acts_fork emits_intros)
     (auto simp: mknodat_child_def intro!: closure_aside emits_closure aside.ret emits_ret intro: closure_done)

lemma acts_mknod: "acts done_for (mknod E msg)"
  unfolding mknod_def by (intro acts_intros emits_intros) simp_all

lemma acts_mknodat: "acts done_for (mknodat E msg)"
  unfolding mknodat_def by (intro acts_intros emits_intros) simp_all

lemma acts_quota_fork:
  assumes D: "within D" and k: "\<And>q r. emits (\<lambda>h e. True) (k q r)" "\<And>q fd r. keeps_aside q fd (k q r)"
    and closure: "\<And>caps pid s v s' t. quota_child E caps cmd special i addr k (Child pid) s = Some (Ok (StatusOk v), s')
        \<Longrightarrow> m_log s' = m_log s @ t \<Longrightarrow> D t"
  shows "acts D (quota_fork E msg cmd special i addr k)"
  unfolding quota_fork_def
  by (intro acts_intros acts_fork D emits_intros)
     (auto simp: quota_child_def intro!: closure_aside emits_closure k intro: closure [unfolded quota_child_def])

lemma acts_quota_done [acts_intros]:
  assumes k: "\<And>q r. emits (\<lambda>h e. True) (k q r)" "\<And>q fd r. keeps_aside q fd (k q r)"
  shows "acts done_for (quota_fork E msg cmd special i addr k)"
  by (intro acts_quota_fork within_done_for k)
     (rule closure_done [unfolded quota_child_def], auto simp: quota_child_def intro: k)

lemma quota_continuations:
  "emits (\<lambda>h e. True) (write_back E msg addr n q r)" "keeps_aside q fd (write_back E msg addr n q r)"
  "emits (\<lambda>h e. True) (return_zero q r)" "keeps_aside q fd (return_zero q r)"
  "emits (\<lambda>h e. True) (return_out q r)" "keeps_aside q fd (return_out q r)"
  "emits (\<lambda>h e. True) (write_back_next E msg addr idmap q r)" "keeps_aside q fd (write_back_next E msg addr idmap q r)"
  unfolding write_back_def return_zero_def return_out_def write_back_next_def Let_def
  by (intro aside_emits emits_intros; simp add: written_bytes_def)+

lemma emits_uid_gid_arg: "emits (\<lambda>h e. True) (uid_gid_arg E msg i kind)"
  unfolding uid_gid_arg_def Let_def by (intro emits_intros) simp_all

lemma acts_quotactl: "acts done_for (quotactl E msg)"
  unfolding quotactl_def quota_handler_defs Let_def
  by (intro acts_intros emits_intros emits_uid_gid_arg quota_continuations) simp_all

interpretation mknod: acting_handler E "mknod E" "mknod_allowed E 1 2" for E :: "'w env"
  by unfold_locales (rule acts_mknod)

interpretation mknodat: acting_handler E "mknodat E" "mknod_allowed E 2 3" for E :: "'w env"
  by unfold_locales (rule acts_mknodat)

interpretation quotactl: acting_handler E "quotactl E" quota_allowed for E :: "'w env"
  by unfold_locales (rule acts_quotactl)

section \<open>A whole request\<close>

text \<open>What may be done for a message: what the handler of its system call allows.\<close>

definition permitted_for :: "'w env \<Rightarrow> ProxyMessageBuffer \<Rightarrow> call \<Rightarrow> bool" where
  "permitted_for E msg c = (case translate_syscall (d_arch (n_data (b_seccomp_notif msg))) (d_nr (n_data (b_seccomp_notif msg))) of
       None \<Rightarrow> False
     | Some Mknod \<Rightarrow> mknod_allowed E 1 2 msg c
     | Some MknodAt \<Rightarrow> mknod_allowed E 2 3 msg c
     | Some Syscall.Quotactl \<Rightarrow> quota_allowed msg c)"

lemma handle_syscall_do_real:
  assumes run: "handle_syscall_do E msg s = Some (Ok (StatusOk v), s')" and rest: "v \<noteq> -1" "m_log s' = m_log s @ t"
    "pipe_delivers t" "pipe_kept t"
  shows "\<exists>a pid c r b caps. t = a @ (Child pid, c, r) # b \<and> effect c \<and> r_ret r \<noteq> -1 \<and> permitted_for E msg c
    \<and> caps_of E msg caps \<and> entered (Child pid) caps (m_log s @ a)"
proof (cases "translate_syscall (d_arch (n_data (b_seccomp_notif msg))) (d_nr (n_data (b_seccomp_notif msg)))")
  case None
  with run show ?thesis by (simp add: handle_syscall_do_def ret_run)
next
  case (Some nr)
  show ?thesis
  proof (cases nr)
    case Mknod
    with run Some have "mknod E msg s = Some (Ok (StatusOk v), s')" by (simp add: handle_syscall_do_def)
    from mknod.success_real [OF this rest] Some Mknod show ?thesis by (simp add: permitted_for_def)
  next
    case MknodAt
    with run Some have "mknodat E msg s = Some (Ok (StatusOk v), s')" by (simp add: handle_syscall_do_def)
    from mknodat.success_real [OF this rest] Some MknodAt show ?thesis by (simp add: permitted_for_def)
  next
    case Quotactl
    with run Some have "quotactl E msg s = Some (Ok (StatusOk v), s')" by (simp add: handle_syscall_do_def)
    from quotactl.success_real [OF this rest] Some Quotactl show ?thesis by (simp add: permitted_for_def)
  qed
qed

text \<open>The daemon's own events at the end do not matter for the contracts.\<close>

lemma pipe_before_daemon:
  assumes "pipe_delivers (t @ u)" and "pipe_kept (t @ u)" and u: "list_all (\<lambda>e. ev_actor e = Daemon) u"
  shows "pipe_delivers t" and "pipe_kept t"
proof -
  have none: "bytes_written (Child pid) fd u = []" for pid fd
    by (rule conjunct2 [OF bytes_none]) (use u in \<open>auto simp: list_all_iff\<close>)
  show "pipe_delivers t" unfolding pipe_delivers_def after_fork_def
  proof (intro allI impI)
    fix a x y b
    assume "t = a @ (Daemon, Pipe2 O_CLOEXEC, x) # (Daemon, call.Fork, y) # b"
    then have "t @ u = a @ (Daemon, Pipe2 O_CLOEXEC, x) # (Daemon, call.Fork, y) # b @ u" by simp
    with assms(1) obtain rest where "bytes_read Daemon (pipe_end x 0) (b @ u) @ rest
        = bytes_written (Child (r_ret y)) (pipe_end x 1) (b @ u)"
      unfolding pipe_delivers_def after_fork_def by blast
    then have "bytes_read Daemon (pipe_end x 0) b @ bytes_read Daemon (pipe_end x 0) u @ rest
        = bytes_written (Child (r_ret y)) (pipe_end x 1) b"
      by (simp only: map_append concat_append none append_Nil2 append_assoc)
    then show "\<exists>rest. bytes_read Daemon (pipe_end x 0) b @ rest
        = bytes_written (Child (r_ret y)) (pipe_end x 1) b" by blast
  qed
  from assms(2) show "pipe_kept t" unfolding pipe_kept_def after_fork_def by fastforce
qed

lemma caps_of_process:
  assumes "caps_of E msg caps" and "b_pid_fd msg = Some pidfd" and "wf_process i" and "proc_of E Daemon pidfd i"
  shows "caps = process_caps pidfd i"
proof -
  from assms(1,2) obtain s s' where "UserCaps_new E Daemon pidfd s = Some (Ok caps, s')" by (auto simp: caps_of_def)
  with UserCaps_new_run [OF assms(3,4), of s] show ?thesis by auto
qed

text \<open>C3: A success that a container is told is real. When a request was answered with a value other than \<open>-1\<close>, then in
  the course of handling it a child made a system call that the rules for this request allow, in the environment of
  the process that asked, and the kernel carried it out; and when
  the kernel serves the files of that process, the environment is exactly the one they describe. This holds for all three system calls, on every kernel whose
  pipes deliver what is written and whose opens do not return a descriptor in use.\<close>

theorem success_is_real:
  assumes run: "handle_syscall E self msg s = Some (Ok msg', s')" and log: "m_log s' = m_log s @ t"
    and pipe: "pipe_delivers t" "pipe_kept t" and val: "p_val (b_seccomp_resp msg') \<noteq> -1"
  shows "\<exists>a pid c r b caps. t = a @ (Child pid, c, r) # b \<and> effect c \<and> r_ret r \<noteq> -1 \<and> permitted_for E msg c
    \<and> caps_of E msg caps \<and> entered (Child pid) caps (m_log s @ a)
    \<and> (\<forall>pidfd i. b_pid_fd msg = Some pidfd \<longrightarrow> wf_process i \<longrightarrow> proc_of E Daemon pidfd i \<longrightarrow> caps = process_caps pidfd i)"
proof -
  from run obtain st s1 where st: "matchR (handle_syscall_do E msg) ret (\<lambda>err.
        case error_status err of Some st \<Rightarrow> ret st | None \<Rightarrow> raise err) s = Some (Ok st, s1)"
    and sent: "respond E Daemon msg' (cl_socket self) s1 = Some (Ok (), s')" and msg': "msg' = set_response msg st"
    by (auto simp: handle_syscall_def Let_def run_simps)
  from val msg' obtain v where v: "st = StatusOk v" "v \<noteq> -1"
    by (cases st) (auto simp: set_response_def Let_def)
  from st v have do: "handle_syscall_do E msg s = Some (Ok (StatusOk v), s1)"
    by (auto simp: run_simps error_status_def split: option.splits error.splits)
  have "emits (\<lambda>h e. True) (handle_syscall_do E msg)"
    using silent_handle_syscall_do by (rule emits_mono) simp
  then obtain t1 where t1: "m_log s1 = m_log s @ t1" using do by (rule emitsD)
  have "emits (\<lambda>h e. ev_actor e = Daemon) (respond E Daemon msg' (cl_socket self))"
    by (intro emits_intros) simp
  then obtain u where u: "m_log s' = m_log s1 @ u" "along (\<lambda>h e. ev_actor e = Daemon) (m_log s1) u"
    using sent by (rule emitsD)
  with log t1 have t: "t = t1 @ u" by simp
  with pipe u have "pipe_delivers t1" "pipe_kept t1" by (auto simp: along_const dest: pipe_before_daemon)
  from handle_syscall_do_real [OF do v(2) t1 this] obtain a pid c r b caps where
    "t1 = a @ (Child pid, c, r) # b" "effect c" "r_ret r \<noteq> -1" "permitted_for E msg c" "caps_of E msg caps"
    "entered (Child pid) caps (m_log s @ a)" by blast
  moreover from this(1) t have "t = a @ (Child pid, c, r) # (b @ u)" by simp
  ultimately show ?thesis using caps_of_process by blast
qed

text \<open>A whole request: \<^verbatim>\<open>Q_QUOTAOFF\<close> from a process with an empty status and no control groups or label.\<close>

definition sample_calls :: "resp list \<Rightarrow> resp list" where
  "sample_calls effects =
     [returns 21, returns 0, returns 0, returns 22, returns 0, returns 0, fails EINVAL,
      (returns 0)\<lparr>r_fds := [8, 9]\<rparr>, returns 42, returns 0, returns 0, returns 0,
      returns 42, returns 10, returns 25, returns 0, returns 0, returns 0, returns 0, returns 0, returns 24, returns 0, returns 0,
      returns 0, returns 0, returns 0, returns 0, returns 0, returns 0, returns 0, returns 0, returns 0] @ effects
     @ [returns 16, returns 0,
      returns 0, returns 0, returns 1, delivers (replicate 16 0), (returns 42)\<lparr>r_data := [0, 0, 0, 0]\<rparr>, returns 0,
      returns 0, returns 136]"

definition sample_off :: "resp list" where
  "sample_off = sample_calls [returns 0]"

lemma sample_off_enc: "enc_ForkData \<lparr>f_val = 0, f_error = 0, f_failure = 0\<rparr> = replicate 16 0"
  by (simp add: enc_ForkData_def le_bytes_def upt_rec numeral_eq_Suc)

lemma sample_off_dec: "dec_ForkData (replicate 16 0) = \<lparr>f_val = 0, f_error = 0, f_failure = 0\<rparr>"
  using ForkData_codec.dec_enc [of "\<lparr>f_val = 0, f_error = 0, f_failure = 0\<rparr>"] by (simp add: sample_off_enc)

lemmas quota_eval = sample_calls_def sample_msg_def prepare_response_def quotactl_def arg_int_def arg_uint_def
  arg_opt_c_string_def arg_def nth_opt_def quota_fork_def msg_pid_fd_def quota_child_def sc_libc_try_def
  inspect_eval apply_eval sample_off_enc sample_off_dec fork_run_eval pipe_eval

abbreviation (input) sample_off_msg :: ProxyMessageBuffer where
  "sample_off_msg \<equiv> sample_msg 179 [0x80000300, 0, 0, 0, 0, 0]"

lemma sample_off_handled:
  "\<exists>s'. quotactl script sample_off_msg (boot sample_off) = Some (Ok (StatusOk 0), s') \<and> m_world s' = [returns 0, returns 136]
     \<and> (\<forall>iov. let t = m_log s' @ [(Daemon, Writable 3, returns 0), (Daemon, Sendmsg 3 iov, returns 136)]
         in pipe_delivers t \<and> pipe_kept t)"
  by (simp add: sample_off_def q_quotaoff_def return_out_def quota_eval)

lemma sample_off_run:
  "\<exists>s'. handle_syscall script (Client_new 3) sample_off_msg (boot sample_off) = Some (Ok (set_response sample_off_msg (StatusOk 0)), s')
     \<and> pipe_delivers (m_log s') \<and> pipe_kept (m_log s')"
proof -
  obtain s1 where run: "quotactl script sample_off_msg (boot sample_off) = Some (Ok (StatusOk 0), s1)"
    and w: "m_world s1 = [returns 0, returns 136]"
    and pipe: "\<And>iov. pipe_delivers (m_log s1 @ [(Daemon, Writable 3, returns 0), (Daemon, Sendmsg 3 iov, returns 136)])
       \<and> pipe_kept (m_log s1 @ [(Daemon, Writable 3, returns 0), (Daemon, Sendmsg 3 iov, returns 136)])"
    using sample_off_handled unfolding Let_def by blast
  have "wf_SeccompNotif (b_seccomp_notif sample_off_msg)"
    by (simp add: sample_msg_def prepare_response_def wf_SeccompNotif_def wf_SeccompData_def)
  then have len: "sum_list (map length (msg_iov (set_response sample_off_msg (StatusOk 0)))) = 136"
    using length_msg_iov [of "set_response sample_off_msg (StatusOk 0)"] by simp
  have do: "handle_syscall_do script sample_off_msg = quotactl script sample_off_msg"
    by (simp add: handle_syscall_do_def sample_msg_def prepare_response_def translate_syscall_def SYSCALL_TABLE_def)
  have "\<exists>s'. respond script Daemon (set_response sample_off_msg (StatusOk 0)) 3 s1 = Some (Ok (), s')
      \<and> m_log s' = m_log s1 @ [(Daemon, Writable 3, returns 0),
          (Daemon, Sendmsg 3 (msg_iov (set_response sample_off_msg (StatusOk 0))), returns 136)]"
    using w len by (simp add: respond_def sendmsg_vectored_def wrap_write_def loopM.simps tokio_result_def io_defs script_def
      env_of_def Let_def) (simp add: returns_def)
  with pipe run do show ?thesis
    by (auto simp: handle_syscall_def Client_new_def matchR_def bindR_def map_err_def ret_def Let_def)
qed

theorem success_is_real_witness:
  "\<exists>s' a pid c r b caps. handle_syscall script (Client_new 3) sample_off_msg (boot sample_off)
       = Some (Ok (set_response sample_off_msg (StatusOk 0)), s')
     \<and> m_log s' = a @ (Child pid, c, r) # b \<and> effect c \<and> permitted_for script sample_off_msg c \<and> entered (Child pid) caps a"
proof -
  obtain s' where run: "handle_syscall script (Client_new 3) sample_off_msg (boot sample_off)
       = Some (Ok (set_response sample_off_msg (StatusOk 0)), s')"
    and pipe: "pipe_delivers (m_log s')" "pipe_kept (m_log s')" using sample_off_run by blast
  have "m_log s' = m_log (boot sample_off) @ m_log s'" "p_val (b_seccomp_resp (set_response sample_off_msg (StatusOk 0))) \<noteq> -1"
    by (simp_all add: boot_def set_response_def Let_def)
  from success_is_real [OF run this(1) pipe this(2)] have "\<exists>a pid c r b caps. m_log s' = a @ (Child pid, c, r) # b \<and> effect c
      \<and> permitted_for script sample_off_msg c \<and> entered (Child pid) caps a"
    unfolding boot_def mach.simps append_Nil by blast
  with run show ?thesis by blast
qed

section \<open>Records written back\<close>

text \<open>A child made the call \<open>cmd\<close>, and then wrote the \<open>n\<close> bytes of the record that the kernel filled in to the address
  \<open>addr\<close> of the caller.\<close>

definition wrote_back :: "i32 \<Rightarrow> nat \<Rightarrow> u64 \<Rightarrow> int \<Rightarrow> event list \<Rightarrow> bool" where
  "wrote_back cmd n addr mem t \<longleftrightarrow> (\<exists>a pid special i qa r w b. r_ret r \<noteq> -1 \<and> r_ret w = int n
     \<and> t = a @ (Child pid, call.Quotactl cmd special i qa, r)
         # (Child pid, Pwrite mem (fill (replicate n 0) (r_data r)) addr, w) # b)"

lemma within_wrote_back: "within (wrote_back cmd n addr mem)"
  unfolding within_def wrote_back_def by (metis append.assoc append_Cons)

lemma write_back_run:
  assumes run: "quota_child E caps cmd special i qa (write_back E msg addr n) (Child pid) s = Some (Ok (StatusOk v), s')"
    and log: "m_log s' = m_log s @ t" and mem: "b_mem_fd msg = Some fd"
  shows "wrote_back cmd n addr fd t"
proof -
  let ?q = "Child pid" and ?c = "call.Quotactl cmd special i qa"
  from run obtain u s1 where s1: "apply_current E ?q caps s = Some (Ok u, s1)" and ok: "r_ret (answer E ?q ?c s1) \<noteq> -1"
    and w: "write_back E msg addr n ?q (answer E ?q ?c s1) (after E ?q ?c s1) = Some (Ok (StatusOk v), s')"
    by (auto simp: quota_child_def sc_libc_try_def bindR_Ok sys_run ret_run split: if_splits)
  let ?p = "Pwrite fd (fill (replicate n 0) (r_data (answer E ?q ?c s1))) addr"
  from w mem have "s' = after E ?q ?p (after E ?q ?c s1)" "r_ret (answer E ?q ?p (after E ?q ?c s1)) = int n"
    by (auto simp: write_back_def mem_write_struct_def msg_mem_fd_def run_simps split: if_splits)
  moreover obtain t1 where "m_log s1 = m_log s @ t1" using emits_apply_current s1 by (rule emitsD)
  ultimately have "t = t1 @ (?q, ?c, answer E ?q ?c s1) # (?q, ?p, answer E ?q ?p (after E ?q ?c s1)) # []"
    "r_ret (answer E ?q ?p (after E ?q ?c s1)) = int n" using log by simp_all
  with ok show ?thesis unfolding wrote_back_def by blast
qed

lemma acts_write_back:
  "b_mem_fd msg = Some fd \<Longrightarrow> acts (wrote_back cmd n addr fd) (quota_fork E msg cmd special i qa (write_back E msg addr n))"
  by (intro acts_quota_fork within_wrote_back quota_continuations) (rule write_back_run)

text \<open>The size of the record a subcommand asks for.\<close>

definition record_size :: "i32 \<Rightarrow> nat option" where
  "record_size cmd = map_of [(Q_GETINFO, sizeof_dqinfo), (Q_GETFMT, 4), (Q_GETQUOTA, sizeof_dqblk)] (drop_bit SUBCMDSHIFT cmd)"

lemma acts_queries:
  assumes cmd: "arg_int msg 0 = Ok cmd" "record_size cmd = Some n" and addr: "arg_caddr_t msg 3 = Ok addr"
    and mem: "b_mem_fd msg = Some fd"
  shows "acts (wrote_back cmd n addr fd) (quotactl E msg)"
proof -
  have query: "acts (wrote_back cmd k addr fd) (bindR (of_res (arg_caddr_t msg 3)) (\<lambda>addr.
      quota_fork E msg cmd special i qa (write_back E msg addr k)))" for special i qa k
    by (rule acts_bindR_result [OF within_wrote_back]) (auto simp: addr of_res_run intro: emits_of_res acts_write_back mem)
  have handlers: "acts (wrote_back cmd sizeof_dqinfo addr fd) (q_getinfo E msg cmd special)"
    "acts (wrote_back cmd 4 addr fd) (q_getfmt E msg cmd special)"
    "acts (wrote_back cmd sizeof_dqblk addr fd) (q_getquota E msg cmd special kind)" for special kind
    unfolding q_getinfo_def q_getfmt_def q_getquota_def
    by (intro acts_intros within_wrote_back query emits_intros emits_uid_gid_arg)+
  show ?thesis
    unfolding quotactl_def Let_def
  proof (rule acts_bindR_result [OF within_wrote_back emits_of_res], rule acts_bindR [OF within_wrote_back])
    show "emits (\<lambda>h e. True) (arg_opt_c_string E Daemon msg 1)" by (intro emits_intros) simp
  qed (use cmd handlers in \<open>auto simp: of_res_run record_size_def split: if_splits\<close>)
qed

text \<open>C25: A quota query that succeeds gave the caller what the kernel said: a child asked the kernel with the command of the
  request, and then wrote the whole record the kernel filled in (24 bytes for \<^verbatim>\<open>Q_GETINFO\<close>, 4 for \<^verbatim>\<open>Q_GETFMT\<close>, 72 for
  \<^verbatim>\<open>Q_GETQUOTA\<close>) into the caller's memory at the address of the request, without anything in between.\<close>

theorem quota_query_written_back:
  assumes "quotactl E msg s = Some (Ok (StatusOk v), s')" and "v \<noteq> -1" and "m_log s' = m_log s @ t"
    and "pipe_delivers t" and "pipe_kept t"
    and "arg_int msg 0 = Ok cmd" and "record_size cmd = Some n" and "arg_caddr_t msg 3 = Ok addr" and "b_mem_fd msg = Some fd"
  shows "wrote_back cmd n addr fd t"
  using acts_queries [OF assms(6-9), of E] assms(1-5) unfolding acts_def by fastforce

text \<open>\<^verbatim>\<open>Q_GETINFO\<close>: the kernel fills in seven bytes, the rest of the record is zero.\<close>

definition sample_info :: "resp list" where
  "sample_info = sample_calls [(returns 0)\<lparr>r_data := [1, 2, 3, 4, 5, 6, 7]\<rparr>, returns 24]"

abbreviation (input) sample_info_msg :: ProxyMessageBuffer where
  "sample_info_msg \<equiv> sample_msg 179 [0x80000500, 0, 0, 4096, 0, 0]"

lemma sample_info_run:
  "\<exists>s'. quotactl script sample_info_msg (boot sample_info) = Some (Ok (StatusOk 0), s')
     \<and> pipe_delivers (m_log s') \<and> pipe_kept (m_log s')"
  by (simp add: sample_info_def q_getinfo_def arg_caddr_t_def write_back_def mem_write_struct_def msg_mem_fd_def
      sizeof_dqinfo_def quota_eval)

theorem quota_query_written_back_witness:
  "\<exists>s'. quotactl script sample_info_msg (boot sample_info) = Some (Ok (StatusOk 0), s')
     \<and> wrote_back 0x80000500 24 4096 12 (m_log s')"
proof -
  obtain s' where run: "quotactl script sample_info_msg (boot sample_info) = Some (Ok (StatusOk 0), s')"
    and pipe: "pipe_delivers (m_log s')" "pipe_kept (m_log s')" using sample_info_run by blast
  have args: "arg_int sample_info_msg 0 = Ok 0x80000500" "record_size 0x80000500 = Some 24"
    "arg_caddr_t sample_info_msg 3 = Ok 4096" "b_mem_fd sample_info_msg = Some 12"
    by (simp_all add: arg_int_def arg_uint_def arg_caddr_t_def arg_def nth_opt_def sample_msg_def prepare_response_def
      record_size_def sizeof_dqinfo_def)
  have "m_log s' = m_log (boot sample_info) @ m_log s'" by (simp add: boot_def)
  from quota_query_written_back [OF run _ this pipe args] run show ?thesis by simp
qed

end
