(* ===== verification/Requests.thy ===== *)
theory Requests
  imports Client ProcFs
begin

text \<open>
  What is done is what was asked for. The arguments of a system call are numbers; what they mean is in the caller: strings and
  records in its memory, descriptors in its \<^verbatim>\<open>/proc/<pid>/fd\<close>, user and group ids in its id maps. \<open>requested\<close> says
  which call a request stands for, in terms of these and without the code; the theory shows that whatever a child does for
  a request is that call. \<open>brings Q m\<close> is the calculus for it: it follows a handler and collects what its steps found out.
\<close>

section \<open>The calculus\<close>

text \<open>Every call on the container's behalf that \<open>m\<close> makes satisfies \<open>Q\<close>, which also sees what \<open>m\<close> did before.\<close>

definition brings :: "(event list \<Rightarrow> call \<Rightarrow> bool) \<Rightarrow> ('w, 'e, 'a) io \<Rightarrow> bool" where
  "brings Q m \<longleftrightarrow> (\<forall>s r s'. m s = Some (r, s') \<longrightarrow> (\<exists>t. m_log s' = m_log s @ t
     \<and> (\<forall>a q c x b. t = a @ (q, c, x) # b \<longrightarrow> effect c \<longrightarrow> Q a c)))"

lemma bringsD:
  assumes "brings Q m" and "m s = Some (r, s')"
  obtains t where "m_log s' = m_log s @ t" and "\<And>a q c x b. t = a @ (q, c, x) # b \<Longrightarrow> effect c \<Longrightarrow> Q a c"
  using assms unfolding brings_def by blast

abbreviation quiet :: "event list \<Rightarrow> event \<Rightarrow> bool" where
  "quiet h e \<equiv> \<not> effect (ev_call e)"

lemma brings_emits:
  assumes m: "emits (\<lambda>h e. effect (ev_call e) \<longrightarrow> R (ev_call e)) m" and Q: "\<And>a c. R c \<Longrightarrow> Q a c"
  shows "brings Q m"
  unfolding brings_def
proof (intro allI impI)
  fix s r s'
  assume "m s = Some (r, s')"
  with m obtain t where "m_log s' = m_log s @ t" "along (\<lambda>h e. effect (ev_call e) \<longrightarrow> R (ev_call e)) (m_log s) t"
    by (rule emitsD)
  then show "\<exists>t. m_log s' = m_log s @ t \<and> (\<forall>a q c x b. t = a @ (q, c, x) # b \<longrightarrow> effect c \<longrightarrow> Q a c)"
    using Q by (auto simp: along_const)
qed

lemma brings_quiet: "emits quiet m \<Longrightarrow> brings Q m"
  by (rule brings_emits [where R = "\<lambda>_. False"]) auto

text \<open>What is done for the container comes after a step that only looks at things, and may rely on what that step saw.\<close>

lemma brings_bindR:
  assumes m: "emits quiet m"
    and f: "\<And>v s s1 t. m s = Some (Ok v, s1) \<Longrightarrow> m_log s1 = m_log s @ t \<Longrightarrow> brings (\<lambda>a. Q (t @ a)) (f v)"
  shows "brings Q (bindR m f)"
  unfolding brings_def
proof (intro allI impI)
  fix s r s'
  assume run: "bindR m f s = Some (r, s')"
  then obtain y s1 where y: "m s = Some (y, s1)" by (auto simp: bindR_run)
  with m obtain t where t: "m_log s1 = m_log s @ t" "along quiet (m_log s) t" by (rule emitsD)
  then have no: "\<And>q c x. (q, c, x) \<in> set t \<Longrightarrow> \<not> effect c" by (auto simp: along_const list_all_iff)
  from run y consider "s' = s1" | v where "y = Ok v" "f v s1 = Some (r, s')" by (auto simp: bindR_run)
  then show "\<exists>t. m_log s' = m_log s @ t \<and> (\<forall>a q c x b. t = a @ (q, c, x) # b \<longrightarrow> effect c \<longrightarrow> Q a c)"
  proof cases
    case 1
    with t(1) no show ?thesis by (metis in_set_conv_decomp)
  next
    case 2
    with f [of s v s1 t] y t(1) obtain u where u: "m_log s' = m_log s1 @ u"
      "\<And>a q c x b. u = a @ (q, c, x) # b \<Longrightarrow> effect c \<Longrightarrow> Q (t @ a) c" by (auto elim: bringsD)
    have "Q a c" if "t @ u = a @ (q, c, x) # b" "effect c" for a q c x b
    proof -
      from that no have "\<exists>a'. a = t @ a' \<and> u = a' @ (q, c, x) # b"
        by (fastforce simp: append_eq_append_conv2 append_eq_Cons_conv)
      with u(2) that(2) show ?thesis by blast
    qed
    with u(1) t(1) show ?thesis by auto
  qed
qed

lemma brings_of_res: "(\<And>v. x = Ok v \<Longrightarrow> brings Q (f v)) \<Longrightarrow> brings Q (bindR (of_res x) f)"
  by (rule brings_bindR, rule emits_of_res) (auto simp: of_res_run)

section \<open>What a request stands for\<close>

text \<open>Arguments that are addresses in the caller's memory: of a string, and of a record of \<open>n\<close> bytes.\<close>

definition string_arg :: "(u64 \<Rightarrow> bytes) \<Rightarrow> ProxyMessageBuffer \<Rightarrow> nat \<Rightarrow> bytes \<Rightarrow> bool" where
  "string_arg mem msg i path \<longleftrightarrow> (\<exists>addr. arg msg i = Ok addr \<and> addr \<noteq> 0 \<and> 0 \<in> set (take 4096 (mem addr))
     \<and> path = takeWhile (\<lambda>b. b \<noteq> 0) (take 4096 (mem addr)))"

definition opt_string_arg :: "(u64 \<Rightarrow> bytes) \<Rightarrow> ProxyMessageBuffer \<Rightarrow> nat \<Rightarrow> bytes option \<Rightarrow> bool" where
  "opt_string_arg mem msg i x = (case x of None \<Rightarrow> arg msg i = Ok 0 | Some path \<Rightarrow> string_arg mem msg i path)"

definition struct_arg :: "(u64 \<Rightarrow> bytes) \<Rightarrow> ProxyMessageBuffer \<Rightarrow> nat \<Rightarrow> nat \<Rightarrow> bytes \<Rightarrow> bool" where
  "struct_arg mem msg i n data \<longleftrightarrow> (\<exists>addr. arg msg i = Ok addr \<and> data = take n (mem addr) \<and> length data = n)"

text \<open>An id of the caller: what it is called outside, by the first entry of the caller's map that contains it.\<close>

definition host_id :: "IdMap \<Rightarrow> i32 \<Rightarrow> i32 \<Rightarrow> bool" where
  "host_id m ident host \<longleftrightarrow> unat ident < 2 ^ 31 \<and> (case find (\<lambda>e. in_ns e (ucast ident)) m of
       None \<Rightarrow> False
     | Some e \<Rightarrow> unat host = unat (e_host e) + (unat ident - unat (e_ns e)))"

text \<open>The caller: its memory, and its id maps.\<close>

record caller =
  c_mem :: "u64 \<Rightarrow> bytes"
  c_uids :: IdMap
  c_gids :: IdMap

definition id_arg :: "caller \<Rightarrow> ProxyMessageBuffer \<Rightarrow> i32 \<Rightarrow> i32 \<Rightarrow> bool" where
  "id_arg w msg kind i \<longleftrightarrow> (\<exists>ident. arg_int msg 2 = Ok ident
     \<and> (if kind = USRQUOTA then host_id (c_uids w) ident i
        else if kind = GRPQUOTA then host_id (c_gids w) ident i else i = ident))"

text \<open>A quota request: command and special file are passed on; for limits of a user or group the id is translated, for the other
  subcommands it is passed on; a record to be set is the caller's, a record to be filled in is
  handed over empty.\<close>

definition quota_asked :: "caller \<Rightarrow> ProxyMessageBuffer \<Rightarrow> i32 \<Rightarrow> bytes option \<Rightarrow> i32 \<Rightarrow> qaddr \<Rightarrow> bool" where
  "quota_asked w msg cmd special i addr \<longleftrightarrow> arg_int msg 0 = Ok cmd \<and> opt_string_arg (c_mem w) msg 1 special
     \<and> (let kind = cmd AND KINDMASK; subcmd = drop_bit SUBCMDSHIFT cmd in
        if subcmd = Q_GETINFO then arg_int msg 2 = Ok i \<and> addr = QBuf (replicate 24 0)
        else if subcmd = Q_SETINFO then arg_int msg 2 = Ok i \<and> (\<exists>data. struct_arg (c_mem w) msg 3 24 data \<and> addr = QBuf data)
        else if subcmd = Q_GETFMT then arg_int msg 2 = Ok i \<and> addr = QBuf (replicate 4 0)
        else if subcmd = Q_QUOTAON then arg_int msg 2 = Ok i \<and> (\<exists>path. string_arg (c_mem w) msg 3 path \<and> addr = QPath path)
        else if subcmd = Q_QUOTAOFF then arg_int msg 2 = Ok i \<and> addr = QNull
        else if subcmd = Q_GETQUOTA then id_arg w msg kind i \<and> addr = QBuf (replicate 72 0)
        else if subcmd = Q_SETQUOTA then id_arg w msg kind i \<and> (\<exists>data. struct_arg (c_mem w) msg 3 72 data \<and> addr = QBuf data)
        else if subcmd = Q_SYNC then i = 0 \<and> addr = QNull
        else subcmd = Q_GETNEXTQUOTA \<and> id_arg w msg kind i \<and> addr = QBuf (replicate 80 0))"

text \<open>A node: path, mode and device number in arguments that follow each other, the device on the list.\<close>

definition node_asked :: "'w env \<Rightarrow> caller \<Rightarrow> ProxyMessageBuffer \<Rightarrow> nat \<Rightarrow> bytes \<Rightarrow> u32 \<Rightarrow> u64 \<Rightarrow> bool" where
  "node_asked E w msg i path mode dev \<longleftrightarrow> string_arg (c_mem w) msg i path \<and> arg_mode_t msg (i + 1) = Ok mode
     \<and> arg_dev_t msg (i + 2) = Ok dev \<and> check_mknod_dev E mode dev"

text \<open>The directory it is relative to was opened before: the caller's working directory, or its open directory of that number.
  Other negative numbers are no descriptors, and passed on.\<close>

definition dir_opened :: "PidFd \<Rightarrow> bytes \<Rightarrow> int \<Rightarrow> event list \<Rightarrow> bool" where
  "dir_opened pidfd name dirfd t \<longleftrightarrow> dirfd \<noteq> -1
     \<and> (\<exists>y. (Daemon, Openat (pf_fd pidfd) name (O_DIRECTORY OR O_CLOEXEC) 0, y) \<in> set t \<and> r_ret y = dirfd)"

definition dir_asked :: "PidFd \<Rightarrow> ProxyMessageBuffer \<Rightarrow> int \<Rightarrow> event list \<Rightarrow> bool" where
  "dir_asked pidfd msg dirfd t \<longleftrightarrow> (\<exists>v. arg msg 0 = Ok v \<and> (let n = sint (ucast v :: i32) in
     if n = AT_FDCWD then dir_opened pidfd (str ''cwd'') dirfd t
     else if n < 0 then dirfd = n
     else dir_opened pidfd (str ''fd/'' @ show_int n) dirfd t))"

definition requested_syscall :: "ProxyMessageBuffer \<Rightarrow> Syscall option" where
  "requested_syscall msg = translate_syscall (d_arch (n_data (b_seccomp_notif msg))) (d_nr (n_data (b_seccomp_notif msg)))"

definition requested :: "'w env \<Rightarrow> caller \<Rightarrow> PidFd \<Rightarrow> ProxyMessageBuffer \<Rightarrow> event list \<Rightarrow> call \<Rightarrow> bool" where
  "requested E w pidfd msg t c = (case c of
       Mknodat dirfd path mode dev \<Rightarrow> (case requested_syscall msg of
           Some Mknod \<Rightarrow> node_asked E w msg 0 path mode dev \<and> dir_opened pidfd (str ''cwd'') dirfd t
         | Some MknodAt \<Rightarrow> node_asked E w msg 1 path mode dev \<and> dir_asked pidfd msg dirfd t
         | _ \<Rightarrow> False)
     | call.Quotactl cmd special i addr \<Rightarrow>
         requested_syscall msg = Some Syscall.Quotactl \<and> quota_asked w msg cmd special i addr
     | _ \<Rightarrow> False)"

section \<open>What the code finds out\<close>

text \<open>The kernel shows the caller of a message as it is: its memory through the memory descriptor, its id maps in \<^verbatim>\<open>/proc\<close>.\<close>

definition shows_caller :: "'w env \<Rightarrow> ProxyMessageBuffer \<Rightarrow> PidFd \<Rightarrow> caller \<Rightarrow> bool" where
  "shows_caller E msg pidfd w \<longleftrightarrow> b_pid_fd msg = Some pidfd \<and> (\<exists>fd. b_mem_fd msg = Some fd \<and> memory_of E fd (c_mem w))
     \<and> list_all wf_entry (c_uids w) \<and> list_all wf_entry (c_gids w)
     \<and> (\<forall>s. proc_file E Daemon pidfd (str ''uid_map'') (concat (map show_entry (c_uids w))) s
        \<and> proc_file E Daemon pidfd (str ''gid_map'') (concat (map show_entry (c_gids w))) s)"

lemma arg_c_string_asked:
  assumes "shows_caller E msg pidfd w" and run: "arg_c_string E p msg i s = Some (Ok path, s')"
  shows "string_arg (c_mem w) msg i path"
proof -
  from assms(1) obtain fd where "b_mem_fd msg = Some fd" "memory_of E fd (c_mem w)" by (auto simp: shows_caller_def)
  from arg_c_string_memory [OF this(2,1) run] obtain addr where "arg msg i = Ok addr" "0 \<in> set (take 4096 (c_mem w addr))"
    "path = takeWhile (\<lambda>b. b \<noteq> 0) (take 4096 (c_mem w addr))" by blast
  moreover from run this(1) have "addr \<noteq> 0" by (auto simp: arg_c_string_def arg_opt_c_string_def run_simps)
  ultimately show ?thesis by (auto simp: string_arg_def)
qed

lemma arg_opt_c_string_asked:
  assumes "shows_caller E msg pidfd w" and run: "arg_opt_c_string E p msg i s = Some (Ok x, s')"
  shows "opt_string_arg (c_mem w) msg i x"
proof (cases x)
  case None
  with run show ?thesis by (auto simp: arg_opt_c_string_def opt_string_arg_def run_simps split: if_splits)
next
  case (Some path)
  with run have "arg_c_string E p msg i s = Some (Ok path, s')" by (simp add: arg_c_string_def bindR_def ok_or_def ret_def)
  from arg_c_string_asked [OF assms(1) this] Some show ?thesis by (simp add: opt_string_arg_def)
qed

lemma arg_struct_by_ptr_asked:
  assumes "shows_caller E msg pidfd w" and run: "arg_struct_by_ptr E p msg i n s = Some (Ok data, s')"
  shows "struct_arg (c_mem w) msg i n data"
proof -
  from assms(1) obtain fd where fd: "b_mem_fd msg = Some fd" and mem: "memory_of E fd (c_mem w)" by (auto simp: shows_caller_def)
  from run fd obtain addr where addr: "arg msg i = Ok addr"
    and r: "r_ret (answer E p (Pread fd n addr) s) = int n" and data: "data = fill (replicate n 0) (r_data (answer E p (Pread fd n addr) s))"
    by (auto simp: arg_struct_by_ptr_def msg_mem_fd_def run_simps split: if_splits)
  from r have ok: "r_ret (answer E p (Pread fd n addr) s) \<noteq> -1" by simp
  with mem have "r_data (answer E p (Pread fd n addr) s) = take n (c_mem w addr)" by (simp add: memory_of_def answer_def)
  moreover from mem ok r have "int (length (r_data (answer E p (Pread fd n addr) s))) = int n"
    unfolding memory_of_def honest_pread_def answer_def Let_def by metis
  ultimately have "data = take n (c_mem w addr)" "length data = n" using data by (simp_all add: fill_def)
  with addr show ?thesis by (auto simp: struct_arg_def)
qed

lemma uid_gid_arg_asked:
  assumes w: "shows_caller E msg pidfd w" and run: "uid_gid_arg E msg 2 kind s = Some (Ok (i, m), s')"
  shows "id_arg w msg kind i"
proof -
  from run obtain ident where ident: "arg_int msg 2 = Ok ident" by (auto simp: uid_gid_arg_def run_simps)
  have host: "host_id m ident i"
    if m: "list_all wf_entry m" "id_map_file kind = Some name" "\<And>s. proc_file E Daemon pidfd name (concat (map show_entry m)) s" for m name
  proof -
    from w have pf: "b_pid_fd msg = Some pidfd" by (simp add: shows_caller_def)
    from uid_gid_arg_run [OF ident pf m(2,1,3), of s] run obtain v where v: "map_from m (scast ident) = Some v" "unat v < 2 ^ 31"
      "i = ucast v" by (auto split: option.splits if_splits)
    have low: "unat ident < 2 ^ 31"
    proof (rule ccontr)
      assume "\<not> unat ident < 2 ^ 31"
      then have "unat (scast ident :: u64) \<ge> 2 ^ 33" by (intro sign_extended_high) simp
      then have "find (\<lambda>e. in_ns e (scast ident)) m = None"
        using m(1) by (auto simp: find_None_iff list_all_iff in_ns_def wf_entry_def)
      with v(1) show False by (simp add: map_from_find [OF m(1)])
    qed
    from v(1) obtain e where e: "find (\<lambda>e. in_ns e (ucast ident)) m = Some e" "v = e_host e + ucast ident - e_ns e"
      by (auto simp: map_from_find [OF m(1)] sign_extended_low [OF low])
    then have "wf_entry e" "in_ns e (ucast ident)" using m(1) by (auto simp: find_Some_iff list_all_iff)
    then have "unat v = unat (e_host e) + (unat ident - unat (e_ns e))" using e(2) by (simp add: shift_entry(3) unat_ucast_u64)
    moreover have "unat i = unat v" using v(2,3) by (simp add: unsigned_ucast_eq take_bit_nat_eq_self)
    ultimately show ?thesis using low e(1) by (simp add: host_id_def)
  qed
  show ?thesis
  proof (cases "kind = USRQUOTA \<or> kind = GRPQUOTA")
    case True
    with w host [of "c_uids w" "str ''uid_map''"] host [of "c_gids w" "str ''gid_map''"] ident show ?thesis
      by (auto simp: shows_caller_def id_arg_def id_map_file_def simp del: str_Cons)
  next
    case False
    with run ident show ?thesis by (auto simp: uid_gid_arg_def id_arg_def run_simps)
  qed
qed

lemma fd_cwd_opened:
  assumes "map_err f (fd_cwd E Daemon pidfd) s = Some (Ok dirfd, s1)" and "m_log s1 = m_log s @ t"
  shows "dir_opened pidfd (str ''cwd'') dirfd (t @ a)"
  using assms by (auto simp: dir_opened_def fd_cwd_def PidFd_fd_def run_simps simp del: str_Cons)

lemma arg_fd_asked:
  assumes "b_pid_fd msg = Some pidfd" and run: "arg_fd E Daemon msg 0 O_DIRECTORY s = Some (Ok dirfd, s1)" and log: "m_log s1 = m_log s @ t"
  shows "dir_asked pidfd msg dirfd (t @ a)"
proof -
  from run obtain v where v: "arg msg 0 = Ok v" by (auto simp: arg_fd_def run_simps)
  let ?n = "sint (ucast v :: i32)"
  consider "?n = AT_FDCWD" | "?n \<noteq> AT_FDCWD" "?n < 0" | "?n \<noteq> AT_FDCWD" "\<not> ?n < 0" by blast
  then show ?thesis
  proof cases
    case 1
    with run v assms(1) have "map_err IoErr (fd_cwd E Daemon pidfd) s = Some (Ok dirfd, s1)"
      by (simp add: arg_fd_def of_res_def bindR_def ret_def msg_pid_fd_def unwrap_def)
    from fd_cwd_opened [OF this log] v 1 show ?thesis by (simp add: dir_asked_def Let_def)
  next
    case 2
    with run v show ?thesis by (auto simp: arg_fd_def dir_asked_def Let_def run_simps)
  next
    case 3
    with run v assms(1) log show ?thesis
      by (auto simp: arg_fd_def dir_asked_def dir_opened_def Let_def fd_num_def PidFd_fd_def run_simps simp del: str_Cons)
  qed
qed

section \<open>Handlers\<close>

lemma brings_do_mknodat:
  assumes "\<And>a. Q a (Mknodat dirfd pathname mode dev)"
  shows "brings Q (do_mknodat E pidfd dirfd pathname mode dev)"
proof (rule brings_emits)
  show "emits (\<lambda>h e. effect (ev_call e) \<longrightarrow> ev_call e = Mknodat dirfd pathname mode dev) (do_mknodat E pidfd dirfd pathname mode dev)"
    unfolding do_mknodat_def mknodat_child_def
    by (intro emits_intros emits_apply_current [THEN emits_mono]) (auto simp: harmless_calls dest: effect_privileged)
qed (simp add: assms)

lemma brings_quota_fork:
  assumes "\<And>a. Q a (call.Quotactl cmd special i addr)" and k: "\<And>q r. emits quiet (k q r)"
  shows "brings Q (quota_fork E msg cmd special i addr k)"
proof (rule brings_emits)
  show "emits (\<lambda>h e. effect (ev_call e) \<longrightarrow> ev_call e = call.Quotactl cmd special i addr) (quota_fork E msg cmd special i addr k)"
    unfolding quota_fork_def quota_child_def
    by (intro emits_intros emits_apply_current [THEN emits_mono] k [THEN emits_mono]) (auto simp: harmless_calls dest: effect_privileged)
qed (simp add: assms)

lemma quiet_steps:
  "emits quiet (arg_c_string E Daemon msg i)" "emits quiet (arg_opt_c_string E Daemon msg i)"
  "emits quiet (arg_struct_by_ptr E Daemon msg i n)" "emits quiet (arg_fd E Daemon msg i flags)"
  "emits quiet (msg_pid_fd msg)" "emits quiet (map_err IoErr (fd_cwd E Daemon pidfd))" "emits quiet (uid_gid_arg E msg i kind)"
  "emits quiet m \<Longrightarrow> emits quiet (closing_on_error E Daemon fd m)"
  unfolding uid_gid_arg_def Let_def by (intro emits_intros; simp add: harmless_calls)+

lemma quiet_continuations:
  "emits quiet (write_back E msg addr n q r)" "emits quiet (return_zero q r)" "emits quiet (return_out q r)"
  "emits quiet (write_back_next E msg addr idmap q r)"
  unfolding write_back_def return_zero_def return_out_def write_back_next_def Let_def by (intro emits_intros; simp)+

lemma closing_on_error_result: "closing_on_error E p fd m s = Some (Ok a, s') \<Longrightarrow> m s = Some (Ok a, s')"
  by (auto simp: closing_on_error_def run_simps)

lemma requested_node:
  assumes "shows_caller E msg pidfd w" and "arg_c_string E Daemon msg i s = Some (Ok path, s')"
    and "arg_mode_t msg (i + 1) = Ok mode" and "arg_dev_t msg (i + 2) = Ok dev" and "check_mknod_dev E mode dev"
    and "requested_syscall msg = Some Mknod \<and> i = 0 \<and> dir_opened pidfd (str ''cwd'') dirfd t
       \<or> requested_syscall msg = Some MknodAt \<and> i = 1 \<and> dir_asked pidfd msg dirfd t"
  shows "requested E w pidfd msg t (Mknodat dirfd path mode dev)"
  using arg_c_string_asked [OF assms(1,2)] assms(3-6)
  by (auto simp: requested_def node_asked_def simp del: str_Cons)

lemma brings_guarded:
  "(ok \<Longrightarrow> brings Q m) \<Longrightarrow> brings Q (if \<not> ok then ret a else m)"
  by (simp add: brings_quiet emits_ret)

lemma mknod_brings:
  assumes w: "shows_caller E msg pidfd w" and nr: "requested_syscall msg = Some Mknod"
  shows "brings (requested E w pidfd msg) (mknod E msg)"
  unfolding mknod_def
proof (intro brings_of_res brings_guarded brings_bindR quiet_steps brings_do_mknodat)
  fix mode dev path s1 s2 t1 pf s3 s4 t2 dirfd s5 s6 t3 a
  assume args: "arg_mode_t msg 1 = Ok mode" "arg_dev_t msg 2 = Ok dev" "check_mknod_dev E mode dev"
    and path: "arg_c_string E Daemon msg 0 s1 = Some (Ok path, s2)"
    and pf: "msg_pid_fd msg s3 = Some (Ok pf :: (error, PidFd) res, s4)"
    and dir: "map_err IoErr (fd_cwd E Daemon pf) s5 = Some (Ok dirfd, s6)" and log: "m_log s6 = m_log s5 @ t3"
  from pf w have "pf = pidfd" by (simp add: msg_pid_fd_Ok shows_caller_def)
  with fd_cwd_opened [OF dir log, of a] have "dir_opened pidfd (str ''cwd'') dirfd (t1 @ t2 @ t3 @ a)"
    by (auto simp: dir_opened_def simp del: str_Cons)
  with nr args show "requested E w pidfd msg (t1 @ t2 @ t3 @ a) (Mknodat dirfd path mode dev)"
    by (intro requested_node [OF w path]) (simp_all add: numeral_2_eq_2 del: str_Cons)
qed

lemma mknodat_brings:
  assumes w: "shows_caller E msg pidfd w" and nr: "requested_syscall msg = Some MknodAt"
  shows "brings (requested E w pidfd msg) (mknodat E msg)"
  unfolding mknodat_def
proof (intro brings_of_res brings_guarded brings_bindR quiet_steps brings_do_mknodat)
  fix mode dev dirfd s1 s2 t1 path s3 s4 t2 pf s5 s6 t3 a
  assume args: "arg_mode_t msg 2 = Ok mode" "arg_dev_t msg 3 = Ok dev" "check_mknod_dev E mode dev"
    and dir: "arg_fd E Daemon msg 0 O_DIRECTORY s1 = Some (Ok dirfd, s2)" and log: "m_log s2 = m_log s1 @ t1"
    and path: "closing_on_error E Daemon dirfd (arg_c_string E Daemon msg 1) s3 = Some (Ok path, s4)"
  from w have "b_pid_fd msg = Some pidfd" by (simp add: shows_caller_def)
  from arg_fd_asked [OF this dir log, of "t2 @ t3 @ a"] nr args
  show "requested E w pidfd msg (t1 @ t2 @ t3 @ a) (Mknodat dirfd path mode dev)"
    by (intro requested_node [OF w closing_on_error_result [OF path]]) (simp_all add: numeral_eq_Suc)
qed

lemma requested_quota:
  "requested_syscall msg = Some Syscall.Quotactl \<Longrightarrow> quota_asked w msg cmd special i addr
     \<Longrightarrow> requested E w pidfd msg t (call.Quotactl cmd special i addr)"
  by (simp add: requested_def)

lemma brings_case_option: "(x = None \<Longrightarrow> brings Q f) \<Longrightarrow> (\<And>a. x = Some a \<Longrightarrow> brings Q (g a)) \<Longrightarrow> brings Q (case x of None \<Rightarrow> f | Some a \<Rightarrow> g a)"
  by (cases x) simp_all

lemma brings_case_prod: "(\<And>a b. x = (a, b) \<Longrightarrow> brings Q (f a b)) \<Longrightarrow> brings Q (case x of (a, b) \<Rightarrow> f a b)"
  by (cases x) simp

lemmas brings_rules = brings_of_res brings_bindR brings_case_option brings_case_prod brings_quota_fork brings_quiet [OF emits_ret]
  quiet_steps quiet_continuations

lemma quota_handlers_bring:
  assumes w: "shows_caller E msg pidfd w" and nr: "requested_syscall msg = Some Syscall.Quotactl" and cmd: "arg_int msg 0 = Ok cmd"
    and special: "opt_string_arg (c_mem w) msg 1 special"
  defines "Q \<equiv> \<lambda>t a. requested E w pidfd msg (t @ a)"
  shows "drop_bit SUBCMDSHIFT cmd = Q_GETINFO \<Longrightarrow> brings (Q t) (q_getinfo E msg cmd special)"
    "drop_bit SUBCMDSHIFT cmd = Q_SETINFO \<Longrightarrow> brings (Q t) (q_setinfo E msg cmd special)"
    "drop_bit SUBCMDSHIFT cmd = Q_GETFMT \<Longrightarrow> brings (Q t) (q_getfmt E msg cmd special)"
    "drop_bit SUBCMDSHIFT cmd = Q_QUOTAON \<Longrightarrow> brings (Q t) (q_quotaon E msg cmd special)"
    "drop_bit SUBCMDSHIFT cmd = Q_QUOTAOFF \<Longrightarrow> brings (Q t) (q_quotaoff E msg cmd special)"
    "drop_bit SUBCMDSHIFT cmd = Q_GETQUOTA \<Longrightarrow> brings (Q t) (q_getquota E msg cmd special (cmd AND KINDMASK))"
    "drop_bit SUBCMDSHIFT cmd = Q_SETQUOTA \<Longrightarrow> brings (Q t) (q_setquota E msg cmd special (cmd AND KINDMASK))"
    "drop_bit SUBCMDSHIFT cmd = Q_SYNC \<Longrightarrow> brings (Q t) (q_sync E msg cmd special)"
    "drop_bit SUBCMDSHIFT cmd = Q_GETNEXTQUOTA \<Longrightarrow> brings (Q t) (q_getnextquota E msg cmd special (cmd AND KINDMASK))"
  unfolding quota_handler_defs Q_def
  by (intro brings_rules requested_quota [OF nr];
      use cmd special arg_c_string_asked [OF w] arg_struct_by_ptr_asked [OF w] uid_gid_arg_asked [OF w] in
      \<open>fastforce simp: quota_asked_def sizeof_dqinfo_def sizeof_dqblk_def sizeof_nextdqblk_def\<close>)+

lemma quotactl_brings:
  assumes w: "shows_caller E msg pidfd w" and nr: "requested_syscall msg = Some Syscall.Quotactl"
  shows "brings (requested E w pidfd msg) (quotactl E msg)"
  unfolding quotactl_def Let_def
proof (intro brings_of_res brings_bindR quiet_steps)
  fix cmd special s s1 t
  assume cmd: "arg_int msg 0 = Ok cmd" and special: "arg_opt_c_string E Daemon msg 1 s = Some (Ok special, s1)"
  note bring = quota_handlers_bring [OF w nr cmd arg_opt_c_string_asked [OF w special]] brings_quiet [OF emits_ret]
  show "brings (\<lambda>a. requested E w pidfd msg (t @ a))
     (if drop_bit SUBCMDSHIFT cmd = Q_GETINFO then q_getinfo E msg cmd special
     else if drop_bit SUBCMDSHIFT cmd = Q_SETINFO then q_setinfo E msg cmd special
     else if drop_bit SUBCMDSHIFT cmd = Q_GETFMT then q_getfmt E msg cmd special
     else if drop_bit SUBCMDSHIFT cmd = Q_QUOTAON then q_quotaon E msg cmd special
     else if drop_bit SUBCMDSHIFT cmd = Q_QUOTAOFF then q_quotaoff E msg cmd special
     else if drop_bit SUBCMDSHIFT cmd = Q_GETQUOTA then q_getquota E msg cmd special (cmd AND KINDMASK)
     else if drop_bit SUBCMDSHIFT cmd = Q_SETQUOTA then q_setquota E msg cmd special (cmd AND KINDMASK)
     else if drop_bit SUBCMDSHIFT cmd = Q_SYNC then q_sync E msg cmd special
     else if drop_bit SUBCMDSHIFT cmd = Q_GETNEXTQUOTA then q_getnextquota E msg cmd special (cmd AND KINDMASK)
     else ret (StatusErr EOPNOTSUPP))"
    by (simp only: bring split: if_split) (simp add: bring)
qed

section \<open>The whole request\<close>

text \<open>What follows does nothing for the container.\<close>

lemma brings_seq:
  assumes "brings Q m" and "m s = Some (x, s1)" and "s' = s1 \<or> (\<exists>k y. emits quiet k \<and> k s1 = Some (y, s'))"
  shows "\<exists>t. m_log s' = m_log s @ t \<and> (\<forall>a q c x b. t = a @ (q, c, x) # b \<longrightarrow> effect c \<longrightarrow> Q a c)"
proof -
  obtain t where t: "m_log s1 = m_log s @ t" "\<And>a q c x b. t = a @ (q, c, x) # b \<Longrightarrow> effect c \<Longrightarrow> Q a c"
    using assms(1,2) unfolding brings_def by blast
  from assms(3) obtain u where u: "m_log s' = m_log s1 @ u" "list_all (\<lambda>e. \<not> effect (ev_call e)) u"
    by (fastforce simp: along_const elim: emitsD)
  have "Q a c" if "t @ u = a @ (q, c, x) # b" "effect c" for a q c x b
  proof -
    from that u(2) have "\<exists>b'. t = a @ (q, c, x) # b'"
      by (fastforce simp: append_eq_append_conv2 append_eq_Cons_conv)
    with t(2) that(2) show ?thesis by blast
  qed
  with t(1) u(1) show ?thesis by auto
qed

lemma brings_first:
  assumes "brings Q m" and "\<And>v. emits quiet (f v)"
  shows "brings Q (bindR m f)"
  unfolding brings_def
proof (intro allI impI)
  fix s r s'
  assume "bindR m f s = Some (r, s')"
  then obtain x s1 where "m s = Some (x, s1)" "s' = s1 \<or> (\<exists>v. f v s1 = Some (r, s'))" by (auto simp: bindR_run)
  with assms show "\<exists>t. m_log s' = m_log s @ t \<and> (\<forall>a q c x b. t = a @ (q, c, x) # b \<longrightarrow> effect c \<longrightarrow> Q a c)"
    by (intro brings_seq [OF assms(1)]) blast+
qed

lemma brings_matchR:
  assumes "brings Q m" and "\<And>v. emits quiet (f v)" and "\<And>e. emits quiet (g e)"
  shows "brings Q (matchR m f g)"
  unfolding brings_def
proof (intro allI impI)
  fix s r s'
  assume "matchR m f g s = Some (r, s')"
  then obtain x s1 where "m s = Some (x, s1)" "s' = s1 \<or> (\<exists>v. f v s1 = Some (r, s')) \<or> (\<exists>e. g e s1 = Some (r, s'))"
    by (auto simp: run_simps)
  with assms show "\<exists>t. m_log s' = m_log s @ t \<and> (\<forall>a q c x b. t = a @ (q, c, x) # b \<longrightarrow> effect c \<longrightarrow> Q a c)"
    by (intro brings_seq [OF assms(1)]) blast+
qed

lemma handle_syscall_do_brings:
  assumes "shows_caller E msg pidfd w"
  shows "brings (requested E w pidfd msg) (handle_syscall_do E msg)"
proof (cases "requested_syscall msg")
  case None
  then show ?thesis by (simp add: handle_syscall_do_def requested_syscall_def brings_quiet emits_ret)
next
  case (Some nr)
  with assms mknod_brings mknodat_brings quotactl_brings show ?thesis
    by (cases nr) (simp_all add: handle_syscall_do_def requested_syscall_def)
qed

lemma handle_syscall_brings:
  assumes "shows_caller E msg pidfd w"
  shows "brings (requested E w pidfd msg) (handle_syscall E self msg)"
  unfolding handle_syscall_def Let_def
  by (intro brings_first brings_matchR handle_syscall_do_brings [OF assms] emits_intros) (simp_all add: harmless_calls)

section \<open>The whole connection\<close>

lemma brings_on_failure:
  assumes "brings Q m" and "emits quiet k"
  shows "brings Q (on_failure m k)"
  unfolding brings_def
proof (intro allI impI)
  fix s r s'
  assume "on_failure m k s = Some (r, s')"
  then obtain x s1 where "m s = Some (x, s1)" "s' = s1 \<or> (\<exists>y. k s1 = Some (y, s'))" by (auto simp: on_failure_run)
  with assms(2) show "\<exists>t. m_log s' = m_log s @ t \<and> (\<forall>a q c x b. t = a @ (q, c, x) # b \<longrightarrow> effect c \<longrightarrow> Q a c)"
    by (intro brings_seq [OF assms(1)]) blast+
qed

lemma along_iff: "along P h t \<longleftrightarrow> (\<forall>a e b. t = a @ e # b \<longrightarrow> P (h @ a) e)"
proof
  show "along P h t" if "\<forall>a e b. t = a @ e # b \<longrightarrow> P (h @ a) e"
    using that
  proof (induction t rule: rev_induct)
    case (snoc e t)
    have "P (h @ t) e" using snoc.prems by blast
    moreover have "P (h @ a) e'" if "t = a @ e' # b" for a e' b
      using snoc.prems [rule_format, of a e' "b @ [e]"] that by simp
    ultimately show ?case using snoc.IH by simp
  qed simp
qed (auto dest: alongD)

text \<open>The message that a call was made for: it was received on the connection, and of all that was done since then (\<open>t\<close>) the
  call is what it asks for. \<open>who\<close> is the caller behind the two descriptors of a message.\<close>

definition asked_on :: "'w env \<Rightarrow> (PidFd \<Rightarrow> int \<Rightarrow> caller) \<Rightarrow> int \<Rightarrow> event list \<Rightarrow> call \<Rightarrow> bool" where
  "asked_on E who socket h c \<longleftrightarrow> (\<exists>msg0 s1 msg s2 t pidfd mem.
     recv E Daemon msg0 socket s1 = Some (Ok (True, msg), s2) \<and> h = m_log s2 @ t
     \<and> b_pid_fd msg = Some pidfd \<and> b_mem_fd msg = Some mem \<and> requested E (who pidfd mem) pidfd msg t c)"

definition shows_callers :: "'w env \<Rightarrow> (PidFd \<Rightarrow> int \<Rightarrow> caller) \<Rightarrow> bool" where
  "shows_callers E who \<longleftrightarrow> (\<forall>msg pidfd mem. b_pid_fd msg = Some pidfd \<longrightarrow> b_mem_fd msg = Some mem
     \<longrightarrow> shows_caller E msg pidfd (who pidfd mem))"

lemma recv_fds_present:
  assumes "recv E p b socket s = Some (Ok (True, b'), s')"
  obtains pidfd mem where "b_pid_fd b' = Some pidfd" and "b_mem_fd b' = Some mem"
  using assms by (cases rule: recv_OkE) auto

lemma main_round_asked:
  assumes who: "shows_callers E who"
  shows "emits (\<lambda>h e. effect (ev_call e) \<longrightarrow> asked_on E who (cl_socket self) h (ev_call e)) (main_round E self msg)"
    (is "emits ?P _")
  unfolding emits_def
proof (intro allI impI)
  fix s r s'
  assume run: "main_round E self msg s = Some (r, s')"
  then obtain y s1 where y: "recv E Daemon msg (cl_socket self) s = Some (y, s1)" by (auto simp: main_round_def bindR_run)
  have "emits quiet (recv E Daemon msg (cl_socket self))" by (intro emits_intros) (simp_all add: harmless_calls)
  then obtain t where t: "m_log s1 = m_log s @ t" "along quiet (m_log s) t" using y by (rule emitsD)
  then have quiet: "along ?P (m_log s) t" by (auto simp: along_iff)
  let ?rest = "\<lambda>m. bindR (on_failure (handle_syscall E self m) (drop_msg E m)) (\<lambda>m. ret (Inl m))"
  from run y consider "s' = s1" | m where "y = Ok (True, m)" "?rest m s1 = Some (r, s')"
    by (auto simp: main_round_def bindR_run ret_run split: if_splits)
  then show "\<exists>t. m_log s' = m_log s @ t \<and> along ?P (m_log s) t"
  proof cases
    case 1
    with t(1) quiet show ?thesis by blast
  next
    case (2 m)
    with y have recv: "recv E Daemon msg (cl_socket self) s = Some (Ok (True, m), s1)" by simp
    then obtain pidfd mem where fds: "b_pid_fd m = Some pidfd" "b_mem_fd m = Some mem" by (rule recv_fds_present)
    with who have "shows_caller E m pidfd (who pidfd mem)" by (simp add: shows_callers_def)
    then have "brings (requested E (who pidfd mem) pidfd m) (?rest m)"
      by (intro brings_first brings_on_failure handle_syscall_brings emits_intros) (simp_all add: effect_def)
    then obtain u where u: "m_log s' = m_log s1 @ u"
      "\<forall>a q c x b. u = a @ (q, c, x) # b \<longrightarrow> effect c \<longrightarrow> requested E (who pidfd mem) pidfd m a c"
      using 2(2) unfolding brings_def by blast
    then have "along ?P (m_log s1) u"
      unfolding along_iff asked_on_def using recv fds by (fastforce simp: split_paired_all)
    with u(1) t(1) quiet show ?thesis by auto
  qed
qed

lemma client_main_asked:
  assumes "shows_callers E who"
  shows "emits (\<lambda>h e. effect (ev_call e) \<longrightarrow> asked_on E who (cl_socket self) h (ev_call e)) (client_main E self)"
  unfolding client_main_def wrap_error_def main_do_def
  by (intro emits_intros main_round_asked assms) (simp_all add: harmless_calls, simp_all add: effect_def)

section \<open>A sample caller\<close>

text \<open>A process that sets the limits of user 1000: its memory holds the special file at 4096 and a record elsewhere, its ids
  are those of an unprivileged container; the kernel grants everything, except that there is no AppArmor.\<close>

definition sample_caller :: caller where
  "sample_caller = \<lparr>c_mem = (\<lambda>a. if a = 4096 then str ''/dev/sda1'' @ [0] else replicate 72 1), c_uids = sample_id_map, c_gids = sample_id_map\<rparr>"

definition container :: "bytes env" where
  "container = env_of (\<lambda>p c w. case c of
       Pread fd n ofs \<Rightarrow> (delivers (take n (c_mem sample_caller ofs)), w)
     | Openat d name f m \<Rightarrow> if name = str ''attr/current'' then (fails EINVAL, w)
         else (returns 7, if name = str ''uid_map'' \<or> name = str ''gid_map'' then concat (map show_entry sample_id_map) else [])
     | Read fd n \<Rightarrow> (delivers (take n w), drop n w)
     | Pipe2 f \<Rightarrow> ((returns 0)\<lparr>r_fds := [8, 9]\<rparr>, w)
     | call.Fork \<Rightarrow> (returns 42, w)
     | PollReadReady fd \<Rightarrow> (returns 1, w)
     | Waitpid pid \<Rightarrow> ((returns pid)\<lparr>r_data := [0, 1, 0, 0]\<rparr>, w)
     | _ \<Rightarrow> (returns 0, w))"

abbreviation (input) sample_setquota :: ProxyMessageBuffer where
  "sample_setquota \<equiv> sample_msg 179 [0x80000800, 4096, 1000, 8192, 0, 0]"

lemma container_shows:
  assumes "b_pid_fd msg = Some pidfd" and "b_mem_fd msg = Some mem"
  shows "shows_caller container msg pidfd sample_caller"
proof -
  let ?b = "concat (map show_entry sample_id_map)"
  have "?b \<noteq> []" "length ?b \<le> 8192"
    by (simp_all add: sample_id_map_def show_entry_def column_def show_nat.simps)
  then have "proc_file container Daemon pidfd name ?b s" if "name = str ''uid_map'' \<or> name = str ''gid_map''" for name s
    using that by (auto simp add: proc_file_def Let_def answer_def after_def container_def sample_defs intro!: exI [of _ "[?b]"])
  moreover have "memory_of container mem (c_mem sample_caller)"
    by (simp add: memory_of_def honest_pread_def container_def env_of_def delivers_def Let_def)
  ultimately show ?thesis
    using sample_map_file(1) assms by (auto simp: shows_caller_def sample_caller_def simp del: str_Cons)
qed

lemma container_caller: "shows_caller container sample_setquota \<lparr>pf_fd = 11, pf_pid = 200\<rparr> sample_caller"
  by (rule container_shows) (simp_all add: sample_msg_def prepare_response_def)

lemma container_quota_fork:
  assumes "b_pid_fd msg = Some \<lparr>pf_fd = 11, pf_pid = 200\<rparr>"
  shows "\<exists>s' t x. quota_fork container msg cmd special i addr return_zero s = Some (Err (IoErr (KindErr UnexpectedEof)), s') \<and> m_log s' = m_log s @ t
     \<and> (Child 42, call.Quotactl cmd special i addr, x) \<in> set t"
  by (simp add: assms quota_fork_def quota_child_def return_zero_def msg_pid_fd_def sc_libc_try_def forking_syscall_def get_result_def read_exact_def poll_read_def
      Fork_wait_def fork_result_def sizeof_ForkData_def fill_def inspect_eval apply_eval fork_eval container_def)

section \<open>Properties\<close>

text \<open>C4: Whatever a child does for a container while a request is handled is what the request asks for. A node has the name
  that the caller passed, in the caller's memory, the mode and device number of the request, which are on the list, and is relative to
  a directory that was opened before as the one the caller named. A quota call has the command of the request, the special file and the
  path or record of the caller's memory, and the id of the request, translated with the caller's id map where it is a user or
  group id. This holds however the request ends.\<close>

theorem handled_as_requested:
  assumes "handle_syscall E self msg s = Some (r, s')" and "m_log s' = m_log s @ a @ (q, c, x) # b" and "effect c"
    and "shows_caller E msg pidfd w"
  shows "requested E w pidfd msg a c"
  using bringsD [OF handle_syscall_brings [OF assms(4)] assms(1)] assms(2,3) by (metis same_append_eq)

theorem handled_as_requested_witness:
  "\<exists>s' a x b. handle_syscall container (Client_new 3) sample_setquota (boot []) = Some (Err (IoErr (KindErr UnexpectedEof)), s')
     \<and> m_log s' = a @ (Child 42, call.Quotactl 0x80000800 (Some (str ''/dev/sda1'')) 101000 (QBuf (replicate 72 1)), x) # b
     \<and> quota_asked sample_caller sample_setquota 0x80000800 (Some (str ''/dev/sda1'')) 101000 (QBuf (replicate 72 1))"
proof -
  let ?msg = sample_setquota and ?c = "call.Quotactl 0x80000800 (Some (str ''/dev/sda1'')) 101000 (QBuf (replicate 72 1))"
    and ?pf = "\<lparr>pf_fd = 11, pf_pid = 200\<rparr>"
  have msg: "arg_int ?msg 0 = Ok 0x80000800" "arg ?msg 1 = Ok 4096" "arg_int ?msg 2 = Ok 1000" "arg ?msg 3 = Ok 8192"
    "b_pid_fd ?msg = Some ?pf" "b_mem_fd ?msg = Some 12"
    by (simp_all add: arg_int_def arg_uint_def arg_def nth_opt_def sample_msg_def prepare_response_def)
  obtain s1 where s1: "get_c_string container Daemon ?msg 4096 (boot []) = Some (Ok (str ''/dev/sda1''), s1)"
    using get_c_string_run [OF _ msg(6), of container Daemon 4096 "boot []"] container_caller
    by (auto simp: shows_caller_def memory_of_def answer_def container_def env_of_def delivers_def Let_def sample_caller_def)
  have "id_map_file USRQUOTA = Some (str ''uid_map'')" by (simp add: id_map_file_def)
  from uid_gid_arg_run [OF msg(3,5) this sample_map_file(1), of container s1] container_caller
  obtain s2 where "uid_gid_arg container ?msg 2 USRQUOTA s1 = Some (case map_from sample_id_map (scast (1000 :: i32)) of
       None \<Rightarrow> Err (NixErr ERANGE)
     | Some host \<Rightarrow> if unat host < 2 ^ 31 then Ok (ucast host, Some sample_id_map) else Err (NixErr ERANGE), s2)"
    by (auto simp: shows_caller_def sample_caller_def simp del: str_Cons)
  then have s2: "uid_gid_arg container ?msg 2 USRQUOTA s1 = Some (Ok (101000, Some sample_id_map), s2)"
    by (simp add: sample_id_map_def)
  obtain s3 where s3: "arg_struct_by_ptr container Daemon ?msg 3 72 s2 = Some (Ok (replicate 72 1), s3)"
    by (simp add: arg_struct_by_ptr_def msg msg_mem_fd_def io_defs container_def sample_caller_def sample_defs fill_def)
  obtain s' t x where fork: "quota_fork container ?msg 0x80000800 (Some (str ''/dev/sda1'')) 101000 (QBuf (replicate 72 1)) return_zero s3
      = Some (Err (IoErr (KindErr UnexpectedEof)), s')" "m_log s' = m_log s3 @ t" "(Child 42, ?c, x) \<in> set t"
    using container_quota_fork [OF msg(5)] by blast
  have "quotactl container ?msg (boot []) = Some (Err (IoErr (KindErr UnexpectedEof)), s')"
    using s1 s2 s3 fork(1) msg
    by (simp add: quotactl_def arg_opt_c_string_def q_setquota_def sizeof_dqblk_def bindR_def of_res_def ret_def Let_def del: str_Cons)
  then have run: "handle_syscall container (Client_new 3) ?msg (boot []) = Some (Err (IoErr (KindErr UnexpectedEof)), s')"
    by (simp add: handle_syscall_def handle_syscall_do_def sample_msg_def prepare_response_def translate_syscall_def SYSCALL_TABLE_def
      matchR_def bindR_def error_status_def raw_os_error_def raise_def)
  from fork(3) obtain u b where "t = u @ (Child 42, ?c, x) # b" by (auto dest!: split_list)
  with fork(2) have log: "m_log s' = m_log (boot []) @ (m_log s3 @ u) @ (Child 42, ?c, x) # b" by (simp add: boot_def)
  from handled_as_requested [OF run log _ container_caller] have
    "quota_asked sample_caller ?msg 0x80000800 (Some (str ''/dev/sda1'')) 101000 (QBuf (replicate 72 1))"
    by (simp add: requested_def del: str_Cons)
  with run log show ?thesis by (metis append_assoc)
qed



end
