(* ===== verification/Server.thy ===== *)
theory Server
  imports Client
begin

text \<open>
  \<^verbatim>\<open>src/main.rs\<close> and \<^verbatim>\<open>src/poll_fn.rs\<close>: the command line, the listening socket, the loop
  that accepts connections, and the future made from a function. A connection's task is handed to
  the tokio runtime by \<open>Spawn\<close>; what the task then does is \<^const>\<open>client_main\<close>.
\<close>

section \<open>Command line\<close>

text \<open>The program continues (\<open>Inr\<close>), or it exits (\<open>Inl\<close>): it prints texts and ends with a status. A text is written
  to a standard stream and errors are ignored, or it is printed by \<^verbatim>\<open>eprintln!\<close>.\<close>

datatype printed = To int bytes | Eprintln bytes

type_synonym exit = "printed list \<times> int"

abbreviation (input) stdout :: int where "stdout \<equiv> 1"
abbreviation (input) stderr :: int where "stderr \<equiv> 2"

definition usage_text :: bytes where
  "usage_text = str ''[options] SOCKET_PATH'' @ [10] @ str ''options:'' @ [10]
     @ str ''    -h, --help      show this help message'' @ [10]
     @ str ''    --system        run as systemd daemon (use sd_notify() when ready to accept connections)'' @ [10]"

definition usage :: "int \<Rightarrow> bytes \<Rightarrow> int \<Rightarrow> exit" where
  "usage status program out = ([To out (str ''usage: ''), To out program, To out usage_text], status)"

text \<open>A complaint about an argument, then the usage.\<close>

definition complain :: "printed list \<Rightarrow> bytes \<Rightarrow> exit" where
  "complain texts program = (case usage 1 program stderr of (us, status) \<Rightarrow> (texts @ us, status))"

definition nonopt_arg :: "bytes \<Rightarrow> bytes option \<Rightarrow> bytes \<Rightarrow> exit + bytes option" where
  "nonopt_arg program path a =
     (if path \<noteq> None
      then Inl (complain [To stderr (str ''unexpected extra parameter: ''), To stderr a, To stderr [10]] program)
      else Inr (Some a))"

definition starts_with :: "bytes \<Rightarrow> bytes \<Rightarrow> bool" where
  "starts_with bs prefix \<longleftrightarrow> take (length prefix) bs = prefix"

fun option_args :: "bytes \<Rightarrow> bool \<Rightarrow> bytes option \<Rightarrow> bytes list \<Rightarrow> exit + (bool \<times> bytes option \<times> bytes list)" where
  "option_args program use_sd_notify path [] = Inr (use_sd_notify, path, [])"
| "option_args program use_sd_notify path (a # args) =
     (if a = str ''-h'' \<or> a = str ''--help'' then Inl (usage 0 program stdout)
      else if a = str ''--'' then Inr (use_sd_notify, path, args)
      else if a = str ''--system'' then option_args program True path args
      else if starts_with a (str ''-'')
      then Inl (complain [To stderr (str ''unexpected option: ''), To stderr a, To stderr [10]] program)
      else (case nonopt_arg program path a of Inl x \<Rightarrow> Inl x
            | Inr path' \<Rightarrow> option_args program use_sd_notify path' args))"

fun plain_args :: "bytes \<Rightarrow> bytes option \<Rightarrow> bytes list \<Rightarrow> exit + bytes option" where
  "plain_args program path [] = Inr path"
| "plain_args program path (a # args) = (case nonopt_arg program path a of Inl x \<Rightarrow> Inl x
     | Inr path' \<Rightarrow> plain_args program path' args)"

definition parse_args :: "bytes \<Rightarrow> bytes list \<Rightarrow> exit + (bool \<times> bytes)" where
  "parse_args program args = (case option_args program False None args of Inl x \<Rightarrow> Inl x
     | Inr (use_sd_notify, path, rest) \<Rightarrow> (case plain_args program path rest of Inl x \<Rightarrow> Inl x
         | Inr None \<Rightarrow> Inl (complain [Eprintln (str ''missing path'')] program)
         | Inr (Some p) \<Rightarrow> Inr (use_sd_notify, p)))"

definition worker_threads :: "nat \<Rightarrow> nat" where
  "worker_threads cpus = (if cpus < 2 then 2 else if cpus > 4 then 4 else cpus)"

section \<open>The server\<close>

definition notify_systemd :: "'w env \<Rightarrow> ('w, io_error, unit) io" where
  "notify_systemd E =
     bindR (sys E Daemon (SdNotify (str ''READY=1'' @ [10]))) (\<lambda>r.
     if r_ret r \<ge> 0 then ret () else raise (OsErr (word_of_int (- r_ret r))))"

definition remove_file :: "'w env \<Rightarrow> bytes \<Rightarrow> ('w, io_error, unit) io" where
  "remove_file E path =
     (if 0 \<in> set path then raise (KindErr InvalidInput)
      else bindR (c_result E Daemon (Unlink path)) (\<lambda>_. ret ()))"

definition spawn :: "'w env \<Rightarrow> Client \<Rightarrow> ('w, error, unit) io" where
  "spawn E client = bindR (sys E Daemon (Spawn (cl_socket client))) (\<lambda>_. ret ())"

definition accept_loop :: "'w env \<Rightarrow> int \<Rightarrow> ('w, error, unit) io" where
  "accept_loop E listener = loopM (\<lambda>_.
     bindR (map_err IoErr (SeqPacketListener_accept E Daemon listener)) (\<lambda>socket.
     bindR (spawn E (Client_new socket)) (\<lambda>_. ret (Inl ())))) ()"

definition do_main :: "'w env \<Rightarrow> bool \<Rightarrow> bytes \<Rightarrow> ('w, error, unit) io" where
  "do_main E use_sd_notify socket_path =
     bindR (matchR (remove_file E socket_path) ret (\<lambda>e.
        if e = OsErr ENOENT then ret () else raise (AnyErr ''failed to remove previous socket''))) (\<lambda>_.
     bindR (unwrap (unix_addr E socket_path)) (\<lambda>address.
     bindR (map_err (\<lambda>_. AnyErr ''failed to create listening socket'')
        (SeqPacketListener_bind E Daemon address)) (\<lambda>listener.
     owning E Daemon listener (
       bindR (if use_sd_notify then map_err IoErr (notify_systemd E) else ret ()) (\<lambda>_.
       accept_loop E listener)))))"

fun print_all :: "'w env \<Rightarrow> printed list \<Rightarrow> ('w, error, unit) io" where
  "print_all E [] = ret ()"
| "print_all E (To out bs # texts) = bindR (sys E Daemon (Print out bs)) (\<lambda>_. print_all E texts)"
| "print_all E (Eprintln bs # texts) = bindR (eprintln E Daemon bs) (\<lambda>_. print_all E texts)"

text \<open>\<^verbatim>\<open>main\<close>: the exit status of the process.\<close>

definition main :: "'w env \<Rightarrow> bytes list \<Rightarrow> ('w, error, int) io" where
  "main E argv = (case argv of
       [] \<Rightarrow> panic
     | program # args \<Rightarrow> (case parse_args program args of
           Inl (texts, status) \<Rightarrow> bindR (print_all E texts) (\<lambda>_. ret status)
         | Inr (use_sd_notify, path) \<Rightarrow>
             bindR (sys E Daemon NumCpus) (\<lambda>cpus.
             bindR (sys E Daemon (BuildRuntime (worker_threads (nat (r_ret cpus))))) (\<lambda>rt.
             if r_ret rt = -1 then panic
             else matchR (do_main E use_sd_notify path) (\<lambda>_. ret 0) (\<lambda>err.
               bindR (eprintln E Daemon (str ''error: '' @ display E err)) (\<lambda>_. ret 1))))))"

section \<open>Futures from functions (src/poll\_fn.rs)\<close>

text \<open>The function is an \<^verbatim>\<open>Option\<close>, dropped when the future completes.\<close>

definition poll_fn_poll ::
  "('s \<Rightarrow> 'a poll \<times> 's) option \<Rightarrow> 's \<Rightarrow> ('e, 'a poll \<times> ('s \<Rightarrow> 'a poll \<times> 's) option \<times> 's) res" where
  "poll_fn_poll func s = (case func of
       None \<Rightarrow> Panic
     | Some f \<Rightarrow> (case f s of
           (Ready r, s') \<Rightarrow> Ok (Ready r, None, s')
         | (Pending, s') \<Rightarrow> Ok (Pending, Some f, s')))"

section \<open>Properties\<close>

text \<open>The command line as a whole: what comes before the first \<^verbatim>\<open>--\<close>, and what follows it.\<close>

definition before_dashes :: "bytes list \<Rightarrow> bytes list" where
  "before_dashes args = takeWhile (\<lambda>a. a \<noteq> str ''--'') args"

definition after_dashes :: "bytes list \<Rightarrow> bytes list" where
  "after_dashes args = tl (dropWhile (\<lambda>a. a \<noteq> str ''--'') args)"

definition known_arg :: "bytes \<Rightarrow> bool" where
  "known_arg a \<longleftrightarrow> a = str ''--system'' \<or> \<not> starts_with a (str ''-'')"

definition opt_list :: "'a option \<Rightarrow> 'a list" where
  "opt_list x = (case x of None \<Rightarrow> [] | Some a \<Rightarrow> [a])"

lemma opt_list_simps [simp]: "opt_list None = []" "opt_list (Some a) = [a]"
  by (simp_all add: opt_list_def)

lemma opt_list_inject: "opt_list x = opt_list y \<longleftrightarrow> x = y"
  by (cases x; cases y) simp_all

lemma dash_args [simp]:
  "starts_with (str ''-h'') (str ''-'')" "starts_with (str ''--help'') (str ''-'')"
  "starts_with (str ''--'') (str ''-'')" "starts_with (str ''--system'') (str ''-'')"
  by (simp_all add: starts_with_def)

lemma option_args_iff:
  "option_args program sd path args = Inr (sd', path', rest) \<longleftrightarrow>
     list_all known_arg (before_dashes args)
     \<and> sd' = (sd \<or> str ''--system'' \<in> set (before_dashes args))
     \<and> opt_list path' = opt_list path @ filter (\<lambda>a. a \<noteq> str ''--system'') (before_dashes args)
     \<and> rest = after_dashes args"
proof (induction args arbitrary: sd path)
  case Nil
  then show ?case by (auto simp: before_dashes_def after_dashes_def opt_list_inject)
next
  case (Cons a args)
  consider "a = str ''-h'' \<or> a = str ''--help''" | "a = str ''--''" | "a = str ''--system''"
    | "a \<noteq> str ''-h''" "a \<noteq> str ''--help''" "a \<noteq> str ''--''" "a \<noteq> str ''--system''" by blast
  then show ?case
  proof cases
    case 1
    then show ?thesis by (auto simp: before_dashes_def known_arg_def starts_with_def)
  next
    case 2
    then show ?thesis by (auto simp: before_dashes_def after_dashes_def opt_list_inject)
  next
    case 3
    then have "before_dashes (a # args) = a # before_dashes args" "after_dashes (a # args) = after_dashes args"
      by (simp_all add: before_dashes_def after_dashes_def)
    with 3 Cons.IH show ?thesis by (auto simp: known_arg_def)
  next
    case 4
    then have split: "before_dashes (a # args) = a # before_dashes args" "after_dashes (a # args) = after_dashes args"
      by (simp_all add: before_dashes_def after_dashes_def)
    show ?thesis
    proof (cases "starts_with a (str ''-'')")
      case True
      with 4 split show ?thesis by (auto simp: known_arg_def)
    next
      case False
      with 4 split Cons.IH show ?thesis
        by (cases path; cases path') (auto simp: known_arg_def nonopt_arg_def)
    qed
  qed
qed

lemma plain_args_iff: "plain_args program path args = Inr path' \<longleftrightarrow> opt_list path' = opt_list path @ args"
proof (induction args arbitrary: path)
  case Nil
  then show ?case by (auto simp: opt_list_inject)
next
  case (Cons a args)
  then show ?case by (cases path; cases path') (auto simp: nonopt_arg_def)
qed

text \<open>C32: The command line is accepted exactly when, before the first \<^verbatim>\<open>--\<close>, every argument is
  \<^verbatim>\<open>--system\<close> or does not start with a dash, and exactly one argument is left as the socket path
  once \<^verbatim>\<open>--system\<close> is removed and everything behind \<^verbatim>\<open>--\<close> is added unchanged.\<close>

theorem parse_args_iff:
  "parse_args program args = Inr (sd, path) \<longleftrightarrow>
     list_all known_arg (before_dashes args)
     \<and> sd = (str ''--system'' \<in> set (before_dashes args))
     \<and> filter (\<lambda>a. a \<noteq> str ''--system'') (before_dashes args) @ after_dashes args = [path]"
proof -
  have "parse_args program args = Inr (sd, path) \<longleftrightarrow> (\<exists>p rest. option_args program False None args = Inr (sd, p, rest)
      \<and> plain_args program p rest = Inr (Some path))"
    by (auto simp: parse_args_def split: sum.splits option.splits)
  also have "\<dots> \<longleftrightarrow> list_all known_arg (before_dashes args)
     \<and> sd = (str ''--system'' \<in> set (before_dashes args))
     \<and> (\<exists>p. opt_list p = filter (\<lambda>a. a \<noteq> str ''--system'') (before_dashes args)
          \<and> opt_list p @ after_dashes args = [path])"
    unfolding option_args_iff plain_args_iff by auto
  also have "(\<exists>p. opt_list p = xs \<and> opt_list p @ ys = [path]) \<longleftrightarrow> xs @ ys = [path]" for xs ys
    by (cases xs) (auto intro: exI [of _ None] exI [of _ "Some path"])
  finally show ?thesis .
qed

lemma accept_loop_not_Ok: "accept_loop E listener s \<noteq> Some (Ok u, s')"
proof
  assume "accept_loop E listener s = Some (Ok u, s')"
  then show False
    unfolding accept_loop_def
    by (rule loopM_last [where I = "\<lambda>_ _. True"]) (auto simp: run_simps)
qed

lemma do_main_not_Ok: "do_main E sd path s \<noteq> Some (Ok u, s')"
  by (auto simp: do_main_def run_simps accept_loop_not_Ok)

text \<open>C33: The server never ends successfully: \<^verbatim>\<open>do_main\<close> runs forever, fails, or panics. A
  process that ended after a valid command line has exit status 1.\<close>

theorem main_never_succeeds:
  assumes "parse_args program args = Inr (sd, path)" and "main E (program # args) s = Some (Ok status, s')"
  shows "status = 1 \<and> (\<exists>e s1 s2. do_main E sd path s1 = Some (Err e, s2)
    \<and> s' = after E Daemon (Print 2 (str ''error: '' @ display E e @ [10])) s2)"
  using assms by (auto simp: main_def run_simps do_main_not_Ok eprintln_def split: if_splits simp del: str_Cons)

theorem main_never_succeeds_witness:
  "parse_args (str ''prog'') [str ''/run/s''] = Inr (False, str ''/run/s'')
   \<and> (\<exists>status s'. main script [str ''prog'', str ''/run/s''] (boot [returns 8, returns 0, returns 0, fails EPERM]) = Some (Ok status, s')
        \<and> status = 1)"
proof -
  have args: "parse_args (str ''prog'') [str ''/run/s''] = Inr (False, str ''/run/s'')"
    by (simp add: parse_args_def nonopt_arg_def starts_with_def)
  moreover have "\<exists>status s'.
      main script [str ''prog'', str ''/run/s''] (boot [returns 8, returns 0, returns 0, fails EPERM]) = Some (Ok status, s')"
    by (simp add: main_def parse_args_def nonopt_arg_def starts_with_def do_main_def remove_file_def SeqPacketListener_bind_def seq_packet_socket_def
      nix_result_def eprintln_def io_defs sample_defs)
  then obtain status s' where run:
    "main script [str ''prog'', str ''/run/s''] (boot [returns 8, returns 0, returns 0, fails EPERM]) = Some (Ok status, s')" by blast
  ultimately show ?thesis using main_never_succeeds [OF args run] by blast
qed

text \<open>Where the task of a connection comes from: the events just before a \<open>Spawn\<close>.\<close>

definition from_accept :: "int \<Rightarrow> event list \<Rightarrow> event \<Rightarrow> bool" where
  "from_accept listener h e \<longleftrightarrow> ev_actor e = Daemon \<and> \<not> privileged (ev_call e) \<and>
     (\<forall>fd. ev_call e = Spawn fd \<longrightarrow> (\<exists>h' flags r1 r2. h = h' @ [(Daemon, Accept4 listener flags, r1), (Daemon, AsyncFdNew fd, r2)]
        \<and> r_ret r1 = fd \<and> r_ret r2 \<noteq> -1))"

lemma accept_Ok:
  assumes "SeqPacketListener_accept E p listener s = Some (Ok fd, s')"
  shows "\<exists>t r1 r2 flags. m_log s' = m_log s @ t @ [(p, Accept4 listener flags, r1), (p, AsyncFdNew fd, r2)]
    \<and> r_ret r1 = fd \<and> r_ret r2 \<noteq> -1"
proof -
  let ?c = "Accept4 listener (SOCK_CLOEXEC OR SOCK_NONBLOCK)"
  from assms obtain r s1 where acc: "wrap_read E p listener (c_result E p ?c) s = Some (Ok r, s1)"
    and fd: "r_ret r = fd" "r_ret (answer E p (AsyncFdNew fd) s1) \<noteq> -1" "s' = after E p (AsyncFdNew fd) s1"
    by (auto simp: SeqPacketListener_accept_def SeqPacketSocket_new_def async_fd_new_def run_simps)
  from acc show ?thesis by (cases rule: wrap_read_cases) (use fd in auto)
qed

lemma emits_accept:
  "emits (from_accept listener) (SeqPacketListener_accept E Daemon listener)"
  unfolding SeqPacketListener_accept_def SeqPacketSocket_new_def async_fd_new_def
  by (intro emits_intros) (simp_all add: from_accept_def privileged_def)

text \<open>The accept loop makes no privileged call, and every task it starts is for a socket that
  this listener just accepted and that was registered with the reactor.\<close>

theorem accept_loop_spawns_accepted: "emits (from_accept listener) (accept_loop E listener)"
  unfolding accept_loop_def
proof (rule emits_loopM)
  let ?body = "bindR (map_err IoErr (SeqPacketListener_accept E Daemon listener)) (\<lambda>socket.
     bindR (spawn E (Client_new socket)) (\<lambda>_. ret (Inl ())))"
  show "emits (from_accept listener) ?body"
    unfolding emits_def
  proof (intro allI impI)
    fix s r s'
    assume run: "?body s = Some (r, s')"
    let ?acc = "SeqPacketListener_accept E Daemon listener"
    from run obtain x s1 where x: "?acc s = Some (x, s1)"
      and rest: "s' = s1 \<or> (\<exists>fd. x = Ok fd \<and> s' = after E Daemon (Spawn fd) s1)"
      by (auto simp: bindR_run map_err_def Client_new_def spawn_def run_simps split: option.splits res.splits)
    obtain t where t: "m_log s1 = m_log s @ t" "along (from_accept listener) (m_log s) t"
      using emits_accept x by (rule emitsD)
    have "from_accept listener (m_log s1) (Daemon, Spawn fd, r)" if "x = Ok fd" for fd r
      using accept_Ok [of E Daemon listener s fd s1] x that by (auto simp: from_accept_def privileged_def)
    with t rest show "\<exists>t. m_log s' = m_log s @ t \<and> along (from_accept listener) (m_log s) t"
      by auto
  qed
qed

end
