(* ===== verification/Ledger.thy ===== *)
theory Ledger
  imports Server
begin

text \<open>
  Ownership of descriptors. The program's descriptors are values of \<^verbatim>\<open>OwnedFd\<close> and of types built on
  it; the language closes them where they go out of scope, and the model writes these calls out. The ledger of a log
  counts, for one descriptor number, how often the daemon was given it and how often it closed it, and what the calls of the
  daemon operate on. The theory shows that the daemon keeps its books while it answers a request: what it opens it
  closes, on every path, also after an error or a panic, and it never operates on or closes a descriptor that it does not
  hold. \<open>owns\<close> is the calculus for this, with one rule per construct of the language; the handlers' part of it is the
  locale \<open>tidy_handler\<close>. \<^verbatim>\<open>Books\<close> carries it to connections and the server.
\<close>

section \<open>The ledger\<close>

text \<open>The descriptors that a received message carries.\<close>

definition rights_in :: "bytes \<Rightarrow> int list" where
  "rights_in bs = (case (cmsg_next bs :: (unit, _) res) of
       Ok (Some m, rest) \<Rightarrow> map (\<lambda>c. sint (le_word c :: i32)) (chunks_exact 4 (cmsg_data m))
     | _ \<Rightarrow> [])"

lemma cmsg_next_Nil [simp]: "cmsg_next [] = Ok (None, [])"
  by (simp add: cmsg_next_def sizeof_cmsghdr_def)

lemma rights_in_Nil [simp]: "rights_in [] = []"
  by (simp add: rights_in_def)

lemmas cmsg_next_put1 = cmsg_next_put [where rest = "[]", unfolded append_Nil2]

lemma rights_in_put:
  "length (cmsg_data m) < 2 ^ 62 \<Longrightarrow> rights_in (put_cmsg m) = map (\<lambda>c. sint (le_word c :: i32)) (chunks_exact 4 (cmsg_data m))"
  by (simp add: rights_in_def cmsg_next_put1)

definition rights :: "resp \<Rightarrow> int list" where
  "rights r = rights_in (take (r_ctllen r) (r_ctl r))"

text \<open>What an event adds to the descriptors of a task of the daemon, and what it takes away: a descriptor is closed, or
  handed to the task that is started for it.\<close>

definition gains :: "event \<Rightarrow> int list" where
  "gains e = (if ev_actor e = Daemon \<and> r_ret (ev_resp e) \<noteq> -1 then (case ev_call e of
       Open _ _ _ \<Rightarrow> [r_ret (ev_resp e)]
     | Openat _ _ _ _ \<Rightarrow> [r_ret (ev_resp e)]
     | Socket _ _ _ \<Rightarrow> [r_ret (ev_resp e)]
     | Accept4 _ _ \<Rightarrow> [r_ret (ev_resp e)]
     | Pipe2 _ \<Rightarrow> fill [0, 0] (r_fds (ev_resp e))
     | Recvmsg _ _ _ \<Rightarrow> rights (ev_resp e)
     | _ \<Rightarrow> []) else [])"

definition drops :: "event \<Rightarrow> int list" where
  "drops e = (if ev_actor e = Daemon then (case ev_call e of Close fd \<Rightarrow> [fd] | Spawn fd \<Rightarrow> [fd] | _ \<Rightarrow> []) else [])"

text \<open>The descriptors of its own that a call of the daemon operates on, other than to close them. The standard streams belong
  to the process.\<close>

definition uses :: "event \<Rightarrow> int list" where
  "uses e = (if ev_actor e = Daemon then (case ev_call e of
       Openat x _ _ _ \<Rightarrow> [x] | Read x _ \<Rightarrow> [x] | Write x _ \<Rightarrow> [x] | Pread x _ _ \<Rightarrow> [x] | Pwrite x _ _ \<Rightarrow> [x]
     | Fchdir x \<Rightarrow> [x] | Setns x _ \<Rightarrow> [x] | Mknodat x _ _ _ \<Rightarrow> [x] | FcntlGetfl x \<Rightarrow> [x] | FcntlSetfl x _ \<Rightarrow> [x]
     | Bind x _ \<Rightarrow> [x] | Listen x _ \<Rightarrow> [x] | Accept4 x _ \<Rightarrow> [x] | Sendmsg x _ \<Rightarrow> [x] | Recvmsg x _ _ \<Rightarrow> [x]
     | Shutdown x _ \<Rightarrow> [x] | AsyncFdNew x \<Rightarrow> [x] | Readable x \<Rightarrow> [x] | Writable x \<Rightarrow> [x]
     | PollReadReady x \<Rightarrow> [x] | PollWriteReady x \<Rightarrow> [x] | ClearReady x \<Rightarrow> [x] | _ \<Rightarrow> []) else [])"

definition net :: "int \<Rightarrow> event \<Rightarrow> int" where
  "net fd e = int (count_list (gains e) fd) - int (count_list (drops e) fd)"

definition held :: "int \<Rightarrow> event list \<Rightarrow> int" where
  "held fd h = sum_list (map (net fd) h)"

lemma held_simps [simp]:
  "held fd [] = 0"
  "held fd (h @ t) = held fd h + held fd t"
  "held fd (e # t) = net fd e + held fd t"
  by (simp_all add: held_def)

text \<open>A descriptor is operated on, closed or handed on only when it is held.\<close>

definition lawful :: "int \<Rightarrow> event list \<Rightarrow> event \<Rightarrow> bool" where
  "lawful fd h e \<longleftrightarrow> (fd \<in> set (drops e) \<union> set (uses e) \<longrightarrow> 0 < held fd h)"

text \<open>What is relied on: the descriptors of a new pipe are descriptors, and a control message is an
  \<^verbatim>\<open>SCM_RIGHTS\<close> message with descriptors that fits the buffer (\<^verbatim>\<open>pipe(2)\<close>, \<^verbatim>\<open>unix(7)\<close>).\<close>

definition scm_rights :: "bytes \<Rightarrow> bool" where
  "scm_rights bs \<longleftrightarrow> bs = [] \<or> (\<exists>m. bs = put_cmsg m \<and> cmsg_level m = SOL_SOCKET \<and> cmsg_type m = SCM_RIGHTS
     \<and> length (cmsg_data m) < 2 ^ 62 \<and> -1 \<notin> set (rights_in bs))"

definition ancillary :: "nat \<Rightarrow> resp \<Rightarrow> bool" where
  "ancillary n r \<longleftrightarrow> r_ctllen r \<le> length (r_ctl r) \<and> length (r_ctl r) \<le> n \<and> scm_rights (take (r_ctllen r) (r_ctl r))"

definition installs :: "'w env \<Rightarrow> bool" where
  "installs E \<longleftrightarrow> (\<forall>p w.
     (\<forall>f. let r = fst (kern E p (Pipe2 f) w) in r_ret r \<noteq> -1 \<longrightarrow> -1 \<notin> set (fill [0, 0] (r_fds r)))
     \<and> (\<forall>fd ls n. ancillary n (fst (kern E p (Recvmsg fd ls n) w))))"

section \<open>The calculus\<close>

text \<open>\<open>owns fd a m b\<close>: entered with (at least) \<open>a\<close> references to \<open>fd\<close> to answer for, \<open>m\<close> treats \<open>fd\<close> lawfully and is
  left with \<open>b r\<close> of them when it ends with \<open>r\<close>. \<open>keeps fd n m\<close>: with \<open>n\<close> references at hand, \<open>m\<close> may use \<open>fd\<close>, and gives back
  what it was given and took.\<close>

definition owns :: "int \<Rightarrow> nat \<Rightarrow> ('w, 'e, 'a) io \<Rightarrow> (('e, 'a) res \<Rightarrow> nat) \<Rightarrow> bool" where
  "owns fd a m b \<longleftrightarrow> (\<forall>s r s'. m s = Some (r, s') \<and> int a \<le> held fd (m_log s) \<longrightarrow>
     (\<exists>t. m_log s' = m_log s @ t \<and> along (lawful fd) (m_log s) t) \<and> held fd (m_log s') = held fd (m_log s) - int a + int (b r))"

abbreviation keeps :: "int \<Rightarrow> nat \<Rightarrow> ('w, 'e, 'a) io \<Rightarrow> bool" where
  "keeps fd n m \<equiv> owns fd n m (\<lambda>_. n)"

text \<open>One reference, and the reference that a successful run hands out.\<close>

definition tok :: "int \<Rightarrow> int \<Rightarrow> nat" where
  "tok fd x = (if x = fd then 1 else 0)"

definition given :: "('a \<Rightarrow> nat) \<Rightarrow> ('e, 'a) res \<Rightarrow> nat" where
  "given f r = (case r of Ok a \<Rightarrow> f a | _ \<Rightarrow> 0)"

lemma given_simps [simp]: "given f (Ok a) = f a" "given f (Err e) = 0" "given f Panic = 0"
  by (simp_all add: given_def)

lemma ownsI:
  assumes "\<And>s r s'. m s = Some (r, s') \<Longrightarrow> int a \<le> held fd (m_log s) \<Longrightarrow>
     (\<exists>t. m_log s' = m_log s @ t \<and> along (lawful fd) (m_log s) t) \<and> held fd (m_log s') = held fd (m_log s) - int a + int (b r)"
  shows "owns fd a m b"
  using assms unfolding owns_def by blast

lemma ownsD:
  assumes "owns fd a m b" and "m s = Some (r, s')" and "int a \<le> held fd (m_log s)"
  obtains t where "m_log s' = m_log s @ t" and "along (lawful fd) (m_log s) t"
    and "held fd (m_log s') = held fd (m_log s) - int a + int (b r)"
  using assms unfolding owns_def by blast

lemma owns_frame:
  assumes "owns fd a m b"
  shows "owns fd (a + c) m (\<lambda>r. b r + c)"
  by (rule ownsI, rule ownsD [OF assms]) auto

lemma owns_frame0: "owns fd 0 m b \<Longrightarrow> owns fd c m (\<lambda>r. b r + c)"
  using owns_frame [of fd 0] by simp

lemma owns_cong: "owns fd a m b \<Longrightarrow> (\<And>r. b r = c r) \<Longrightarrow> owns fd a m c"
  unfolding owns_def by simp

lemma owns_ret: "b (Ok x) = a \<Longrightarrow> owns fd a (ret x) b"
  by (rule ownsI) (auto simp: run_simps)

lemma owns_raise: "b (Err e) = a \<Longrightarrow> owns fd a (raise e) b"
  by (rule ownsI) (auto simp: run_simps)

lemma owns_panic: "b Panic = a \<Longrightarrow> owns fd a panic b"
  by (rule ownsI) (auto simp: run_simps)

text \<open>Two runs after each other.\<close>

lemma owns_compose:
  assumes m: "owns fd a m b" and run: "m s = Some (r, s1)" and enough: "int a \<le> held fd (m_log s)"
    and n: "owns fd (b r) n c" and run': "n s1 = Some (r', s')"
  shows "(\<exists>t. m_log s' = m_log s @ t \<and> along (lawful fd) (m_log s) t)
     \<and> held fd (m_log s') = held fd (m_log s) - int a + int (c r')"
proof -
  obtain t where t: "m_log s1 = m_log s @ t" "along (lawful fd) (m_log s) t"
    "held fd (m_log s1) = held fd (m_log s) - int a + int (b r)" by (rule ownsD [OF m run enough])
  have "int (b r) \<le> held fd (m_log s1)" using t(3) enough by simp
  with n run' obtain u where "m_log s' = m_log s1 @ u" "along (lawful fd) (m_log s1) u"
    "held fd (m_log s') = held fd (m_log s1) - int (b r) + int (c r')" by (rule ownsD)
  with t show ?thesis by auto
qed

lemma owns_stop:
  assumes "owns fd a m b" and "m s = Some (r, s')" and "int a \<le> held fd (m_log s)"
  shows "(\<exists>t. m_log s' = m_log s @ t \<and> along (lawful fd) (m_log s) t)
     \<and> held fd (m_log s') = held fd (m_log s) - int a + int (b r)"
  using assms by (rule ownsD) auto

lemma owns_bindR_result:
  assumes m: "owns fd a m b" and f: "\<And>x s s'. m s = Some (Ok x, s') \<Longrightarrow> owns fd (b (Ok x)) (f x) c"
    and err: "\<And>e. c (Err e) = b (Err e)" and pan: "c Panic = b Panic"
  shows "owns fd a (bindR m f) c"
proof (rule ownsI)
  fix s r s'
  assume run: "bindR m f s = Some (r, s')" and enough: "int a \<le> held fd (m_log s)"
  from run consider (ok) x s1 where "m s = Some (Ok x, s1)" "f x s1 = Some (r, s')"
    | (err) e where "m s = Some (Err e, s')" "r = Err e" | (pan) "m s = Some (Panic, s')" "r = Panic"
    by (auto simp: bindR_run)
  then show "(\<exists>t. m_log s' = m_log s @ t \<and> along (lawful fd) (m_log s) t)
     \<and> held fd (m_log s') = held fd (m_log s) - int a + int (c r)"
  proof cases
    case ok
    with enough show ?thesis by (intro owns_compose [OF m _ _ f])
  next
    case err
    with owns_stop [OF m err(1) enough] assms(3) show ?thesis by simp
  next
    case pan
    with owns_stop [OF m pan(1) enough] assms(4) show ?thesis by simp
  qed
qed

lemma owns_bindR:
  assumes "owns fd a m b" and "\<And>x. owns fd (b (Ok x)) (f x) c" and "\<And>e. c (Err e) = b (Err e)" and "c Panic = b Panic"
  shows "owns fd a (bindR m f) c"
  using assms by (rule owns_bindR_result)

lemma owns_matchR:
  assumes m: "owns fd a m b" and f: "\<And>x. owns fd (b (Ok x)) (f x) c"
    and h: "\<And>e. owns fd (b (Err e)) (h e) c" and pan: "c Panic = b Panic"
  shows "owns fd a (matchR m f h) c"
proof (rule ownsI)
  fix s r s'
  assume run: "matchR m f h s = Some (r, s')" and enough: "int a \<le> held fd (m_log s)"
  from run consider (ok) x s1 where "m s = Some (Ok x, s1)" "f x s1 = Some (r, s')"
    | (err) e s1 where "m s = Some (Err e, s1)" "h e s1 = Some (r, s')" | (pan) "m s = Some (Panic, s')" "r = Panic"
    by (auto simp: matchR_run)
  then show "(\<exists>t. m_log s' = m_log s @ t \<and> along (lawful fd) (m_log s) t)
     \<and> held fd (m_log s') = held fd (m_log s) - int a + int (c r)"
  proof cases
    case ok
    with enough show ?thesis by (intro owns_compose [OF m _ _ f])
  next
    case err
    with enough show ?thesis by (intro owns_compose [OF m _ _ h])
  next
    case pan
    with owns_stop [OF m pan(1) enough] assms(4) show ?thesis by simp
  qed
qed

lemma owns_map_err:
  assumes "owns fd a m b" and "\<And>x. c (Ok x) = b (Ok x)" and "\<And>e. c (Err (g e)) = b (Err e)" and "c Panic = b Panic"
  shows "owns fd a (map_err g m) c"
proof (rule ownsI)
  fix s r s'
  assume "map_err g m s = Some (r, s')" and enough: "int a \<le> held fd (m_log s)"
  then obtain x where "m s = Some (x, s')" "c r = b x"
    using assms(2-4) by (cases r) (auto simp: run_simps)
  with owns_stop [OF assms(1) this(1) enough] show "(\<exists>t. m_log s' = m_log s @ t \<and> along (lawful fd) (m_log s) t)
     \<and> held fd (m_log s') = held fd (m_log s) - int a + int (c r)" by simp
qed

text \<open>Destructors.\<close>

lemma owns_ensuring:
  assumes m: "owns fd a m b" and d: "\<And>r. owns fd (b r) d (\<lambda>_. c r)"
  shows "owns fd a (ensuring m d) c"
proof (rule ownsI)
  fix s r s'
  assume "ensuring m d s = Some (r, s')" and enough: "int a \<le> held fd (m_log s)"
  then obtain s1 r1 where "m s = Some (r, s1)" "d s1 = Some (r1, s')" by (auto simp: ensuring_run)
  with enough show "(\<exists>t. m_log s' = m_log s @ t \<and> along (lawful fd) (m_log s) t)
     \<and> held fd (m_log s') = held fd (m_log s) - int a + int (c r)"
    by (intro owns_compose [OF m _ _ d])
qed

lemma owns_on_failure:
  assumes m: "owns fd a m b" and ok: "\<And>x. c (Ok x) = b (Ok x)"
    and d: "\<And>r. (\<And>x. r \<noteq> Ok x) \<Longrightarrow> owns fd (b r) d (\<lambda>_. c r)"
  shows "owns fd a (on_failure m d) c"
proof (rule ownsI)
  fix s r s'
  assume "on_failure m d s = Some (r, s')" and enough: "int a \<le> held fd (m_log s)"
  then consider (ok) x where "r = Ok x" "m s = Some (r, s')"
    | (failed) s1 r1 where "\<And>x. r \<noteq> Ok x" "m s = Some (r, s1)" "d s1 = Some (r1, s')"
    by (auto simp: on_failure_run)
  then show "(\<exists>t. m_log s' = m_log s @ t \<and> along (lawful fd) (m_log s) t)
     \<and> held fd (m_log s') = held fd (m_log s) - int a + int (c r)"
  proof cases
    case ok
    with owns_stop [OF m ok(2) enough] assms(2) show ?thesis by simp
  next
    case failed
    with enough show ?thesis by (intro owns_compose [OF m _ _ d])
  qed
qed

text \<open>A loop: the references that the loop state answers for are its invariant.\<close>

lemma owns_loopM:
  fixes body :: "'a \<Rightarrow> ('w, 'e, 'a + 'b) io"
  assumes body: "\<And>a. owns fd (A a) (body a)
     (\<lambda>r. case r of Ok x \<Rightarrow> (case x of Inl a' \<Rightarrow> A a' | Inr b \<Rightarrow> c (Ok b)) | Err e \<Rightarrow> c (Err e) | Panic \<Rightarrow> c Panic)"
  shows "owns fd (A a) (loopM body a) c"
proof (rule ownsI)
  fix s r s'
  assume run: "loopM body a s = Some (r, s')" and enough: "int (A a) \<le> held fd (m_log s)"
  define I where "I a' s1 \<longleftrightarrow> (\<exists>t. m_log s1 = m_log s @ t \<and> along (lawful fd) (m_log s) t)
     \<and> held fd (m_log s1) = held fd (m_log s) - int (A a) + int (A a')" for a' and s1 :: "'w mach"
  have go: "(\<exists>t. m_log s2 = m_log s @ t \<and> along (lawful fd) (m_log s) t)
     \<and> held fd (m_log s2) = held fd (m_log s) - int (A a) + int (case x of Ok x \<Rightarrow>
         (case x of Inl a' \<Rightarrow> A a' | Inr b \<Rightarrow> c (Ok b)) | Err e \<Rightarrow> c (Err e) | Panic \<Rightarrow> c Panic)"
    if "I a1 s1" and step: "body a1 s1 = Some (x, s2)" for a1 s1 x s2
  proof -
    from that enough have "int (A a1) \<le> held fd (m_log s1)" by (simp add: I_def)
    from owns_stop [OF body step this] \<open>I a1 s1\<close> show ?thesis by (auto simp: I_def)
  qed
  have step: "I a2 s2" if "I a1 s1" "body a1 s1 = Some (Ok (Inl a2), s2)" for a1 s1 a2 s2
    using go [OF that] by (simp add: I_def)
  obtain a1 s1 x where "I a1 s1" "body a1 s1 = Some (x, s')" "ends_loop x r"
    by (rule loopM_last [where I = I, OF run _ step]) (simp add: I_def)
  with go [OF this(1,2)] show "(\<exists>t. m_log s' = m_log s @ t \<and> along (lawful fd) (m_log s) t)
     \<and> held fd (m_log s') = held fd (m_log s) - int (A a) + int (c r)"
    by (cases r) auto
qed

section \<open>Computations that keep what they have\<close>

named_theorems keeps_intros \<open>rules for computations that give back every descriptor they take\<close>

text \<open>Events that neither open nor close, and operate on \<open>fd\<close> only if it is at hand; among them everything a child does:
  its descriptors are its own.\<close>

definition calm :: "int \<Rightarrow> nat \<Rightarrow> event \<Rightarrow> bool" where
  "calm fd n e \<longleftrightarrow> gains e = [] \<and> drops e = [] \<and> (fd \<in> set (uses e) \<longrightarrow> 0 < n)"

lemma calm_Child [simp]: "calm fd n (Child pid, c, r)"
  by (simp add: calm_def gains_def drops_def uses_def)

lemma calm_child: "ev_actor e \<noteq> Daemon \<Longrightarrow> calm fd n e"
  by (simp add: calm_def gains_def drops_def uses_def)

lemma held_calm:
  assumes "list_all (calm fd n) t" and "int n \<le> held fd h"
  shows "held fd t = 0 \<and> along (lawful fd) h t"
proof -
  from assms(1) have same: "held fd t = 0" by (induction t) (auto simp: calm_def net_def)
  have "along (lawful fd) h t"
    using assms
  proof (induction t arbitrary: h)
    case (Cons e t)
    then have "lawful fd h e" "net fd e = 0" by (auto simp: calm_def lawful_def net_def)
    with Cons show ?case by simp
  qed simp
  with same show ?thesis ..
qed

lemma keeps_calm:
  assumes "emits (\<lambda>h. calm fd n) m"
  shows "keeps fd n m"
proof (rule ownsI)
  fix s r s'
  assume "m s = Some (r, s')" and enough: "int n \<le> held fd (m_log s)"
  with assms obtain t where t: "m_log s' = m_log s @ t" "along (\<lambda>h. calm fd n) (m_log s) t" by (auto elim: emitsD)
  then have "list_all (calm fd n) t" by (simp add: along_const)
  from held_calm [OF this enough] t(1) show "(\<exists>t. m_log s' = m_log s @ t \<and> along (lawful fd) (m_log s) t)
     \<and> held fd (m_log s') = held fd (m_log s) - int n + int n" by auto
qed

lemma tok_le: "tok fd x \<le> n \<longleftrightarrow> (x = fd \<longrightarrow> 0 < n)"
  by (auto simp: tok_def)

lemma calm_plain:
  "calm fd n (p, Alloc k, r)" "calm fd n (p, call.Fork, r)" "calm fd n (p, Waitpid pid, r)" "calm fd n (p, Kill pid sig, r)"
  "calm fd n (p, SeccompGetNotifSizes, r)" "calm fd n (p, Print y bs, r)" "calm fd n (p, Unlink bs, r)" "calm fd n (p, SdNotify bs, r)"
  by (simp_all add: calm_def gains_def drops_def uses_def)

lemma calm_operand:
  assumes "tok fd x \<le> n"
  shows "calm fd n (p, Read x k, r)" "calm fd n (p, Write x bs, r)" "calm fd n (p, Pread x k ofs, r)" "calm fd n (p, Pwrite x bs ofs, r)"
    "calm fd n (p, AsyncFdNew x, r)" "calm fd n (p, Readable x, r)" "calm fd n (p, Writable x, r)" "calm fd n (p, PollReadReady x, r)"
    "calm fd n (p, PollWriteReady x, r)" "calm fd n (p, ClearReady x, r)" "calm fd n (p, Sendmsg x iov, r)"
    "calm fd n (p, Shutdown x how, r)" "calm fd n (p, Bind x addr, r)" "calm fd n (p, Listen x l, r)"
proof -
  have op: "calm fd n e" if "gains e = []" "drops e = []" "set (uses e) \<subseteq> {x}" for e
    using that assms by (auto simp: calm_def tok_le)
  show "calm fd n (p, Read x k, r)" "calm fd n (p, Write x bs, r)" "calm fd n (p, Pread x k ofs, r)" "calm fd n (p, Pwrite x bs ofs, r)"
    "calm fd n (p, AsyncFdNew x, r)" "calm fd n (p, Readable x, r)" "calm fd n (p, Writable x, r)" "calm fd n (p, PollReadReady x, r)"
    "calm fd n (p, PollWriteReady x, r)" "calm fd n (p, ClearReady x, r)" "calm fd n (p, Sendmsg x iov, r)"
    "calm fd n (p, Shutdown x how, r)" "calm fd n (p, Bind x addr, r)" "calm fd n (p, Listen x l, r)"
    by (cases p; rule op; simp add: gains_def drops_def uses_def)+
qed

lemmas calm_calls = calm_plain calm_operand

lemma keeps_pure [keeps_intros]:
  "keeps fd n (ret x)" "keeps fd n (raise e)" "keeps fd n panic" "keeps fd n (of_res y)" "keeps fd n (ok_or e z)"
  "keeps fd n (unwrap z)"
  by (rule keeps_calm, (rule emits_ret | rule emits_raise | rule emits_panic | rule emits_of_res | rule emits_ok_or | rule emits_unwrap))+

lemma keeps_bindR [keeps_intros]:
  "keeps fd n m \<Longrightarrow> (\<And>x. keeps fd n (f x)) \<Longrightarrow> keeps fd n (bindR m f)"
  by (rule owns_bindR) simp_all

lemma keeps_matchR [keeps_intros]:
  "keeps fd n m \<Longrightarrow> (\<And>x. keeps fd n (f x)) \<Longrightarrow> (\<And>e. keeps fd n (h e)) \<Longrightarrow> keeps fd n (matchR m f h)"
  by (rule owns_matchR) simp_all

lemma keeps_map_err [keeps_intros]: "keeps fd n m \<Longrightarrow> keeps fd n (map_err g m)"
  by (rule owns_map_err) simp_all

lemma keeps_on_failure [keeps_intros]: "keeps fd n m \<Longrightarrow> keeps fd n d \<Longrightarrow> keeps fd n (on_failure m d)"
  by (rule owns_on_failure) simp_all

lemma keeps_loopM [keeps_intros]:
  fixes body :: "'a \<Rightarrow> ('w, 'e, 'a + 'b) io"
  assumes "\<And>a. keeps fd n (body a)"
  shows "keeps fd n (loopM body a)"
proof -
  have "owns fd ((\<lambda>_. n) a) (loopM body a) (\<lambda>_. n)"
    by (rule owns_loopM, rule owns_cong [OF assms]) (simp split: res.splits sum.splits)
  then show ?thesis by simp
qed

lemma keeps_if [keeps_intros]: "keeps fd n m \<Longrightarrow> keeps fd n k \<Longrightarrow> keeps fd n (if b then m else k)"
  by simp

lemma keeps_case_option [keeps_intros]:
  "keeps fd n m \<Longrightarrow> (\<And>a. keeps fd n (f a)) \<Longrightarrow> keeps fd n (case x of None \<Rightarrow> m | Some a \<Rightarrow> f a)"
  by (cases x) simp_all

lemma keeps_case_prod [keeps_intros]: "(\<And>a b. keeps fd n (f a b)) \<Longrightarrow> keeps fd n (case x of (a, b) \<Rightarrow> f a b)"
  by (cases x) simp

lemma keeps_case_poll [keeps_intros]:
  "(\<And>a. keeps fd n (f a)) \<Longrightarrow> keeps fd n m \<Longrightarrow> keeps fd n (case x of Ready a \<Rightarrow> f a | Pending \<Rightarrow> m)"
  by (cases x) simp_all

section \<open>Opening and closing\<close>

text \<open>\<open>opens fd n m\<close>: a successful \<open>m\<close> hands out the descriptor it returns, and nothing else.\<close>

abbreviation opens :: "int \<Rightarrow> nat \<Rightarrow> ('w, 'e, int) io \<Rightarrow> bool" where
  "opens fd n m \<equiv> owns fd n m (\<lambda>r. n + given (tok fd) r)"

lemma owns_drop_fd:
  fixes b :: "('e, unit) res \<Rightarrow> nat"
  assumes "a = b (Ok ()) + tok fd x"
  shows "owns fd a (drop_fd E Daemon x) b"
proof (rule ownsI)
  fix s s' and r :: "('e, unit) res"
  assume "drop_fd E Daemon x s = Some (r, s')" and enough: "int a \<le> held fd (m_log s)"
  then have r: "r = Ok ()" and s': "m_log s' = m_log s @ [(Daemon, Close x, answer E Daemon (Close x) s)]"
    by (simp_all only: drop_fd_run m_log_after)
  have close: "gains (Daemon, Close x, y) = []" "drops (Daemon, Close x, y) = [x]" "uses (Daemon, Close x, y) = []" for y
    by (simp_all add: gains_def drops_def uses_def)
  have "net fd (Daemon, Close x, y) = - int (tok fd x)" for y
    unfolding net_def close by (simp add: tok_def)
  moreover have "lawful fd (m_log s) (Daemon, Close x, y)" for y
    unfolding lawful_def close using enough assms by (auto simp: tok_def)
  ultimately show "(\<exists>t. m_log s' = m_log s @ t \<and> along (lawful fd) (m_log s) t)
     \<and> held fd (m_log s') = held fd (m_log s) - int a + int (b r)"
    using assms by (simp add: r s')
qed

lemma owns_drop_fds: "a = b (Ok ()) + count_list xs fd \<Longrightarrow> owns fd a (drop_fds E Daemon xs) b"
proof (induction xs arbitrary: a)
  case Nil
  then show ?case by (simp add: owns_ret)
next
  case (Cons x xs)
  let ?b = "\<lambda>r. case r of Ok _ \<Rightarrow> b (Ok ()) + count_list xs fd | Err e \<Rightarrow> b (Err e) | Panic \<Rightarrow> b Panic"
  have "owns fd a (drop_fd E Daemon x) ?b" using Cons.prems by (intro owns_drop_fd) (simp add: tok_def)
  then show ?case unfolding drop_fds.simps by (rule owns_bindR) (simp_all add: Cons.IH)
qed

lemma owns_drop_opt: "a = b (Ok ()) + (case x of None \<Rightarrow> 0 | Some y \<Rightarrow> tok fd y) \<Longrightarrow> owns fd a (drop_opt E Daemon x) b"
  by (cases x) (auto simp: drop_opt_def intro: owns_ret owns_drop_fd)

text \<open>A descriptor that is owned while a computation runs, which may use it.\<close>

lemma owns_owning:
  assumes "keeps fd (n + tok fd x) m"
  shows "owns fd (n + tok fd x) (owning E Daemon x m) (\<lambda>_. n)"
  unfolding owning_def by (rule owns_ensuring [OF assms]) (simp add: owns_drop_fd)

lemma owns_closing_on_error:
  assumes "keeps fd (n + tok fd x) m"
  shows "owns fd (n + tok fd x) (closing_on_error E Daemon x m) (\<lambda>r. n + given (\<lambda>_. tok fd x) r)"
  unfolding closing_on_error_def
proof (rule owns_on_failure [OF assms])
  show "owns fd (n + tok fd x) (drop_fd E Daemon x) (\<lambda>_. n + given (\<lambda>_. tok fd x) r)" if "\<And>y. r \<noteq> Ok y" for r :: "('b, 'c) res"
    using that by (cases r) (auto intro: owns_drop_fd)
qed simp

lemma opens_bindR:
  assumes "opens fd n m" and "\<And>a. owns fd (n + tok fd a) (g a) c" and "\<And>e. c (Err e) = n" and "c Panic = n"
  shows "owns fd n (bindR m g) c"
  using assms by (intro owns_bindR [where b = "\<lambda>r. n + given (tok fd) r"]) simp_all

lemma keeps_opens_bindR:
  "opens fd n m \<Longrightarrow> (\<And>a. owns fd (n + tok fd a) (g a) (\<lambda>_. n)) \<Longrightarrow> keeps fd n (bindR m g)"
  by (rule opens_bindR) simp_all

lemma opens_map_err: "opens fd n m \<Longrightarrow> opens fd n (map_err h m)"
  by (erule owns_map_err) simp_all

text \<open>The calls that hand out a descriptor.\<close>

lemma opens_result:
  assumes call: "\<And>r. r_ret r \<noteq> -1 \<Longrightarrow> gains (Daemon, c, r) = [r_ret r] \<and> drops (Daemon, c, r) = [] \<and> (fd \<in> set (uses (Daemon, c, r)) \<longrightarrow> 0 < n)"
    and run: "\<And>s r s'. m s = Some (r, s') \<Longrightarrow>
       (\<exists>t y. r = Ok y \<and> list_all (calm fd n) t \<and> m_log s' = m_log s @ t @ [(Daemon, c, y)] \<and> r_ret y \<noteq> -1)
       \<or> (\<exists>t e. r = Err e \<and> list_all (calm fd n) t \<and> m_log s' = m_log s @ t)"
  shows "opens fd n (bindR m (\<lambda>r. owned_fd (r_ret r)))"
proof (rule ownsI)
  fix s r s'
  assume "bindR m (\<lambda>r. owned_fd (r_ret r)) s = Some (r, s')" and enough: "int n \<le> held fd (m_log s)"
  then consider (ok) y where "m s = Some (Ok y, s')" "r = (if r_ret y = -1 then Panic else Ok (r_ret y))"
    | (err) e where "m s = Some (Err e, s')" "r = Err e" | (panic) "m s = Some (Panic, s')"
    by (auto simp: bindR_run run_simps owned_fd_def split: if_splits)
  then show "(\<exists>t. m_log s' = m_log s @ t \<and> along (lawful fd) (m_log s) t)
     \<and> held fd (m_log s') = held fd (m_log s) - int n + int (n + given (tok fd) r)"
  proof cases
    case ok
    with run [OF ok(1)] obtain t where t: "list_all (calm fd n) t" "m_log s' = m_log s @ t @ [(Daemon, c, y)]" "r_ret y \<noteq> -1" by auto
    with ok(2) call [OF t(3)] held_calm [OF t(1) enough] enough show ?thesis by (auto simp: net_def lawful_def tok_def)
  next
    case err
    with run [OF err(1)] obtain t where t: "list_all (calm fd n) t" "m_log s' = m_log s @ t" by auto
    with err(2) held_calm [OF t(1) enough] show ?thesis by auto
  next
    case panic
    with run [OF panic] show ?thesis by auto
  qed
qed

lemma opens_call:
  assumes "\<And>r. r_ret r \<noteq> -1 \<Longrightarrow> gains (Daemon, c, r) = [r_ret r]" and "\<And>r. drops (Daemon, c, r) = []"
    and "\<And>r. fd \<in> set (uses (Daemon, c, r)) \<Longrightarrow> 0 < n"
  shows "opens fd n (bindR (c_result E Daemon c) (\<lambda>r. owned_fd (r_ret r)))"
    and "opens fd n (bindR (nix_result E Daemon c) (\<lambda>r. owned_fd (r_ret r)))"
proof -
  have failed: "calm fd n (Daemon, c, r)" if "r_ret r = -1" for r
    using that assms(2,3) by (simp add: calm_def gains_def)
  show "opens fd n (bindR (c_result E Daemon c) (\<lambda>r. owned_fd (r_ret r)))"
    "opens fd n (bindR (nix_result E Daemon c) (\<lambda>r. owned_fd (r_ret r)))"
    by (rule opens_result [where c = c];
        auto simp: assms failed c_result_def nix_result_def bindR_run run_simps split: if_splits)+
qed

section \<open>The components\<close>

lemma keeps_sys [keeps_intros]: "(\<And>r. calm fd n (p, c, r)) \<Longrightarrow> keeps fd n (sys E p c)"
  by (rule keeps_calm, intro emits_intros)

lemma keeps_c_result [keeps_intros]: "(\<And>r. calm fd n (p, c, r)) \<Longrightarrow> keeps fd n (c_result E p c)"
  by (rule keeps_calm, intro emits_intros)

lemma keeps_tokio_result [keeps_intros]: "(\<And>r. calm fd n (p, c, r)) \<Longrightarrow> keeps fd n (tokio_result E p c)"
  by (rule keeps_calm, intro emits_intros)

lemma keeps_nix_result [keeps_intros]: "(\<And>r. calm fd n (p, c, r)) \<Longrightarrow> keeps fd n (nix_result E p c)"
  by (rule keeps_calm, intro emits_intros)

text \<open>Reading and writing.\<close>

lemma keeps_read [keeps_intros]:
  assumes "tok fd x \<le> n"
  shows "keeps fd n (read_some E p x)" "keeps fd n (read_to_end E p x)" "keeps fd n (next_split E p x buf)"
    "keeps fd n (next_line E p x buf)" "keeps fd n (for_lines E p x f g a)" "keeps fd n (poll_read E p x rb)" "keeps fd n (read_exact E p x k)"
proof -
  show some: "keeps fd n (read_some E p x)"
    unfolding read_some_def by (intro keeps_intros calm_calls assms)
  show "keeps fd n (read_to_end E p x)"
    unfolding read_to_end_def by (intro keeps_intros some)
  show split: "keeps fd n (next_split E p x buf)" for buf
    unfolding next_split_def by (intro keeps_intros some)
  show line: "keeps fd n (next_line E p x buf)" for buf
    unfolding next_line_def Let_def by (intro keeps_intros split)
  show "keeps fd n (for_lines E p x f g a)"
    unfolding for_lines_def by (intro keeps_intros line)
  show poll: "keeps fd n (poll_read E p x rb)" for rb
    unfolding poll_read_def Let_def by (intro keeps_intros calm_calls assms)
  show "keeps fd n (read_exact E p x k)"
    unfolding read_exact_def by (intro keeps_intros poll)
qed

text \<open>The files of a process.\<close>

lemma opens_files:
  assumes "tok fd (pf_fd self) \<le> n"
  shows "opens fd n (PidFd_fd E Daemon self path flags mode)" "opens fd n (fd_cwd E Daemon self)"
    "opens fd n (fd_num E Daemon self num flags)" "opens fd n (open_file E Daemon self path flags mode)"
    "opens fd n (open_buffered E Daemon self path)"
  using assms unfolding file_open_defs PidFd_fd_def
  by - (rule opens_call(1); auto simp: gains_def drops_def uses_def tok_def split: if_splits)+

lemma keeps_file:
  assumes "opens fd n m" and "\<And>x. keeps fd (n + tok fd x) (k x)"
  shows "keeps fd n (bindR m (\<lambda>x. owning E Daemon x (k x)))"
  using assms by (intro keeps_opens_bindR owns_owning) simp_all

lemma keeps_inspections [keeps_intros]:
  assumes "tok fd (pf_fd self) \<le> n"
  shows "keeps fd n (read_file E Daemon self name)" "keeps fd n (read_pid E Daemon self)" "keeps fd n (get_status E Daemon self)"
    "keeps fd n (get_cgroups E Daemon self)" "keeps fd n (get_uid_map E Daemon self)" "keeps fd n (get_gid_map E Daemon self)"
  unfolding read_file_def read_pid_def get_status_def get_cgroups_def get_uid_map_def get_gid_map_def get_uid_gid_map_def
  by (intro keeps_file opens_map_err opens_files keeps_intros assms le_add2)+

lemma owns_try_from_fd:
  "owns fd (tok fd x) (try_from_fd E Daemon x) (given (\<lambda>pf. tok fd (pf_fd pf)))"
proof -
  have "keeps fd (0 + tok fd x) (read_pid E Daemon \<lparr>pf_fd = x, pf_pid = p\<rparr>)" for p by (rule keeps_inspections) simp
  from owns_closing_on_error [OF this] show ?thesis
    unfolding try_from_fd_def Let_def by (intro owns_bindR [where b = "given (\<lambda>_. tok fd x)"]) (auto intro: owns_ret)
qed

lemma keeps_UserCaps_new [keeps_intros]: "tok fd (pf_fd pidfd) \<le> n \<Longrightarrow> keeps fd n (UserCaps_new E Daemon pidfd)"
  unfolding UserCaps_new_def get_label_def by (intro keeps_intros)

text \<open>The descriptors that a message buffer owns.\<close>

definition msg_fds :: "ProxyMessageBuffer \<Rightarrow> int list" where
  "msg_fds msg = (case b_pid_fd msg of None \<Rightarrow> [] | Some pf \<Rightarrow> [pf_fd pf])
     @ (case b_mem_fd msg of None \<Rightarrow> [] | Some x \<Rightarrow> [x])"

definition owed :: "int \<Rightarrow> ProxyMessageBuffer \<Rightarrow> nat" where
  "owed fd msg = count_list (msg_fds msg) fd"

lemma owed_eq: "owed fd msg = (case map_option pf_fd (b_pid_fd msg) of None \<Rightarrow> 0 | Some x \<Rightarrow> tok fd x)
     + (case b_mem_fd msg of None \<Rightarrow> 0 | Some x \<Rightarrow> tok fd x)"
  by (simp add: owed_def msg_fds_def tok_def split: option.splits)

text \<open>A request may use the descriptors of its message.\<close>

lemma keeps_pid_fd:
  assumes "owed fd msg \<le> n" and "\<And>pf. tok fd (pf_fd pf) \<le> n \<Longrightarrow> owns fd n (f pf) c"
    and "\<And>e. c (Err e) = n" and "c Panic = n"
  shows "owns fd n (bindR (msg_pid_fd msg) f) c"
  unfolding msg_pid_fd_def
  by (rule owns_bindR_result [where b = "\<lambda>_. n", OF keeps_pure(6)]) (use assms in \<open>auto simp: owed_eq run_simps\<close>)

lemma keeps_mem_fd:
  assumes "owed fd msg \<le> n" and "\<And>x. tok fd x \<le> n \<Longrightarrow> keeps fd n (f x)"
  shows "keeps fd n (bindR (msg_mem_fd msg) f)"
  unfolding msg_mem_fd_def
  by (rule owns_bindR_result [where b = "\<lambda>_. n", OF keeps_pure(6)]) (use assms in \<open>auto simp: owed_eq run_simps\<close>)

text \<open>The arguments of a request.\<close>

lemma keeps_memory [keeps_intros]:
  assumes "owed fd msg \<le> n"
  shows "keeps fd n (get_c_string E p msg ofs)" "keeps fd n (arg_opt_c_string E p msg i)" "keeps fd n (arg_c_string E p msg i)"
    "keeps fd n (arg_struct_by_ptr E p msg i k)"
proof -
  show str: "keeps fd n (get_c_string E p msg ofs)" for ofs
    unfolding get_c_string_def vec_uninitialized_def Let_def
    by (intro keeps_bindR [OF keeps_bindR] keeps_mem_fd [OF assms] keeps_intros calm_calls)
  show opt: "keeps fd n (arg_opt_c_string E p msg i)" for i
    unfolding arg_opt_c_string_def by (intro keeps_intros str)
  show "keeps fd n (arg_c_string E p msg i)"
    unfolding arg_c_string_def by (intro keeps_intros opt)
  show "keeps fd n (arg_struct_by_ptr E p msg i k)"
    unfolding arg_struct_by_ptr_def
    by (intro keeps_bindR [OF keeps_pure(4)] keeps_mem_fd [OF assms] keeps_intros calm_calls)
qed

lemma opens_arg_fd:
  assumes "owed fd msg \<le> n" and "0 \<le> fd"
  shows "opens fd n (arg_fd E Daemon msg i flags)"
proof -
  have negative: "opens fd n (owned_fd x)" if "x < 0" for x
    using that assms(2) by (auto simp: owned_fd_def tok_def intro: owns_ret owns_panic)
  have opened: "opens fd n (bindR (msg_pid_fd msg) (\<lambda>pf. map_err IoErr (fd_cwd E Daemon pf)))"
    "opens fd n (bindR (msg_pid_fd msg) (\<lambda>pf. map_err IoErr (fd_num E Daemon pf num flags)))" for num
    by (rule keeps_pid_fd [OF assms(1)]; simp add: opens_map_err opens_files)+
  show ?thesis
    unfolding arg_fd_def Let_def
    by (rule owns_bindR [where b = "\<lambda>_. n", OF keeps_pure(4)]) (use negative opened in auto)
qed

text \<open>The pipe and the child.\<close>

lemma owns_async_fd_new: "owns fd (n + tok fd x) (async_fd_new E Daemon x) (\<lambda>r. n + given (tok fd) r)"
proof -
  have "keeps fd (n + tok fd x) (tokio_result E Daemon (AsyncFdNew x))" by (intro keeps_intros calm_calls le_add2)
  then have "owns fd (n + tok fd x) (tokio_result E Daemon (AsyncFdNew x)) (\<lambda>r. n + (if r = Panic then 0 else tok fd x))"
    by (auto simp: owns_def tokio_result_def run_simps)
  then show ?thesis
    unfolding async_fd_new_def
    by (rule owns_matchR) (auto intro!: owns_ret owns_bindR [where b = "\<lambda>_. n"] owns_drop_fd owns_raise)
qed

lemma pipe_fds_run:
  assumes "installs E" and "pipe_fds E Daemon s = Some (x, s')"
  obtains a b r where "m_log s' = m_log s @ [(Daemon, Pipe2 O_CLOEXEC, r)]" and "fill [0, 0] (r_fds r) = [a, b]"
    and "x = (if r_ret r = -1 then Err (OsErr (r_errno r)) else Ok (a, b))"
proof -
  let ?r = "answer E Daemon (Pipe2 O_CLOEXEC) s"
  have two: "\<exists>a b. xs = [a, b]" if "length xs = 2" for xs :: "int list"
    using that by (cases xs; cases "tl xs") auto
  obtain a b where ab: "fill [0, 0] (r_fds ?r) = [a, b]" using two [of "fill [0, 0] (r_fds ?r)"] by auto
  have "a \<noteq> -1 \<and> b \<noteq> -1" if "r_ret ?r \<noteq> -1"
    using assms(1) that ab unfolding installs_def answer_def Let_def by (metis list.set_intros)
  with assms(2) ab have "m_log s' = m_log s @ [(Daemon, Pipe2 O_CLOEXEC, ?r)]"
    "x = (if r_ret ?r = -1 then Err (OsErr (r_errno ?r)) else Ok (a, b))"
    by (auto simp: pipe_fds_def c_result_def bindR_def sys_eq owned_fd_def ret_def raise_def closing_on_error_def
      on_failure_def Let_def split: if_splits)
  with ab that show thesis by blast
qed

lemma owns_pipe_fds:
  assumes "installs E"
  shows "owns fd 0 (pipe_fds E Daemon) (given (\<lambda>(r, w). tok fd r + tok fd w))"
proof (rule ownsI)
  fix s x s'
  assume "pipe_fds E Daemon s = Some (x, s')"
  with assms obtain a b r where "m_log s' = m_log s @ [(Daemon, Pipe2 O_CLOEXEC, r)]" "fill [0, 0] (r_fds r) = [a, b]"
    "x = (if r_ret r = -1 then Err (OsErr (r_errno r)) else Ok (a, b))" by (rule pipe_fds_run)
  then show "(\<exists>t. m_log s' = m_log s @ t \<and> along (lawful fd) (m_log s) t)
     \<and> held fd (m_log s') = held fd (m_log s) - int 0 + int (given (\<lambda>(r, w). tok fd r + tok fd w) x)"
    by (auto simp: lawful_def net_def gains_def drops_def uses_def tok_def)
qed

lemma keeps_child:
  assumes "emits (\<lambda>h e. ev_actor e = Child pid) func"
  shows "keeps fd n (child_main E (Child pid) pr pw func captured)"
  using assms by (intro keeps_calm emits_intros) (auto elim: emits_mono simp: calm_child)

text \<open>A step that cannot fail.\<close>

lemma owns_bindR_sure:
  assumes "keeps fd a m" and "\<And>r s s'. m s = Some (r, s') \<Longrightarrow> \<exists>x. r = Ok x" and "\<And>x. owns fd a (f x) c"
  shows "owns fd a (bindR m f) c"
proof (rule owns_bindR)
  let ?b = "\<lambda>r. case r of Ok _ \<Rightarrow> a | Err e \<Rightarrow> c (Err e) | Panic \<Rightarrow> c Panic"
  show "owns fd a m ?b"
    by (rule ownsI, frule assms(2), rule ownsD [OF assms(1)]) auto
qed (use assms(3) in simp_all)

lemma owns_fork_call:
  "owns fd (tok fd pr + tok fd pw)
     (on_failure (c_result E Daemon Fork) (drop_fds E Daemon [pw, pr] :: ('w, io_error, unit) io))
     (given (\<lambda>_. tok fd pr + tok fd pw))"
proof (rule owns_on_failure)
  show "keeps fd (tok fd pr + tok fd pw) (c_result E Daemon Fork)" by (intro keeps_intros calm_calls)
  show "owns fd (tok fd pr + tok fd pw) (drop_fds E Daemon [pw, pr] :: ('w, io_error, unit) io)
      (\<lambda>_. given (\<lambda>_. tok fd pr + tok fd pw) r)" if "\<And>x. r \<noteq> Ok x" for r :: "(io_error, resp) res"
    by (rule owns_drop_fds) (use that in \<open>cases r; simp add: tok_def\<close>)
qed simp

lemma child_main_Ok:
  assumes "child_main E p pr pw func captured s = Some (r, s')"
  shows "r = Ok ()"
proof -
  have "x = Panic \<or> (\<exists>n. x = Ok n)" if "child_report E p pw func captured s1 = Some (x, s2)" for x s1 s2
    using that unfolding child_report_def
    by (auto simp: bindR_run on_failure_run matchR_run ret_run panic_run)
  then have "child_report E p pw func captured s1 \<noteq> Some (Err e, s2)" for s1 e s2 by blast
  with assms show ?thesis
    unfolding child_main_def catch_unwind_def
    by (auto simp: bindR_run run_simps split: option.splits res.splits)
qed

text \<open>The parent after the fork: what it was given back of the pipe is the end it reads from.\<close>

lemma owns_parent:
  fixes E :: "'w env"
  assumes "emits (\<lambda>h e. ev_actor e = Child pid) func"
  shows "owns fd (tok fd pr + tok fd pw)
     (bindR (child_main E (Child pid) pr pw func captured) (\<lambda>_.
       bindR (drop_fd E Daemon pw) (\<lambda>_.
       matchR (Pipe_try_from E Daemon pr)
         (\<lambda>out. ret \<lparr>fk_pid = pid, fk_out = out\<rparr>)
         (\<lambda>err. bindR (sys E Daemon (Kill pid 9)) (\<lambda>_. raise err)))))
     (given (\<lambda>fork. tok fd (fk_out fork)))"
proof -
  have kill: "keeps fd 0 (sys E Daemon (Kill pid 9) :: ('w, io_error, resp) io)" by (intro keeps_intros calm_calls)
  have register: "owns fd (tok fd pr) (matchR (Pipe_try_from E Daemon pr) (\<lambda>out. ret \<lparr>fk_pid = pid, fk_out = out\<rparr>)
      (\<lambda>err. bindR (sys E Daemon (Kill pid 9)) (\<lambda>_. raise err))) (given (\<lambda>fork. tok fd (fk_out fork)))"
    unfolding Pipe_try_from_def
    by (rule owns_matchR [OF owns_async_fd_new [of fd 0, unfolded add_0]]) (auto intro!: owns_ret owns_raise owns_bindR [OF kill])
  show ?thesis
  proof (rule owns_bindR_sure [OF keeps_child [OF assms]])
    show "owns fd (tok fd pr + tok fd pw) (bindR (drop_fd E Daemon pw) (\<lambda>_.
       matchR (Pipe_try_from E Daemon pr) (\<lambda>out. ret \<lparr>fk_pid = pid, fk_out = out\<rparr>)
         (\<lambda>err. bindR (sys E Daemon (Kill pid 9)) (\<lambda>_. raise err)))) (given (\<lambda>fork. tok fd (fk_out fork)))"
      by (rule owns_bindR [where b = "given (\<lambda>_. tok fd pr)", OF owns_drop_fd]) (simp_all add: register)
  qed (blast dest: child_main_Ok)
qed

lemma owns_Fork_new:
  assumes "installs E" and "\<And>pid. emits (\<lambda>h e. ev_actor e = Child pid) (func (Child pid))"
  shows "owns fd (count_list captured fd) (Fork_new E Daemon func captured) (given (\<lambda>fork. tok fd (fk_out fork)))"
  unfolding Fork_new_def Let_def
proof (rule owns_ensuring [OF owns_frame0 [OF owns_bindR [OF owns_pipe_fds [OF assms(1)]]]])
  show "owns fd (given (\<lambda>fork. tok fd (fk_out fork)) r + count_list captured fd) (drop_fds E Daemon captured)
     (\<lambda>_. given (\<lambda>fork. tok fd (fk_out fork)) r)" for r :: "(io_error, Fork) res" by (rule owns_drop_fds) simp
qed (auto split: prod.splits simp del: drop_fds.simps intro!: owns_bindR [OF owns_fork_call] owns_parent assms(2))

lemma owns_forking_syscall:
  assumes "installs E" and "\<And>pid. emits (\<lambda>h e. ev_actor e = Child pid) (func (Child pid))"
  shows "owns fd (n + count_list captured fd) (forking_syscall E Daemon func captured) (\<lambda>_. n)"
proof -
  have wait: "keeps fd k (Fork_wait E Daemon pid)" for k pid
    unfolding Fork_wait_def Let_def by (intro keeps_intros calm_calls)
  have "keeps fd (tok fd out) (get_result E Daemon out)" for out
    unfolding get_result_def by (intro keeps_intros order_refl)
  with wait have "keeps fd (0 + tok fd out) (bindR (on_failure (get_result E Daemon out) (Fork_wait E Daemon pid)) (\<lambda>result.
       bindR (Fork_wait E Daemon pid) (\<lambda>_. ret result)))" for out pid
    by (intro keeps_intros) simp_all
  from owns_owning [OF this] have "owns fd (count_list captured fd) (forking_syscall E Daemon func captured) (\<lambda>_. 0)"
    unfolding forking_syscall_def by (intro owns_bindR [OF owns_Fork_new [OF assms]]) simp_all
  from owns_frame [OF this, of n] show ?thesis by (simp add: add.commute)
qed

section \<open>The handlers\<close>

text \<open>A child's closure acts under the child's name.\<close>

lemma emits_actor_apply_current: "emits (\<lambda>h e. ev_actor e = p) (apply_current E p caps)"
  using emits_apply_current by (rule emits_mono) simp

lemma emits_actor_closures:
  "emits (\<lambda>h e. ev_actor e = q) (mknodat_child E caps dirfd pathname mode dev q)"
  "(\<And>r. emits (\<lambda>h e. ev_actor e = q) (k q r)) \<Longrightarrow> emits (\<lambda>h e. ev_actor e = q) (quota_child E caps cmd special i addr k q)"
  "emits (\<lambda>h e. ev_actor e = q) (write_back E msg a n q r)" "emits (\<lambda>h e. ev_actor e = q) (return_zero q r)"
  "emits (\<lambda>h e. ev_actor e = q) (return_out q r)" "emits (\<lambda>h e. ev_actor e = q) (write_back_next E msg a idmap q r)"
  unfolding mknodat_child_def quota_child_def write_back_def return_zero_def return_out_def write_back_next_def Let_def
  by (intro emits_intros emits_actor_apply_current; simp)+

lemma count_single: "count_list [x] fd = tok fd x"
  by (simp add: tok_def)

lemma owns_do_mknodat:
  assumes "installs E" and "tok fd (pf_fd pidfd) \<le> n"
  shows "owns fd (n + tok fd dirfd) (do_mknodat E pidfd dirfd pathname mode dev) (\<lambda>_. n)"
proof -
  have "owns fd (n + count_list [dirfd] fd) (forking_syscall E Daemon (mknodat_child E caps dirfd pathname mode dev) [dirfd]) (\<lambda>_. n)"
    for caps by (intro owns_forking_syscall assms emits_actor_closures)
  then have fork: "owns fd (n + tok fd dirfd) (map_err IoErr
      (forking_syscall E Daemon (mknodat_child E caps dirfd pathname mode dev) [dirfd])) (\<lambda>_. n)" for caps
    unfolding count_single by (rule owns_map_err) simp_all
  have "keeps fd (n + tok fd dirfd) (UserCaps_new E Daemon pidfd)" using assms(2) by (intro keeps_intros) simp
  from owns_closing_on_error [OF this] show ?thesis
    unfolding do_mknodat_def by (rule owns_bindR) (simp_all add: fork)
qed

lemma keeps_mknod:
  assumes "installs E" and "owed fd msg \<le> n"
  shows "keeps fd n (mknod E msg)"
  unfolding mknod_def
  by (intro keeps_bindR [OF keeps_pure(4)] keeps_bindR [OF keeps_memory(3)] keeps_if keeps_pure(1)
    keeps_pid_fd keeps_opens_bindR [OF opens_map_err [OF opens_files(2)]] owns_do_mknodat assms refl)

lemma keeps_mknodat:
  assumes "installs E" and "0 \<le> fd" and owed: "owed fd msg \<le> n"
  shows "keeps fd n (mknodat E msg)"
proof -
  have pid: "owns fd (n + tok fd dirfd) (bindR (closing_on_error E Daemon dirfd (msg_pid_fd msg)) (\<lambda>pidfd.
       do_mknodat E pidfd dirfd pathname mode dev)) (\<lambda>_. n)" for dirfd pathname mode dev
  proof (rule owns_bindR_result [OF owns_closing_on_error])
    show "keeps fd (n + tok fd dirfd) (msg_pid_fd msg)" unfolding msg_pid_fd_def by (rule keeps_pure)
  next
    fix pidfd s s'
    assume "closing_on_error E Daemon dirfd (msg_pid_fd msg) s = Some (Ok pidfd, s')"
    then have "b_pid_fd msg = Some pidfd" by (auto simp: closing_on_error_def on_failure_run run_simps)
    with owed have "tok fd (pf_fd pidfd) \<le> n" by (simp add: owed_eq)
    from owns_do_mknodat [OF assms(1) this]
    show "owns fd (n + given (\<lambda>_. tok fd dirfd) (Ok pidfd)) (do_mknodat E pidfd dirfd pathname mode dev) (\<lambda>_. n)" by simp
  qed simp_all
  have "keeps fd (n + tok fd dirfd) (arg_c_string E Daemon msg 1)" for dirfd using owed by (intro keeps_memory) simp
  from owns_closing_on_error [OF this] have "owns fd (n + tok fd dirfd) (bindR (closing_on_error E Daemon dirfd (arg_c_string E Daemon msg 1)) (\<lambda>pathname.
       bindR (closing_on_error E Daemon dirfd (msg_pid_fd msg)) (\<lambda>pidfd.
       do_mknodat E pidfd dirfd pathname mode dev))) (\<lambda>_. n)" for dirfd mode dev
    by (rule owns_bindR) (simp_all add: pid)
  then show ?thesis
    unfolding mknodat_def
    by (intro keeps_bindR [OF keeps_pure(4)] keeps_if keeps_pure(1) keeps_opens_bindR [OF opens_arg_fd] assms)
qed

lemma keeps_quota_fork:
  assumes "installs E" and "owed fd msg \<le> n" and "\<And>pid r. emits (\<lambda>h e. ev_actor e = Child pid) (k (Child pid) r)"
  shows "keeps fd n (quota_fork E msg cmd special i addr k)"
proof -
  have "owns fd (n + count_list [] fd) (forking_syscall E Daemon (quota_child E caps cmd special i addr k) []) (\<lambda>_. n)" for caps
    by (intro owns_forking_syscall assms(1) emits_actor_closures(2) assms(3))
  then have "keeps fd n (forking_syscall E Daemon (quota_child E caps cmd special i addr k) [])" for caps by simp
  then show ?thesis
    unfolding quota_fork_def by (intro keeps_pid_fd [OF assms(2)] keeps_intros refl)
qed

lemma keeps_uid_gid_arg:
  assumes "owed fd msg \<le> n"
  shows "keeps fd n (uid_gid_arg E msg i kind)"
  unfolding uid_gid_arg_def Let_def
  by (intro keeps_bindR [OF keeps_pure(4)] keeps_if keeps_pid_fd [OF assms] keeps_intros refl)

lemma keeps_quotactl:
  assumes "installs E" and "owed fd msg \<le> n"
  shows "keeps fd n (quotactl E msg)"
  unfolding quotactl_def quota_handler_defs Let_def
  by (intro keeps_intros keeps_uid_gid_arg keeps_quota_fork assms emits_actor_closures)

text \<open>What the client loop relies on: whatever a handler is asked and however it ends, it uses no descriptor but those of its
  message and those it opened, and it leaves the descriptors of the daemon as it found them.\<close>

locale tidy_handler = syscall_handler +
  assumes tidy: "installs E \<Longrightarrow> 0 \<le> fd \<Longrightarrow> owed fd msg \<le> n \<Longrightarrow> keeps fd n (handler msg)"
begin

lemma leaves_descriptors:
  assumes "installs E" and "0 \<le> fd" and "handler msg s = Some (r, s')" and "int (owed fd msg) \<le> held fd (m_log s)"
  shows "held fd (m_log s') = held fd (m_log s)"
  by (rule ownsD [OF tidy [OF assms(1,2) order_refl] assms(3,4)]) simp

end

interpretation mknod: tidy_handler E "mknod E" "mknod_allowed E 1 2" for E :: "'w env"
  by unfold_locales (rule keeps_mknod)

interpretation mknodat: tidy_handler E "mknodat E" "mknod_allowed E 2 3" for E :: "'w env"
  by unfold_locales (rule keeps_mknodat)

interpretation quotactl: tidy_handler E "quotactl E" quota_allowed for E :: "'w env"
  by unfold_locales (rule keeps_quotactl)

lemma keeps_case_Syscall:
  "keeps fd n a \<Longrightarrow> keeps fd n b \<Longrightarrow> keeps fd n c
     \<Longrightarrow> keeps fd n (case x of Mknod \<Rightarrow> a | MknodAt \<Rightarrow> b | Syscall.Quotactl \<Rightarrow> c)"
  by (cases x) simp_all

lemma keeps_handle_syscall_do:
  assumes "installs E" and "0 \<le> fd" and "owed fd msg \<le> n"
  shows "keeps fd n (handle_syscall_do E msg)"
  unfolding handle_syscall_do_def Let_def
  by (intro keeps_intros keeps_case_Syscall mknod.tidy mknodat.tidy quotactl.tidy assms)

end
