(* ===== verification/Reaping.thy ===== *)
theory Reaping
  imports Ledger Logs
begin

text \<open>
  Children are not left behind. A process that ended stays in the process table until its parent has waited for it; a
  daemon that forks for every request must not forget one. \<open>settled\<close> says this of a log, by looking ahead from
  every fork; it is an interpretation of \<open>log_closed\<close>, so that the argument is only about \<^verbatim>\<open>fork.rs\<close>.
\<close>

section \<open>Children in a log\<close>

text \<open>The wait for a child that brought it: \<^verbatim>\<open>waitpid\<close> returned it, or said that there is no such child.\<close>

definition reaps :: "int \<Rightarrow> event \<Rightarrow> bool" where
  "reaps pid e \<longleftrightarrow> ev_actor e = Daemon \<and> ev_call e = Waitpid pid
     \<and> (r_ret (ev_resp e) = pid \<or> r_ret (ev_resp e) = -1 \<and> r_errno (ev_resp e) \<noteq> EINTR)"

text \<open>What \<^verbatim>\<open>Fork::new\<close> does when the reactor does not take the pipe: the child is killed.\<close>

definition abandons :: "int \<Rightarrow> event list \<Rightarrow> bool" where
  "abandons pid t \<longleftrightarrow> (\<exists>a fd x b y c. t = a @ (Daemon, AsyncFdNew fd, x) # b @ (Daemon, Kill pid 9, y) # c \<and> r_ret x = -1)"

definition looked_after :: "int \<Rightarrow> event list \<Rightarrow> bool" where
  "looked_after pid t \<longleftrightarrow> list_ex (reaps pid) t \<or> abandons pid t"

definition settled :: "event list \<Rightarrow> bool" where
  "settled t \<longleftrightarrow> (\<forall>a y b. t = a @ (Daemon, call.Fork, y) # b \<longrightarrow> r_ret y \<noteq> -1 \<longrightarrow> looked_after (r_ret y) b)"

lemma looked_after_append: "looked_after pid t \<Longrightarrow> looked_after pid (t @ u)"
  unfolding looked_after_def abandons_def by fastforce

lemma settled_Nil: "settled []"
  by (simp add: settled_def)

lemma settled_append:
  assumes "settled t" and "settled u"
  shows "settled (t @ u)"
  unfolding settled_def
proof (intro allI impI)
  fix a y b
  assume split: "t @ u = a @ (Daemon, call.Fork, y) # b" and y: "r_ret y \<noteq> -1"
  then consider b' where "t = a @ (Daemon, call.Fork, y) # b'" "b = b' @ u" | a' where "u = a' @ (Daemon, call.Fork, y) # b"
    by (fastforce simp: append_eq_append_conv2 append_eq_Cons_conv)
  then show "looked_after (r_ret y) b"
    by cases (use assms y in \<open>auto simp: settled_def intro: looked_after_append\<close>)
qed

interpretation settled: log_closed settled
  by unfold_locales (simp_all add: settled_Nil settled_append)

text \<open>Events that are no fork of the daemon.\<close>

definition childless :: "event \<Rightarrow> bool" where
  "childless e \<longleftrightarrow> ev_actor e \<noteq> Daemon \<or> ev_call e \<noteq> call.Fork"

lemma settled_childless: "list_all childless t \<Longrightarrow> settled t"
  by (auto simp: settled_def childless_def)

lemma logs_childless: "emits (\<lambda>h. childless) m \<Longrightarrow> logs settled m"
  by (rule settled.pointwise, erule emits_mono) (simp add: settled_childless)

lemma settled_fork:
  assumes "list_all childless a" and "list_all childless b" and "r_ret y \<noteq> -1 \<Longrightarrow> looked_after (r_ret y) b"
  shows "settled (a @ (Daemon, call.Fork, y) # b)"
proof -
  have "settled ((Daemon, call.Fork, y) # b)"
    using assms(2,3) by (auto simp: settled_def childless_def Cons_eq_append_conv)
  with settled_childless [OF assms(1)] show ?thesis by (rule settled_append)
qed

section \<open>The fork helper\<close>

lemma childless_calls:
  "inspecting c \<Longrightarrow> childless (p, c, r)" "polling c \<Longrightarrow> childless (p, c, r)" "messaging c \<Longrightarrow> childless (p, c, r)"
  "childless (Child pid, c, r)"
  by (auto simp: childless_def inspecting_def polling_def messaging_def)

text \<open>The parent after the fork: it has the child registered, or abandons it.\<close>

lemma parent_children:
  assumes "bindR (drop_fd E Daemon pw) (\<lambda>_. matchR (Pipe_try_from E Daemon pr)
         (\<lambda>out. ret \<lparr>fk_pid = pid, fk_out = out\<rparr>)
         (\<lambda>err. bindR (sys E Daemon (Kill pid 9)) (\<lambda>_. raise err))) s = Some (r, s')"
  shows "\<exists>b. m_log s' = m_log s @ b \<and> list_all childless b \<and> ((\<exists>f. r = Ok f \<and> fk_pid f = pid) \<or> (\<forall>f. r \<noteq> Ok f) \<and> abandons pid b)"
proof -
  let ?s1 = "after E Daemon (Close pw) s" let ?x = "answer E Daemon (AsyncFdNew pr) ?s1"
  let ?s2 = "after E Daemon (AsyncFdNew pr) ?s1" let ?s3 = "after E Daemon (Close pr) ?s2"
  let ?c = "(Daemon, Close pr, answer E Daemon (Close pr) ?s2)" and ?k = "(Daemon, Kill pid 9, answer E Daemon (Kill pid 9) ?s3)"
  show ?thesis
  proof (cases "r_ret ?x = -1")
    case True
    then have "m_log s' = m_log s @ [(Daemon, Close pw, answer E Daemon (Close pw) s), (Daemon, AsyncFdNew pr, ?x), ?c, ?k]" "\<forall>f. r \<noteq> Ok f"
      using assms by (auto simp: Pipe_try_from_def async_fd_new_def tokio_result_def bindR_run matchR_run run_simps)
    moreover have "abandons pid [(Daemon, Close pw, answer E Daemon (Close pw) s), (Daemon, AsyncFdNew pr, ?x), ?c, ?k]"
      unfolding abandons_def using True
      by - (rule exI [of _ "[(Daemon, Close pw, answer E Daemon (Close pw) s)]"], rule exI [of _ pr],
          rule exI [of _ ?x], rule exI [of _ "[?c]"], simp)
    ultimately show ?thesis by (simp add: childless_def)
  next
    case False
    then have "m_log s' = m_log s @ [(Daemon, Close pw, answer E Daemon (Close pw) s), (Daemon, AsyncFdNew pr, ?x)]"
      "r = Ok \<lparr>fk_pid = pid, fk_out = pr\<rparr>"
      using assms by (auto simp: Pipe_try_from_def async_fd_new_def tokio_result_def bindR_run matchR_run run_simps)
    then show ?thesis by (simp add: childless_def)
  qed
qed

text \<open>A run of \<^verbatim>\<open>Fork::new\<close>: it forked no child, or abandoned it, or returned it.\<close>

definition hands_out :: "(io_error, Fork) res \<Rightarrow> event list \<Rightarrow> bool" where
  "hands_out r t \<longleftrightarrow> (\<exists>f a y b. r = Ok f \<and> t = a @ (Daemon, call.Fork, y) # b \<and> r_ret y = fk_pid f
     \<and> list_all childless a \<and> list_all childless b)"

lemma hands_out_append:
  "list_all childless a \<Longrightarrow> hands_out r t \<Longrightarrow> list_all childless u \<Longrightarrow> hands_out r (a @ t @ u)"
proof -
  assume a: "list_all childless a" and u: "list_all childless u" and "hands_out r t"
  then obtain f a' y b where "r = Ok f" "t = a' @ (Daemon, call.Fork, y) # b" "r_ret y = fk_pid f"
    "list_all childless a'" "list_all childless b" by (auto simp: hands_out_def)
  with a u show ?thesis
    unfolding hands_out_def by - (rule exI [of _ f], rule exI [of _ "a @ a'"], simp)
qed

lemma forked_children:
  assumes run: "bindR (on_failure (c_result E Daemon call.Fork) (drop_fds E Daemon [pw, pr] :: ('w, io_error, unit) io)) (\<lambda>r.
       let pid = r_ret r in
       bindR (child_main E (Child pid) pr pw (func (Child pid)) captured) (\<lambda>_.
       bindR (drop_fd E Daemon pw) (\<lambda>_.
       matchR (Pipe_try_from E Daemon pr)
         (\<lambda>out. ret \<lparr>fk_pid = pid, fk_out = out\<rparr>)
         (\<lambda>err. bindR (sys E Daemon (Kill pid 9)) (\<lambda>_. raise err))))) s = Some (r, s')"
    and func: "\<And>q. emits (\<lambda>h e. ev_actor e = q) (func q)"
  shows "\<exists>t. m_log s' = m_log s @ t \<and> ((\<forall>f. r \<noteq> Ok f) \<and> settled t \<or> hands_out r t)"
proof -
  let ?y = "answer E Daemon call.Fork s" and ?s1 = "after E Daemon call.Fork s"
  show ?thesis
  proof (cases "r_ret ?y = -1")
    case True
    with run have "(\<forall>f. r \<noteq> Ok f) \<and> (\<exists>z. drop_fds E Daemon [pw, pr] ?s1 = Some (z :: (io_error, unit) res, s'))"
      by (auto simp: bindR_run on_failure_run run_simps)
    moreover have "emits (\<lambda>h. childless) (drop_fds E Daemon [pw, pr] :: ('w, io_error, unit) io)"
      by (intro emits_intros) (simp add: childless_def)
    ultimately obtain u where "\<forall>f. r \<noteq> Ok f" "m_log s' = m_log ?s1 @ u" "list_all childless u"
      by (auto elim!: emitsD simp: along_const)
    with settled_fork [of "[]" u ?y] True show ?thesis by auto
  next
    case False
    with run obtain x sc where child: "child_main E (Child (r_ret ?y)) pr pw (func (Child (r_ret ?y))) captured ?s1 = Some (x, sc)"
      by (auto simp: bindR_run on_failure_run run_simps Let_def)
    with child_main_Ok have "x = Ok ()" by blast
    with run False child obtain b where b: "m_log s' = m_log sc @ b" "list_all childless b"
      "(\<exists>f. r = Ok f \<and> fk_pid f = r_ret ?y) \<or> (\<forall>f. r \<noteq> Ok f) \<and> abandons (r_ret ?y) b"
      using parent_children [of E pw pr "r_ret ?y" sc r s'] by (auto simp: bindR_def on_failure_def c_result_def sys_eq ret_def Let_def)
    have "emits (\<lambda>h. childless) (child_main E (Child (r_ret ?y)) pr pw (func (Child (r_ret ?y))) captured)"
      using func by (intro emits_intros emits_mono [OF func]) (simp_all add: childless_def)
    then obtain c where c: "m_log sc = m_log ?s1 @ c" "list_all childless c" using child by (auto elim!: emitsD simp: along_const)
    let ?t = "(Daemon, call.Fork, ?y) # c @ b"
    have log: "m_log s' = m_log s @ ?t" using b(1) c(1) by simp
    from b(3) have "(\<forall>f. r \<noteq> Ok f) \<and> settled ?t \<or> hands_out r ?t"
    proof
      assume "\<exists>f. r = Ok f \<and> fk_pid f = r_ret ?y"
      then obtain f where "r = Ok f" "fk_pid f = r_ret ?y" by blast
      with b(2) c(2) have "hands_out r ?t"
        unfolding hands_out_def by - (rule exI [of _ f], rule exI [of _ "[]"], simp)
      then show ?thesis ..
    next
      assume lost: "(\<forall>f. r \<noteq> Ok f) \<and> abandons (r_ret ?y) b"
      then have "looked_after (r_ret ?y) (c @ b)" unfolding looked_after_def abandons_def by (metis append_assoc)
      with settled_fork [of "[]" "c @ b" ?y] b(2) c(2) lost show ?thesis by simp
    qed
    with log show ?thesis by blast
  qed
qed

lemma bindR_result_cases:
  "bindR m f s = Some (r, s') \<Longrightarrow> \<exists>x s1. m s = Some (x, s1) \<and> ((\<forall>a. r \<noteq> Ok a) \<and> s' = s1 \<or> (\<exists>a. x = Ok a \<and> f a s1 = Some (r, s')))"
  by (auto simp: bindR_run)

lemma Fork_new_children:
  fixes E :: "'w env"
  assumes run: "Fork_new E Daemon func captured s = Some (r, s')" and func: "\<And>q. emits (\<lambda>h e. ev_actor e = q) (func q)"
  shows "\<exists>t. m_log s' = m_log s @ t \<and> ((\<forall>f. r \<noteq> Ok f) \<and> settled t \<or> hands_out r t)"
proof -
  let ?fork = "\<lambda>(pr, pw). bindR (on_failure (c_result E Daemon call.Fork) (drop_fds E Daemon [pw, pr] :: ('w, io_error, unit) io)) (\<lambda>r.
       let pid = r_ret r in
       bindR (child_main E (Child pid) pr pw (func (Child pid)) captured) (\<lambda>_.
       bindR (drop_fd E Daemon pw) (\<lambda>_.
       matchR (Pipe_try_from E Daemon pr)
         (\<lambda>out. ret \<lparr>fk_pid = pid, fk_out = out\<rparr>)
         (\<lambda>err. bindR (sys E Daemon (Kill pid 9)) (\<lambda>_. raise err)))))"
  from run obtain s1 z where body: "bindR (pipe_fds E Daemon) ?fork s = Some (r, s1)"
    and drop: "drop_fds E Daemon captured s1 = Some (z :: (io_error, unit) res, s')"
    unfolding Fork_new_def ensuring_run by blast
  obtain x sp where pipe: "pipe_fds E Daemon s = Some (x, sp)"
    and fork: "(\<forall>f. r \<noteq> Ok f) \<and> s1 = sp \<or> (\<exists>p. x = Ok p \<and> ?fork p sp = Some (r, s1))"
    using bindR_result_cases [OF body] by blast
  have "emits (\<lambda>h. childless) (pipe_fds E Daemon)"
    by (intro emits_intros) (simp_all add: childless_calls, simp add: childless_def)
  then obtain p where p: "m_log sp = m_log s @ p" "list_all childless p" using pipe by (auto elim!: emitsD simp: along_const)
  have "emits (\<lambda>h. childless) (drop_fds E Daemon captured :: ('w, io_error, unit) io)" by (intro emits_intros) (simp add: childless_def)
  then obtain d where d: "m_log s' = m_log s1 @ d" "list_all childless d" using drop by (auto elim!: emitsD simp: along_const)
  have "\<exists>t. m_log s1 = m_log sp @ t \<and> ((\<forall>f. r \<noteq> Ok f) \<and> settled t \<or> hands_out r t)"
  proof (use fork in \<open>elim disjE exE conjE\<close>)
    fix p
    assume "?fork p sp = Some (r, s1)"
    then show ?thesis using forked_children [OF _ func] by (cases p) (simp only: prod.case)
  qed (use settled_Nil in auto)
  then obtain t where t: "m_log s1 = m_log sp @ t" "(\<forall>f. r \<noteq> Ok f) \<and> settled t \<or> hands_out r t" by blast
  then have "(\<forall>f. r \<noteq> Ok f) \<and> settled (p @ t @ d) \<or> hands_out r (p @ t @ d)"
    using p(2) d(2) by (auto intro: settled_append settled_childless hands_out_append)
  with p(1) t(1) d(1) show ?thesis by auto
qed

text \<open>The result is collected: it is read, and however that ends, the child is waited for.\<close>

lemma wait_reaps:
  assumes "Fork_wait E Daemon pid s = Some (r, s')"
  shows "\<exists>t. m_log s' = m_log s @ t \<and> list_all childless t \<and> list_ex (reaps pid) t"
proof -
  from Fork_wait_reaps [OF assms] obtain t x where "m_log s' = m_log s @ (t @ [(Daemon, Waitpid pid, x)])"
    "list_all (\<lambda>e. ev_actor e = Daemon \<and> ev_call e = Waitpid pid) t" "r_ret x = pid \<or> r_ret x = -1 \<and> r_errno x \<noteq> EINTR" by auto
  moreover from this(2) have "list_all childless t" by (rule list.pred_mono_strong) (simp add: childless_def)
  ultimately show ?thesis by (intro exI [of _ "t @ [(Daemon, Waitpid pid, x)]"]) (auto simp: reaps_def childless_def)
qed

lemma collect_reaps:
  assumes "owning E Daemon out (
       bindR (on_failure (get_result E Daemon out) (Fork_wait E Daemon pid)) (\<lambda>result.
       bindR (Fork_wait E Daemon pid) (\<lambda>_. ret result))) s = Some (r, s')"
  shows "\<exists>u. m_log s' = m_log s @ u \<and> list_all childless u \<and> list_ex (reaps pid) u"
proof -
  from assms obtain x s1 s2 y where get: "get_result E Daemon out s = Some (x, s1)"
    and wait: "Fork_wait E Daemon pid s1 = Some (y, s2)" and s': "s' = after E Daemon (Close out) s2"
    by (auto simp: owning_run bindR_run on_failure_run ret_run)
  have "emits (\<lambda>h. childless) (get_result E Daemon out)"
    unfolding get_result_def by (intro emits_intros) (simp_all add: childless_calls)
  then obtain t where "m_log s1 = m_log s @ t" "list_all childless t" using get by (auto elim!: emitsD simp: along_const)
  with wait_reaps [OF wait] s' show ?thesis by (fastforce simp: childless_def)
qed

lemma settled_forking_syscall:
  fixes E :: "'w env"
  assumes func: "\<And>q. emits (\<lambda>h e. ev_actor e = q) (func q)"
  shows "logs settled (forking_syscall E Daemon func captured)"
  unfolding logs_def
proof (intro allI impI)
  fix s s' :: "'w mach" and r
  assume run: "forking_syscall E Daemon func captured s = Some (r, s')"
  then obtain x s1 where new: "Fork_new E Daemon func captured s = Some (x, s1)" by (auto simp: forking_syscall_def bindR_run)
  from Fork_new_children [OF this func] obtain t where t: "m_log s1 = m_log s @ t"
    "(\<forall>f. x \<noteq> Ok f) \<and> settled t \<or> hands_out x t" by blast
  show "\<exists>t. m_log s' = m_log s @ t \<and> settled t"
  proof (cases x)
    case (Ok f)
    let ?collect = "owning E Daemon (fk_out f) (
       bindR (on_failure (get_result E Daemon (fk_out f)) (Fork_wait E Daemon (fk_pid f))) (\<lambda>result.
       bindR (Fork_wait E Daemon (fk_pid f)) (\<lambda>_. ret result)))"
    from run new Ok have "?collect s1 = Some (r, s')" by (simp add: forking_syscall_def bindR_def)
    then obtain u where u: "m_log s' = m_log s1 @ u" "list_all childless u" "list_ex (reaps (fk_pid f)) u"
      using collect_reaps by blast
    from t Ok obtain a y b where ab: "t = a @ (Daemon, call.Fork, y) # b" "r_ret y = fk_pid f" "list_all childless a" "list_all childless b"
      by (auto simp: hands_out_def)
    have "settled (a @ (Daemon, call.Fork, y) # (b @ u))"
      using ab u by (intro settled_fork) (simp_all add: looked_after_def)
    with t(1) u(1) ab(1) show ?thesis by auto
  next
    case (Err e)
    with run new t show ?thesis by (auto simp: forking_syscall_def bindR_def hands_out_def)
  next
    case Panic
    with run new t show ?thesis by (auto simp: forking_syscall_def bindR_def hands_out_def)
  qed
qed

section \<open>The connection\<close>

lemma childless_steps:
  "emits (\<lambda>h. childless) (arg_c_string E Daemon msg i)" "emits (\<lambda>h. childless) (arg_opt_c_string E Daemon msg i)"
  "emits (\<lambda>h. childless) (arg_struct_by_ptr E Daemon msg i n)" "emits (\<lambda>h. childless) (arg_fd E Daemon msg i flags)"
  "emits (\<lambda>h. childless) (msg_pid_fd msg)" "emits (\<lambda>h. childless) (map_err IoErr (fd_cwd E Daemon pidfd))"
  "emits (\<lambda>h. childless) (uid_gid_arg E msg i kind)" "emits (\<lambda>h. childless) (UserCaps_new E Daemon pidfd)"
  "emits (\<lambda>h. childless) m \<Longrightarrow> emits (\<lambda>h. childless) (closing_on_error E Daemon fd m)"
  "emits (\<lambda>h. childless) (recv E Daemon msg socket)" "emits (\<lambda>h. childless) (respond E Daemon msg socket)"
  "emits (\<lambda>h. childless) (drop_msg E msg)"
  unfolding uid_gid_arg_def Let_def by (intro emits_intros; simp add: childless_calls)+

lemmas settled_rules = settled.intros logs_childless [OF childless_steps(1)] logs_childless [OF childless_steps(2)]
  logs_childless [OF childless_steps(3)] logs_childless [OF childless_steps(4)] logs_childless [OF childless_steps(5)]
  logs_childless [OF childless_steps(6)] logs_childless [OF childless_steps(7)] logs_childless [OF childless_steps(8)]
  logs_childless [OF childless_steps(9)] settled_forking_syscall emits_actor_closures childless_steps

lemma settled_do_mknodat: "logs settled (do_mknodat E pidfd dirfd pathname mode dev)"
  unfolding do_mknodat_def by (intro settled_rules)

lemma settled_handlers:
  "logs settled (mknod E msg)" "logs settled (mknodat E msg)" "logs settled (quotactl E msg)"
  unfolding mknod_def mknodat_def quotactl_def quota_handler_defs quota_fork_def Let_def
  by (intro settled_rules settled_do_mknodat)+

lemma settled_handle_syscall: "logs settled (handle_syscall E self msg)"
proof -
  have "logs settled (case nr of Mknod \<Rightarrow> mknod E msg | MknodAt \<Rightarrow> mknodat E msg | Syscall.Quotactl \<Rightarrow> quotactl E msg)" for nr
    by (cases nr) (simp_all add: settled_handlers)
  then show ?thesis
    unfolding handle_syscall_def handle_syscall_do_def Let_def
    by (intro settled.intros logs_childless [OF childless_steps(11)])
qed

lemma settled_client_main: "logs settled (client_main E self)"
proof -
  have round: "logs settled (main_round E self msg)" for msg
    unfolding main_round_def
    by (intro settled.intros settled_handle_syscall logs_childless [OF childless_steps(10)] logs_childless [OF childless_steps(12)])
  have others: "logs settled (ProxyMessageBuffer_new E Daemon n)" "logs settled (eprintln E Daemon bs)"
    "logs settled (SeqPacketSocket_shutdown E Daemon fd how)" "logs settled (drop_fd E Daemon fd)" for n bs fd how
    by (intro logs_childless emits_intros; simp add: childless_calls; simp add: childless_def)+
  show ?thesis
    unfolding client_main_def wrap_error_def main_do_def owning_def by (intro settled.intros round others)
qed

section \<open>Properties\<close>

text \<open>C15: No child of a connection is forgotten. However a connection ends, every child that was forked for one of its requests was
  waited for afterwards until it had ended (or the kernel said there is no such child); the one exception is a child whose pipe
  the reactor did not take, which was killed but is never waited for.\<close>

theorem client_main_reaps: "logs settled (client_main E self)"
  by (rule settled_client_main)

end
