(* ===== verification/Books.thy ===== *)
theory Books
  imports Ledger
begin

text \<open>
  The books of a connection and of the server: the calculus of \<^verbatim>\<open>Ledger\<close> applied to the receipt of a message, to
  the rounds of a connection and to the loop that accepts connections. Every descriptor that is operated on, closed or handed on is
  held at that moment, and what is held is accounted for: between two requests, the descriptors of the message; when a
  connection or the server ends, nothing, but for the descriptors of a message that was declined.
\<close>

section \<open>Receiving a message\<close>

lemma drop_opt_Ok: "drop_opt E p x s = Some (r, s') \<Longrightarrow> r = Ok ()"
  by (auto simp: drop_opt_def run_simps split: option.splits)

lemma owns_reset: "owns fd (owed fd msg) (reset E Daemon msg) (\<lambda>_. 0)"
  unfolding reset_def Let_def
  by (rule owns_bindR [where b = "given (\<lambda>_. case map_option pf_fd (b_pid_fd msg) of None \<Rightarrow> 0 | Some x \<Rightarrow> tok fd x)", OF owns_drop_opt])
     (auto simp: owed_eq intro!: owns_ret owns_bindR [where b = "\<lambda>_. 0", OF owns_drop_opt])

lemma reset_answer:
  assumes "reset E p msg s = Some (r, s')"
  obtains msg' where "r = Ok msg'" and "b_pid_fd msg' = None" and "b_mem_fd msg' = None"
  using assms unfolding reset_def Let_def
  by (auto simp: bindR_run ret_run dest!: drop_opt_Ok)

lemma owns_drop_msg: "owns fd (owed fd msg) (drop_msg E msg) (\<lambda>_. 0)"
  unfolding drop_msg_def
  by (rule owns_bindR [where b = "given (\<lambda>_. case b_mem_fd msg of None \<Rightarrow> 0 | Some x \<Rightarrow> tok fd x)", OF owns_drop_opt])
     (auto simp: owed_eq intro: owns_drop_opt)

text \<open>The descriptors of the control message are taken over one by one.\<close>

lemma owned_fds_eq: "-1 \<notin> set fds \<Longrightarrow> owned_fds E p vec fds = ret (vec @ fds)"
  by (induction fds arbitrary: vec) auto

lemma owns_recv_fds:
  assumes "cmsg_level m = SOL_SOCKET" and "fds = map (\<lambda>c. sint (le_word c :: i32)) (chunks_exact 4 (cmsg_data m))"
    and "-1 \<notin> set fds"
  shows "owns fd (count_list fds fd) (recv_fds E Daemon m) (given (\<lambda>(pf, x). tok fd (pf_fd pf) + tok fd x))"
proof (cases "length fds = 2")
  case False
  have "owns fd (count_list fds fd) (bindR (drop_fds E Daemon fds) (\<lambda>_. raise e)) (given (\<lambda>(pf, x). tok fd (pf_fd pf) + tok fd x))"
    for e :: error
    by (rule owns_bindR [where b = "\<lambda>_. 0", OF owns_drop_fds]) (auto intro: owns_raise)
  with assms False show ?thesis by (simp add: recv_fds_def owned_fds_eq)
next
  case True
  then obtain x y where fds: "fds = [x, y]" by (cases fds; cases "tl fds") auto
  have "owns fd (tok fd x) (map_err IoErr (try_from_fd E Daemon x)) (given (\<lambda>pf. tok fd (pf_fd pf)))"
    by (rule owns_map_err [OF owns_try_from_fd]) simp_all
  from owns_frame [OF this, of "tok fd y"]
  have "owns fd (tok fd x + tok fd y) (closing_on_error E Daemon y (map_err IoErr (try_from_fd E Daemon x)))
      (given (\<lambda>pf. tok fd (pf_fd pf) + tok fd y))"
    unfolding closing_on_error_def
    by (rule owns_on_failure) (auto simp: given_def split: res.splits intro!: owns_drop_fd)
  then have "owns fd (tok fd x + tok fd y) (bindR (closing_on_error E Daemon y (map_err IoErr (try_from_fd E Daemon x)))
      (\<lambda>pf. ret (pf, y))) (given (\<lambda>(pf, x). tok fd (pf_fd pf) + tok fd x))"
    by (rule owns_bindR) (auto intro: owns_ret)
  moreover have "recv_fds E Daemon m = bindR (closing_on_error E Daemon y (map_err IoErr (try_from_fd E Daemon x))) (\<lambda>pf. ret (pf, y))"
    unfolding recv_fds_def assms(2) [symmetric] using assms(1,3) fds by (simp add: owned_fds_eq)
  moreover have "count_list fds fd = tok fd x + tok fd y" using fds by (simp add: tok_def)
  ultimately show ?thesis by (simp only:)
qed

text \<open>A message is accepted, or nothing more is done with it; then its descriptors stay open.\<close>

definition accepts :: "ProxyMessageBuffer \<Rightarrow> int \<Rightarrow> bool" where
  "accepts self datalen \<longleftrightarrow> datalen \<noteq> 0 \<and> (\<exists>b. set_len self (word_of_int datalen) = Ok b)"

lemma set_len_cases:
  obtains (accepted) b where "set_len self len = Ok b" "b_pid_fd b = b_pid_fd self" "b_mem_fd b = b_mem_fd self"
    | (rejected) e where "set_len self len = Err e"
  by (cases "set_len self len") (auto simp: set_len_def prepare_response_def Let_def split: if_splits)

lemma recv_message_declined:
  assumes "\<not> accepts self datalen" and "recv_message E p self datalen cmsglen buf s = Some (r, s')"
  shows "s' = s \<and> ((\<exists>e. r = Err e) \<or> r = Ok (False, self))"
proof (cases "datalen = 0")
  case True
  with assms(2) show ?thesis by (simp add: recv_message_def run_simps)
next
  case False
  with assms(1) obtain e where "set_len self (word_of_int datalen) = Err e"
    by (metis accepts_def set_len_cases)
  with assms(2) False show ?thesis by (auto simp: recv_message_def bindR_def of_res_def)
qed

lemma owns_recv_message:
  assumes ok: "accepts self datalen" and len: "cmsglen \<le> length buf" and ctl: "scm_rights (take cmsglen buf)"
    and none: "b_pid_fd self = None" "b_mem_fd self = None"
  shows "owns fd (count_list (rights_in (take cmsglen buf)) fd) (recv_message E Daemon self datalen cmsglen buf)
     (given (\<lambda>(got, msg). owed fd msg))"
proof -
  let ?bs = "take cmsglen buf"
  from ok obtain b where b: "set_len self (word_of_int datalen) = Ok b" "datalen \<noteq> 0" by (auto simp: accepts_def)
  have step: "recv_message E Daemon self datalen cmsglen buf = bindR (of_res (cmsg_next ?bs)) (\<lambda>(item, rest).
          bindR (ok_or (AnyErr ''missing file descriptors in message'') item) (\<lambda>cmsg.
          bindR (recv_fds E Daemon cmsg) (\<lambda>(pid_fd, mem_fd).
          ret (True, b\<lparr>b_pid_fd := Some pid_fd, b_mem_fd := Some mem_fd\<rparr>))))"
    using b len by (simp add: recv_message_def of_res_def bindR_def fun_eq_iff)
  show ?thesis
  proof (cases "?bs = []")
    case True
    show ?thesis
      unfolding step True by (rule ownsI) (auto simp: of_res_def bindR_def ok_or_def raise_def)
  next
    case False
    with ctl obtain m where m: "?bs = put_cmsg m" "cmsg_level m = SOL_SOCKET" "length (cmsg_data m) < 2 ^ 62"
      "-1 \<notin> set (rights_in ?bs)" by (auto simp: scm_rights_def)
    then have item: "cmsg_next ?bs = (Ok (Some m, []) :: (error, _) res)"
      and rights: "rights_in ?bs = map (\<lambda>c. sint (le_word c :: i32)) (chunks_exact 4 (cmsg_data m))"
      by (simp_all only: rights_in_put cmsg_next_put1)
    have "owns fd (count_list (rights_in ?bs) fd) (bindR (recv_fds E Daemon m) (\<lambda>(pid_fd, mem_fd).
        ret (True, b\<lparr>b_pid_fd := Some pid_fd, b_mem_fd := Some mem_fd\<rparr>))) (given (\<lambda>(got, msg). owed fd msg))"
      by (rule owns_bindR [OF owns_recv_fds [OF m(2) rights m(4)]]) (auto simp: owed_eq intro!: owns_ret)
    moreover have "recv_message E Daemon self datalen cmsglen buf = bindR (recv_fds E Daemon m) (\<lambda>(pid_fd, mem_fd).
        ret (True, b\<lparr>b_pid_fd := Some pid_fd, b_mem_fd := Some mem_fd\<rparr>))"
      unfolding step by (simp add: item of_res_def bindR_def ok_or_def ret_def)
    ultimately show ?thesis by simp
  qed
qed

text \<open>The receipt: its descriptors are those the control buffer now shows.\<close>

lemma emits_c_result_answer:
  "(\<And>h w. P h (p, c, fst (kern E p c w))) \<Longrightarrow> emits P (c_result E p c)"
  by (auto simp: emits_def c_result_def bindR_run run_simps answer_def split: if_splits)

lemma waiting_calm: "waiting Daemon (Readable x) x (Recvmsg x ls k) e \<Longrightarrow> tok fd x \<le> n \<Longrightarrow> calm fd n e"
  by (auto simp: waiting_def calm_def tok_le gains_def drops_def uses_def)

lemma recvmsg_run:
  fixes fd :: int
  assumes "installs E" and run: "recvmsg_vectored E Daemon socket iov buf s = Some (r, s')"
  obtains (ok) t ls n y where "r = Ok (r_ret y, r_ctllen y, scatter iov (r_data y), fill buf (r_ctl y))" and "list_all (calm fd (tok fd socket)) t"
      and "m_log s' = m_log s @ t @ [(Daemon, Recvmsg socket ls n, y)]"
      and "r_ret y \<noteq> -1" and "r_ctllen y \<le> length (fill buf (r_ctl y))" and "scm_rights (take (r_ctllen y) (fill buf (r_ctl y)))"
      and "rights y = rights_in (take (r_ctllen y) (fill buf (r_ctl y)))"
    | (failed) t e where "r = Err e" and "list_all (calm fd (tok fd socket)) t" and "m_log s' = m_log s @ t"
proof -
  let ?c = "Recvmsg socket (map length iov) (length buf)"
  from run obtain x where x: "wrap_read E Daemon socket (c_result E Daemon ?c) s = Some (x, s')"
    "r = (case x of Ok y \<Rightarrow> Ok (r_ret y, r_ctllen y, scatter iov (r_data y), fill buf (r_ctl y))
       | Err e \<Rightarrow> Err e | Panic \<Rightarrow> Panic)"
    by (auto simp: recvmsg_vectored_def bindR_run run_simps)
  have idle: "list_all (calm fd (tok fd socket)) t" if "list_all (waiting Daemon (Readable socket) socket ?c) t" for t
    using that by (rule list.pred_mono_strong) (rule waiting_calm [OF _ order_refl])
  let ?P = "\<lambda>h e. ev_call e = ?c \<longrightarrow> ancillary (length buf) (ev_resp e)"
  have kernel: "emits ?P (wrap_read E Daemon socket (c_result E Daemon ?c))"
    using assms(1) by (intro emits_intros emits_c_result_answer) (auto simp: installs_def)
  from x(1) show thesis
  proof (cases rule: wrap_read_cases)
    case (ended t y)
    obtain u where "m_log s' = m_log s @ u" "along ?P (m_log s) u" using kernel x(1) by (rule emitsD)
    with ended have "ancillary (length buf) y" by auto
    then have y: "r_ctllen y \<le> length (r_ctl y)" "length (r_ctl y) \<le> length buf" "scm_rights (take (r_ctllen y) (r_ctl y))"
      by (auto simp: ancillary_def)
    then have "take (r_ctllen y) (fill buf (r_ctl y)) = take (r_ctllen y) (r_ctl y)" by (intro take_fill) auto
    with y ended x(2) show ?thesis by (intro ok [OF _ idle]) (auto simp: rights_def)
  next
    case (failed t e)
    with x(2) show ?thesis by (intro that(2) [OF _ idle]) auto
  qed
qed

text \<open>\<open>books fd s s' n\<close>: the log grew from \<open>s\<close> to \<open>s'\<close> by lawful events, and the balance by \<open>n\<close>.\<close>

definition books :: "int \<Rightarrow> 'w mach \<Rightarrow> 'w mach \<Rightarrow> int \<Rightarrow> bool" where
  "books fd s s' n \<longleftrightarrow> (\<exists>t. m_log s' = m_log s @ t \<and> along (lawful fd) (m_log s) t) \<and> held fd (m_log s') = held fd (m_log s) + n"

lemma books_trans:
  assumes "books fd s s1 n" and "books fd s1 s2 k" and "l = n + k"
  shows "books fd s s2 l"
  using assms by (auto simp: books_def)

lemma books_owns:
  assumes "owns fd a m b" and "m s = Some (r, s')" and "int a \<le> held fd (m_log s)" and "n = int (b r) - int a"
  shows "books fd s s' n"
  using assms by (auto elim!: ownsD simp: books_def)

lemma books_calm:
  "m_log s' = m_log s @ t \<Longrightarrow> list_all (calm fd n) t \<Longrightarrow> int n \<le> held fd (m_log s) \<Longrightarrow> books fd s s' 0"
  using held_calm [of fd n t "m_log s"] by (auto simp: books_def)

lemma books_refl [simp]: "books fd s s 0"
  by (simp add: books_def)

text \<open>The books after \<^verbatim>\<open>recv\<close>: the old message's descriptors are closed, the new one's are held; what is held
  beyond that came with a message that was declined, and nothing was done after its receipt.\<close>

definition declined :: "int \<Rightarrow> int \<Rightarrow> 'w mach \<Rightarrow> 'w mach \<Rightarrow> int \<Rightarrow> bool" where
  "declined fd socket s s' n \<longleftrightarrow> (\<exists>ls k y. m_log s' \<noteq> [] \<and> last (m_log s') = (Daemon, Recvmsg socket ls k, y)
     \<and> books fd s s' (int (count_list (rights y) fd) - n))"

lemma recv_start:
  assumes "recv E Daemon msg socket s = Some (r, s')"
  obtains self s1 s2 buf z s3 where "reset E Daemon msg s = Some (Ok self, s1)" "b_pid_fd self = None" "b_mem_fd self = None"
    and "m_log s2 = m_log s1 @ [(Daemon, Alloc (unat (capacity 8)), answer E Daemon (Alloc (unat (capacity 8))) s1)]"
    and "recvmsg_vectored E Daemon socket (msg_iov self @ [b_cookie_mem self]) buf s2 = Some (z, s3)"
    and "case z of Ok (datalen, cmsglen, iov, buf) \<Rightarrow>
        recv_message E Daemon ((store_iov self iov)\<lparr>b_cookie_len := 0\<rparr>) datalen cmsglen buf s3 = Some (r, s')
      | Err e \<Rightarrow> r = Err (IoErr e) \<and> s' = s3 | Panic \<Rightarrow> r = Panic \<and> s' = s3"
proof -
  from assms obtain x s1 where reset: "reset E Daemon msg s = Some (x, s1)" by (auto simp: recv_def bindR_run)
  then obtain self where x: "x = Ok self" "b_pid_fd self = None" "b_mem_fd self = None" by (rule reset_answer)
  let ?s2 = "after E Daemon (Alloc (unat (capacity 8))) s1"
  obtain buf where "cmsg_buffer E Daemon 8 s1 = Some (Ok buf :: (error, _) res, ?s2)"
    by (simp add: cmsg_buffer_def bindR_def sys_eq ret_def Let_def)
  with assms reset x(1) obtain z s3
    where "recvmsg_vectored E Daemon socket (msg_iov self @ [b_cookie_mem self]) buf ?s2 = Some (z, s3)"
      "case z of Ok (datalen, cmsglen, iov, buf) \<Rightarrow>
        recv_message E Daemon ((store_iov self iov)\<lparr>b_cookie_len := 0\<rparr>) datalen cmsglen buf s3 = Some (r, s')
      | Err e \<Rightarrow> r = Err (IoErr e) \<and> s' = s3 | Panic \<Rightarrow> r = Panic \<and> s' = s3"
    by (auto simp: recv_def bindR_run map_err_def split: option.splits res.splits)
  then show thesis by (rule that [OF reset [unfolded x(1)] x(2,3) m_log_after])
qed

lemma recv_ledger:
  assumes inst: "installs E" and run: "recv E Daemon msg socket s = Some (r, s')"
    and enough: "int (owed fd msg + tok fd socket) \<le> held fd (m_log s)"
  shows "((\<forall>msg'. r \<noteq> Ok (False, msg')) \<and> books fd s s' (int (given (\<lambda>(got, msg). owed fd msg) r) - int (owed fd msg)))
     \<or> ((\<forall>msg'. r \<noteq> Ok (True, msg')) \<and> declined fd socket s s' (int (owed fd msg)))"
  using run
proof (rule recv_start)
  fix self s1 s2 buf z s3
  assume reset: "reset E Daemon msg s = Some (Ok self, s1)" and none: "b_pid_fd self = None" "b_mem_fd self = None"
    and s2: "m_log s2 = m_log s1 @ [(Daemon, Alloc (unat (capacity 8)), answer E Daemon (Alloc (unat (capacity 8))) s1)]"
    and recvmsg: "recvmsg_vectored E Daemon socket (msg_iov self @ [b_cookie_mem self]) buf s2 = Some (z, s3)"
    and rest: "case z of Ok (datalen, cmsglen, iov, buf) \<Rightarrow>
        recv_message E Daemon ((store_iov self iov)\<lparr>b_cookie_len := 0\<rparr>) datalen cmsglen buf s3 = Some (r, s')
      | Err e \<Rightarrow> r = Err (IoErr e) \<and> s' = s3 | Panic \<Rightarrow> r = Panic \<and> s' = s3"
  from enough have "int (owed fd msg) \<le> held fd (m_log s)" by simp
  then have s1: "books fd s s1 (- int (owed fd msg))" by (rule books_owns [OF owns_reset reset]) simp
  have "books fd s1 s2 0" using s1 enough by (intro books_calm [OF s2, of fd 0]) (simp_all add: calm_calls books_def)
  with s1 have start: "books fd s s2 (- int (owed fd msg))" by (rule books_trans) simp
  with enough have socket: "int (tok fd socket) \<le> held fd (m_log s2)" by (simp add: books_def)
  from inst recvmsg show ?thesis
  proof (cases rule: recvmsg_run [where fd = fd])
    case (ok t ls n y)
    let ?buf = "fill buf (r_ctl y)" let ?m = "(store_iov self (scatter (msg_iov self @ [b_cookie_mem self]) (r_data y)))\<lparr>b_cookie_len := 0\<rparr>"
    have receipt: "books fd s2 s3 (int (count_list (rights y) fd))"
      using ok(3,4) held_calm [OF ok(2) socket] socket
      by (auto simp: books_def lawful_def net_def gains_def drops_def uses_def tok_def)
    have msg: "recv_message E Daemon ?m (r_ret y) (r_ctllen y) ?buf s3 = Some (r, s')" using rest ok(1) by simp
    show ?thesis
    proof (cases "accepts ?m (r_ret y)")
      case True
      have "int (count_list (rights y) fd) \<le> held fd (m_log s3)"
        using start receipt enough by (simp add: books_def)
      then have accepted: "books fd s3 s' (int (given (\<lambda>(got, msg). owed fd msg) r) - int (count_list (rights y) fd))"
        using none by (intro books_owns [OF owns_recv_message [OF True ok(5,6)] msg]) (simp_all add: ok(7) store_iov_def)
      have "r \<noteq> Ok (False, msg')" for msg'
        using msg True by (auto simp: recv_message_def accepts_def run_simps split: if_splits)
      with books_trans [OF books_trans [OF start receipt refl] accepted refl] show ?thesis by simp
    next
      case False
      from recv_message_declined [OF this msg] books_trans [OF start receipt refl] ok(3) show ?thesis
        by (auto simp: declined_def)
    qed
  next
    case (failed t e)
    from books_trans [OF start books_calm [OF failed(3,2) socket] refl] rest failed(1) show ?thesis by simp
  qed
qed

section \<open>A connection\<close>

lemma owns_weaken:
  "owns fd a m b \<Longrightarrow> (\<And>s r s'. m s = Some (r, s') \<Longrightarrow> b r = c r) \<Longrightarrow> owns fd a m c"
  unfolding owns_def by metis

lemma owed_set_response [simp]: "owed fd (set_response msg st) = owed fd msg"
  by (simp add: owed_def msg_fds_def set_response_def Let_def)

lemma keeps_respond: "tok fd socket \<le> n \<Longrightarrow> keeps fd n (respond E p msg socket)"
  unfolding respond_def sendmsg_vectored_def wrap_write_def Let_def by (intro keeps_intros calm_calls)

lemma owns_handle_syscall:
  assumes "installs E" and "0 \<le> fd"
  shows "owns fd (owed fd msg + tok fd (cl_socket self)) (on_failure (handle_syscall E self msg) (drop_msg E msg))
     (\<lambda>r. given (owed fd) r + tok fd (cl_socket self))"
proof (rule owns_on_failure)
  let ?n = "owed fd msg + tok fd (cl_socket self)"
  have "keeps fd ?n (handle_syscall E self msg)"
    unfolding handle_syscall_def Let_def
    by (intro keeps_intros keeps_respond keeps_handle_syscall_do assms le_add1 le_add2)
  then show "owns fd ?n (handle_syscall E self msg) (\<lambda>r. (case r of Ok m \<Rightarrow> owed fd m | _ \<Rightarrow> owed fd msg) + tok fd (cl_socket self))"
    by (rule owns_weaken) (auto simp: handle_syscall_def Let_def run_simps split: res.splits)
  show "owns fd ((case r of Ok m \<Rightarrow> owed fd m | _ \<Rightarrow> owed fd msg) + tok fd (cl_socket self)) (drop_msg E msg)
      (\<lambda>_. given (owed fd) r + tok fd (cl_socket self))"
    if "\<And>x. r \<noteq> Ok x" for r :: "(error, ProxyMessageBuffer) res"
    using that owns_frame [OF owns_drop_msg] by (cases r) auto
qed simp

text \<open>One round: the books are balanced, or the round ended the connection with the receipt of a declined message.\<close>

definition owed_after :: "int \<Rightarrow> (error, ProxyMessageBuffer + unit) res \<Rightarrow> nat" where
  "owed_after fd x = (case x of Ok (Inl msg) \<Rightarrow> owed fd msg | _ \<Rightarrow> 0)"

lemma round_ledger:
  assumes inst: "installs E" "0 \<le> fd" and run: "main_round E self msg s = Some (x, s')"
    and enough: "int (owed fd msg + tok fd (cl_socket self)) \<le> held fd (m_log s)"
  shows "books fd s s' (int (owed_after fd x) - int (owed fd msg))
     \<or> ((\<forall>msg'. x \<noteq> Ok (Inl msg')) \<and> declined fd (cl_socket self) s s' (int (owed fd msg)))"
proof -
  from run obtain r s1 where recv: "recv E Daemon msg (cl_socket self) s = Some (r, s1)" by (auto simp: main_round_def bindR_run)
  show ?thesis
  proof (cases "\<exists>msg1. r = Ok (True, msg1)")
    case True
    then obtain msg1 where r: "r = Ok (True, msg1)" by blast
    from recv_ledger [OF inst(1) recv enough] r
    have b1: "books fd s s1 (int (owed fd msg1) - int (owed fd msg))" by simp
    from run recv r obtain y where y: "on_failure (handle_syscall E self msg1) (drop_msg E msg1) s1 = Some (y, s')"
      "owed_after fd x = given (owed fd) y"
      by (auto simp: main_round_def bindR_run ret_run owed_after_def)
    have "int (owed fd msg1 + tok fd (cl_socket self)) \<le> held fd (m_log s1)" using b1 enough by (simp add: books_def)
    from books_owns [OF owns_handle_syscall [OF inst] y(1) this refl] y(2) show ?thesis
      by (auto intro: books_trans [OF b1])
  next
    case False
    with run recv have "s' = s1" "owed_after fd x = 0" "\<And>msg'. x \<noteq> Ok (Inl msg')"
      and none: "r = Ok (got, msg1) \<Longrightarrow> \<not> got" for got msg1
      by (auto simp: main_round_def bindR_run ret_run owed_after_def)
    moreover have "given (\<lambda>(got, msg). owed fd msg) r = 0" if "\<forall>msg'. r \<noteq> Ok (False, msg')"
      using that none by (cases r) auto
    ultimately show ?thesis using recv_ledger [OF inst(1) recv enough] by auto
  qed
qed

lemma keeps_new: "keeps fd n (ProxyMessageBuffer_new E Daemon k)"
  unfolding ProxyMessageBuffer_new_def vec_uninitialized_def
  by (rule keeps_calm, intro emits_bindR emits_SECCOMP_SIZES emits_sys emits_ret calm_calls)

lemma new_owes_nothing: "ProxyMessageBuffer_new E p n s = Some (Ok msg, s') \<Longrightarrow> owed fd msg = 0"
  by (auto simp: ProxyMessageBuffer_new_def run_simps owed_def msg_fds_def)

lemma connection_books:
  assumes "connection E self s0 msg s" and "installs E" and "0 \<le> fd" and "int (tok fd (cl_socket self)) \<le> held fd (m_log s0)"
  shows "books fd s0 s (int (owed fd msg))"
  using assms(1)
proof induction
  case (opened msg s)
  from books_owns [OF keeps_new opened] new_owes_nothing [OF opened] assms(4) show ?case by simp
next
  case (round msg s msg' s')
  from round.IH assms(4) have "int (owed fd msg + tok fd (cl_socket self)) \<le> held fd (m_log s)" by (simp add: books_def)
  from round_ledger [OF assms(2,3) round.hyps(2) this]
  have "books fd s s' (int (owed fd msg') - int (owed fd msg))" by (simp add: owed_after_def)
  from books_trans [OF round.IH this] show ?case by simp
qed

lemma main_do_books:
  assumes "main_do E self s0 = Some (r, s')" and "installs E" and "0 \<le> fd" and "int (tok fd (cl_socket self)) \<le> held fd (m_log s0)"
  shows "books fd s0 s' 0 \<or> declined fd (cl_socket self) s0 s' 0"
proof -
  from assms(1) consider (last) msg s x where "connection E self s0 msg s" "main_round E self msg s = Some (x, s')" "ends_loop x r"
    | (poisoned) "ProxyMessageBuffer_new E Daemon 64 s0 = Some (Panic :: (error, _) res, s')"
    by (auto simp: main_do_iff)
  then show ?thesis
  proof cases
    case last
    have start: "books fd s0 s (int (owed fd msg))" by (rule connection_books [OF last(1) assms(2-4)])
    with assms(4) have "int (owed fd msg + tok fd (cl_socket self)) \<le> held fd (m_log s)" by (simp add: books_def)
    from round_ledger [OF assms(2,3) last(2) this] show ?thesis
    proof
      have "owed_after fd x = 0" using last(3) by (cases r) (auto simp: owed_after_def)
      moreover assume "books fd s s' (int (owed_after fd x) - int (owed fd msg))"
      ultimately have "books fd s s' (- int (owed fd msg))" by simp
      from books_trans [OF start this refl] show ?thesis by simp
    next
      assume "(\<forall>msg'. x \<noteq> Ok (Inl msg')) \<and> declined fd (cl_socket self) s s' (int (owed fd msg))"
      then show ?thesis using books_trans [OF start] by (fastforce simp: declined_def)
    qed
  next
    case poisoned
    from books_owns [OF keeps_new poisoned] assms(4) show ?thesis by simp
  qed
qed

text \<open>Reporting an error, shutting the connection down and closing it.\<close>

definition tears_down :: "int \<Rightarrow> event \<Rightarrow> bool" where
  "tears_down socket e = (case ev_call e of Print x _ \<Rightarrow> x = 2 | Shutdown x _ \<Rightarrow> x = socket | Close x \<Rightarrow> x = socket | _ \<Rightarrow> False)"

lemma client_main_run:
  assumes "client_main E self s = Some (r, s')"
  obtains x s1 t y where "main_do E self s = Some (x, s1)"
    and "m_log s' = m_log s1 @ t @ [(Daemon, Close (cl_socket self), y)]"
    and "list_all (\<lambda>e. \<exists>bs how. ev_call e = Print 2 bs \<or> ev_call e = Shutdown (cl_socket self) how) t"
proof -
  from assms obtain x s1 where x: "main_do E self s = Some (x, s1)"
    by (auto simp: client_main_def wrap_error_def owning_def ensuring_run matchR_run)
  have "\<exists>t y. m_log s' = m_log s1 @ t @ [(Daemon, Close (cl_socket self), y)]
      \<and> list_all (\<lambda>e. \<exists>bs how. ev_call e = Print 2 bs \<or> ev_call e = Shutdown (cl_socket self) how) t"
    using assms x
    by (cases x) (auto simp: client_main_def wrap_error_def eprintln_def owning_def ensuring_def matchR_def
      SeqPacketSocket_shutdown_def nix_result_def bindR_def sys_eq drop_fd_def ret_def raise_def panic_def split: if_splits)
  with x that show thesis by blast
qed

text \<open>Closing the socket at the end.\<close>

lemma books_teardown:
  assumes "m_log s' = m_log s1 @ t @ [(Daemon, Close x, y)]"
    and "list_all (\<lambda>e. \<exists>bs how. ev_call e = Print 2 bs \<or> ev_call e = Shutdown x how) t" and "int (tok fd x) \<le> held fd (m_log s1)"
  shows "books fd s1 s' (- int (tok fd x))"
proof -
  have "calm fd (tok fd x) (p, Shutdown x how, y)" "calm fd (tok fd x) (p, Print 2 bs, y)" for p how bs y by (intro calm_calls order_refl)+
  then have "list_all (calm fd (tok fd x)) t"
    using assms(2) by (elim list.pred_mono_strong) auto
  from held_calm [OF this assms(3)] have t: "held fd t = 0" "along (lawful fd) (m_log s1) t" by auto
  have close: "gains (Daemon, Close x, y) = []" "drops (Daemon, Close x, y) = [x]" "uses (Daemon, Close x, y) = []"
    by (simp_all add: gains_def drops_def uses_def)
  have "net fd (Daemon, Close x, y) = - int (tok fd x)" "lawful fd (m_log s1 @ t) (Daemon, Close x, y)"
    unfolding net_def lawful_def close using assms(3) t(1) by (auto simp: tok_def)
  with t assms(1) show ?thesis by (simp add: books_def)
qed

text \<open>The books of a whole connection: what is left, \<open>k\<close>, came with a declined message at the end of \<^verbatim>\<open>main_do\<close>.\<close>

lemma client_main_books:
  assumes run: "client_main E self s = Some (r, s')" and "installs E" and "0 \<le> fd"
    and owner: "int (tok fd (cl_socket self)) \<le> held fd (m_log s)"
  obtains k h t where "books fd s s' (int k - int (tok fd (cl_socket self)))" and "m_log s' = h @ t"
    and "list_all (tears_down (cl_socket self)) t" and "k = 0 \<or> (\<exists>ls n z. h \<noteq> []
       \<and> last (h) = (Daemon, Recvmsg (cl_socket self) ls n, z) \<and> k = count_list (rights z) fd)"
proof -
  from run obtain x s1 t y where main: "main_do E self s = Some (x, s1)"
    and s': "m_log s' = m_log s1 @ t @ [(Daemon, Close (cl_socket self), y)]"
    and t: "list_all (\<lambda>e. \<exists>bs how. ev_call e = Print 2 bs \<or> ev_call e = Shutdown (cl_socket self) how) t"
    by (rule client_main_run)
  from main_do_books [OF main assms(2,3) owner] obtain k where k: "books fd s s1 (int k)"
    and decl: "k = 0 \<or> (\<exists>ls n z. m_log s1 \<noteq> [] \<and> last (m_log s1) = (Daemon, Recvmsg (cl_socket self) ls n, z) \<and> k = count_list (rights z) fd)"
    by (force simp: declined_def)
  from k owner have "int (tok fd (cl_socket self)) \<le> held fd (m_log s1)" by (simp add: books_def)
  from books_trans [OF k books_teardown [OF s' t this] refl]
  have "books fd s s' (int k - int (tok fd (cl_socket self)))" by simp
  moreover have "list_all (tears_down (cl_socket self)) (t @ [(Daemon, Close (cl_socket self), y)])"
    using t by (auto simp: tears_down_def elim!: list.pred_mono_strong)
  ultimately show thesis using s' decl by (intro that [of k "m_log s1"])
qed

section \<open>The server\<close>

lemma opens_bind: "opens fd n (SeqPacketListener_bind E Daemon address)"
proof -
  have socket: "opens fd n (seq_packet_socket E Daemon flags)" for flags
    unfolding seq_packet_socket_def by (rule opens_call(2)) (simp_all add: gains_def drops_def uses_def)
  have config: "keeps fd (n + tok fd x) (bindR (map_err NixErr (nix_result E Daemon (Bind x address))) (\<lambda>_.
      map_err NixErr (nix_result E Daemon (Listen x 16))))" for x
    by (intro keeps_intros calm_calls le_add2)
  have "owns fd (n + tok fd x) (bindR (closing_on_error E Daemon x (bindR (map_err NixErr (nix_result E Daemon (Bind x address))) (\<lambda>_.
        map_err NixErr (nix_result E Daemon (Listen x 16))))) (\<lambda>_. map_err IoErr (async_fd_new E Daemon x)))
      (\<lambda>r. n + given (tok fd) r)" for x
    by (rule owns_bindR [OF owns_closing_on_error [OF config]]) (auto intro!: owns_map_err [OF owns_async_fd_new])
  then show ?thesis
    unfolding SeqPacketListener_bind_def by (rule opens_bindR [OF opens_map_err [OF socket]]) simp_all
qed

lemma opens_accept:
  assumes "tok fd listener \<le> n"
  shows "opens fd n (SeqPacketListener_accept E Daemon listener)"
proof -
  let ?c = "Accept4 listener (SOCK_CLOEXEC OR SOCK_NONBLOCK)"
  have idle: "list_all (calm fd n) t" if "list_all (waiting Daemon (Readable listener) listener ?c) t" for t
    using that assms by (elim list.pred_mono_strong) (auto simp: waiting_def calm_def tok_le gains_def drops_def uses_def)
  have "opens fd n (bindR (wrap_read E Daemon listener (c_result E Daemon ?c)) (\<lambda>r. owned_fd (r_ret r)))"
    by (rule opens_result [where c = ?c], use assms in \<open>simp add: gains_def drops_def uses_def tok_le\<close>, erule wrap_read_cases)
       (blast intro: idle)+
  from opens_bindR [OF this, of "async_fd_new E Daemon" "\<lambda>r. n + given (tok fd) r"] show ?thesis
    by (simp add: SeqPacketListener_accept_def SeqPacketSocket_new_def owns_async_fd_new bindR_assoc)
qed

lemma owns_spawn: "owns fd (n + tok fd x) (sys E Daemon (Spawn x)) (\<lambda>_. n)"
proof (rule ownsI)
  fix s s' and r :: "('e, resp) res"
  assume run: "sys E Daemon (Spawn x) s = Some (r, s')" and enough: "int (n + tok fd x) \<le> held fd (m_log s)"
  have spawn: "gains (Daemon, Spawn x, y) = []" "drops (Daemon, Spawn x, y) = [x]" "uses (Daemon, Spawn x, y) = []" for y
    by (simp_all add: gains_def drops_def uses_def)
  have "net fd (Daemon, Spawn x, y) = - int (tok fd x)" "lawful fd (m_log s) (Daemon, Spawn x, y)" for y
    unfolding net_def lawful_def spawn using enough by (auto simp: tok_def)
  with run show "(\<exists>t. m_log s' = m_log s @ t \<and> along (lawful fd) (m_log s) t)
     \<and> held fd (m_log s') = held fd (m_log s) - int (n + tok fd x) + int n" by (simp add: run_simps)
qed

lemma keeps_accept_loop:
  assumes "tok fd listener \<le> n"
  shows "keeps fd n (accept_loop E listener)"
proof -
  have "owns fd (n + tok fd x) (bindR (spawn E (Client_new x)) (\<lambda>_. ret (Inl ()))) (\<lambda>_. n)" for x
    unfolding spawn_def bindR_assoc bindR_ret Client_new_def Client.simps
    by (rule owns_bindR [OF owns_spawn]) (auto intro: owns_ret)
  then show ?thesis
    unfolding accept_loop_def
    by (intro keeps_loopM keeps_opens_bindR [OF opens_map_err [OF opens_accept [OF assms]]])
qed

lemma keeps_do_main: "keeps fd n (do_main E use_sd_notify path)"
proof -
  have notify: "keeps fd (n + tok fd x) (bindR (if use_sd_notify then map_err IoErr (notify_systemd E) else ret ()) (\<lambda>_. accept_loop E x))" for x
    unfolding notify_systemd_def by (intro keeps_intros keeps_accept_loop calm_calls le_add2)
  show ?thesis
    unfolding do_main_def remove_file_def
    by (intro keeps_bindR [OF keeps_matchR] keeps_opens_bindR [OF opens_map_err [OF opens_bind]]
        owns_owning notify keeps_intros calm_calls)
qed

section \<open>A sample connection\<close>

text \<open>A monitor that sends one request, with the descriptors 8 and 9 for the process and its memory, and closes the
  connection after the reply. The request is for a system call that is not handled.\<close>

abbreviation sample_request :: ProxyMessageBuffer where
  "sample_request \<equiv> sample_msg 0 [0, 0, 0, 0, 0, 0]"

definition sample_rights :: ControlMessageRef where
  "sample_rights = \<lparr>cmsg_level = SOL_SOCKET, cmsg_type = SCM_RIGHTS, cmsg_data = [8, 0, 0, 0, 9, 0, 0, 0]\<rparr>"

definition monitor :: "nat env" where
  "monitor = env_of (\<lambda>p c w. case c of
       Recvmsg x ls n \<Rightarrow> (if w = 0 \<and> 24 \<le> n
         then \<lparr>r_ret = 136, r_errno = 0, r_data = concat (msg_iov sample_request), r_ctl = put_cmsg sample_rights,
               r_ctllen = 24, r_fds = []\<rparr> else returns 0, 1)
     | Openat d name f m \<Rightarrow> (returns 7, w)
     | Read x n \<Rightarrow> (if w = 1 then delivers (str ''Pid: 5'' @ [10]) else returns 0, 2)
     | Sendmsg x iov \<Rightarrow> (returns 136, w)
     | _ \<Rightarrow> (returns 0, w))"

lemma sample_rights_facts:
  "length (put_cmsg sample_rights) = 24" "rights_in (put_cmsg sample_rights) = [8, 9]"
  "length (cmsg_data sample_rights) < 2 ^ 62"
proof -
  show small: "length (cmsg_data sample_rights) < 2 ^ 62" by (simp add: sample_rights_def)
  show "length (put_cmsg sample_rights) = 24" by (simp add: put_cmsg_def sample_rights_def)
  show "rights_in (put_cmsg sample_rights) = [8, 9]"
    unfolding rights_in_put [OF small] by (simp add: sample_rights_def chunks_exact_def chunk_def upt_rec le_word_def)
qed

lemma installs_monitor: "installs monitor"
proof -
  have "scm_rights (put_cmsg sample_rights)"
    using sample_rights_facts unfolding scm_rights_def by (auto intro!: exI [of _ sample_rights] simp: sample_rights_def)
  then show ?thesis
    using sample_rights_facts
    by (auto simp: installs_def monitor_def env_of_def ancillary_def scm_rights_def returns_def Let_def fill_def)
qed

lemma store_iov_full:
  assumes "wf_SeccompNotif (b_seccomp_notif self)" and "wf_SeccompNotif (b_seccomp_notif msg)"
  shows "store_iov self (scatter (msg_iov self @ [c]) (concat (msg_iov msg)))
     = self\<lparr>b_proxy_msg := b_proxy_msg msg, b_seccomp_notif := b_seccomp_notif msg, b_seccomp_resp := b_seccomp_resp msg,
            b_cookie_mem := c\<rparr>"
proof -
  note len = SeccompNotifyProxyMsg_codec.length_enc [OF TrueI] SeccompNotifResp_codec.length_enc [OF TrueI]
    SeccompNotif_codec.length_enc [OF assms(1)] SeccompNotif_codec.length_enc [OF assms(2)]
  show ?thesis
    using len
    by (simp add: store_iov_def msg_iov_def fill_def SeccompNotifyProxyMsg_codec.dec_enc SeccompNotifResp_codec.dec_enc
      SeccompNotif_codec.dec_enc assms)
qed

lemma monitor_try_from_fd:
  assumes "m_world s = 1"
  shows "\<exists>s'. try_from_fd monitor Daemon 8 s = Some (Ok \<lparr>pf_fd = 8, pf_pid = 5\<rparr>, s') \<and> m_world s' = 2"
proof -
  have read: "split_newline [80, 105, 100, 58, 32, 53, 10 :: u8] = Some ([80, 105, 100, 58, 32, 53], [])"
    "split_newline ([] :: bytes) = None"
    by (simp_all add: split_newline_def)
  have line: "pid_line [80, 105, 100, 58, 32, 53] () = Ok (Inr 5)"
    by (simp add: pid_line_def split_ascii_whitespace_def is_ascii_whitespace_def nth_opt_def parse_i32_def digit_of_def Let_def)
  show ?thesis
    using assms
    by (simp add: try_from_fd_def read_pid_def inspect_eval monitor_def sample_defs io_defs closing_on_error_def loopM.simps read line Let_def)
qed

lemma monitor_recv_message:
  assumes wf: "wf_msg self" and none: "b_pid_fd self = None" "b_mem_fd self = None" and w: "m_world s = 1"
    and proxy: "b_proxy_msg self = b_proxy_msg sample_request" and notif: "b_seccomp_notif self = b_seccomp_notif sample_request"
  shows "\<exists>msg s'. recv_message monitor Daemon self 136 24 (put_cmsg sample_rights) s = Some (Ok (True, msg), s')
     \<and> m_world s' = 2 \<and> msg_fds msg = [8, 9] \<and> b_seccomp_notif msg = b_seccomp_notif sample_request"
proof -
  let ?b = "prepare_response (self\<lparr>b_cookie_len := 0\<rparr>)"
  have len: "set_len self 136 = Ok ?b"
    using set_len_Ok_iff [of self 136] wf proxy by (auto simp: wf_msg_def sample_msg_def prepare_response_def)
  have item: "cmsg_next (put_cmsg sample_rights) = (Ok (Some sample_rights, []) :: (error, _) res)"
    by (rule cmsg_next_put1 [OF sample_rights_facts(3)])
  have fds: "map (\<lambda>c. sint (le_word c :: i32)) (chunks_exact 4 (cmsg_data sample_rights)) = [8, 9]"
    using sample_rights_facts(2) unfolding rights_in_put [OF sample_rights_facts(3)] .
  obtain s' where pid: "try_from_fd monitor Daemon 8 s = Some (Ok \<lparr>pf_fd = 8, pf_pid = 5\<rparr>, s')" "m_world s' = 2"
    using monitor_try_from_fd [OF w] by blast
  have "recv_fds monitor Daemon sample_rights s = Some (Ok (\<lparr>pf_fd = 8, pf_pid = 5\<rparr>, 9), s')"
    unfolding recv_fds_def fds
    using pid by (simp add: sample_rights_def owned_fds_eq bindR_def ret_def closing_on_error_def on_failure_def map_err_def)
  then show ?thesis
    using len pid(2) sample_rights_facts(1) notif
    by (simp add: recv_message_def item of_res_def bindR_def ok_or_def ret_def msg_fds_def prepare_response_def)
qed

lemma monitor_recv:
  assumes wf: "wf_msg self" and none: "b_pid_fd self = None" "b_mem_fd self = None" and w: "m_world s = 0"
  shows "\<exists>msg s'. recv monitor Daemon self 3 s = Some (Ok (True, msg), s')
     \<and> m_world s' = 2 \<and> msg_fds msg = [8, 9] \<and> b_seccomp_notif msg = b_seccomp_notif sample_request"
proof -
  let ?self = "self\<lparr>b_proxy_msg := (b_proxy_msg self)\<lparr>x_cookie_len := 0\<rparr>, b_mem_fd := None, b_pid_fd := None\<rparr>"
  let ?m = "?self\<lparr>b_proxy_msg := b_proxy_msg sample_request, b_seccomp_notif := b_seccomp_notif sample_request,
     b_seccomp_resp := b_seccomp_resp sample_request, b_cookie_mem := b_cookie_mem self, b_cookie_len := 0\<rparr>"
  have sample: "wf_SeccompNotif (b_seccomp_notif sample_request)"
    by (simp add: sample_msg_def prepare_response_def wf_SeccompNotif_def wf_SeccompData_def)
  have cap: "unat (capacity 8) = 24" by (simp add: capacity_def space_def align_def sizeof_cmsghdr_def)
  let ?r = "\<lparr>r_ret = 136, r_errno = 0, r_data = concat (msg_iov sample_request), r_ctl = put_cmsg sample_rights,
     r_ctllen = 24, r_fds = []\<rparr>"
  have recvmsg: "\<exists>s1. recvmsg_vectored monitor Daemon 3 iov buf s2
      = Some (Ok (136, 24, scatter iov (concat (msg_iov sample_request)), fill buf (put_cmsg sample_rights)), s1) \<and> m_world s1 = 1"
    if "m_world s2 = 0" "length buf = 24" for iov buf s2
    using that by (simp add: recvmsg_vectored_def wrap_read_def tokio_result_def loopM.simps monitor_def io_defs env_of_def returns_def)
  let ?s2 = "after monitor Daemon (Alloc 24) s" let ?buf = "fit 24 (r_data (answer monitor Daemon (Alloc 24) s))"
  have "m_world ?s2 = 0" using w by (simp add: after_def monitor_def env_of_def)
  from recvmsg [OF this, of ?buf "msg_iov ?self @ [b_cookie_mem self]"] obtain s1
    where s1: "recvmsg_vectored monitor Daemon 3 (msg_iov ?self @ [b_cookie_mem self]) ?buf ?s2
      = Some (Ok (136, 24, scatter (msg_iov ?self @ [b_cookie_mem self]) (concat (msg_iov sample_request)), put_cmsg sample_rights), s1)"
      "m_world s1 = 1"
    using sample_rights_facts(1) by auto
  have "wf_msg ?m" using wf sample by (simp add: wf_msg_def)
  then obtain msg s' where "recv_message monitor Daemon ?m 136 24 (put_cmsg sample_rights) s1 = Some (Ok (True, msg), s')"
    "m_world s' = 2" "msg_fds msg = [8, 9]" "b_seccomp_notif msg = b_seccomp_notif sample_request"
    using monitor_recv_message [of ?m s1] s1(2) by auto
  moreover have "store_iov ?self (scatter (msg_iov ?self @ [b_cookie_mem self]) (concat (msg_iov sample_request)))\<lparr>b_cookie_len := 0\<rparr> = ?m"
    using store_iov_full [of ?self sample_request] wf sample by (simp add: wf_msg_def)
  ultimately show ?thesis
    using s1 none
    by (simp add: recv_def reset_def drop_opt_def cmsg_buffer_def cap bindR_def ret_def sys_eq map_err_def Let_def)
qed

lemma monitor_round:
  assumes "wf_msg self" and "b_pid_fd self = None" and "b_mem_fd self = None" and "m_world s = 0"
  shows "\<exists>msg s'. main_round monitor (Client_new 3) self s = Some (Ok (Inl msg), s') \<and> m_world s' = 2 \<and> msg_fds msg = [8, 9]"
proof -
  obtain msg s1 where recv: "recv monitor Daemon self 3 s = Some (Ok (True, msg), s1)" "m_world s1 = 2" "msg_fds msg = [8, 9]"
    and notif: "b_seccomp_notif msg = b_seccomp_notif sample_request"
    using monitor_recv [OF assms] by blast
  let ?msg = "set_response msg (StatusErr ENOSYS)"
  have do: "handle_syscall_do monitor msg = ret (StatusErr ENOSYS)"
    by (simp add: handle_syscall_do_def notif sample_msg_def prepare_response_def translate_syscall_def SYSCALL_TABLE_def)
  have "wf_SeccompNotif (b_seccomp_notif ?msg)"
    by (simp add: notif sample_msg_def prepare_response_def wf_SeccompNotif_def wf_SeccompData_def)
  then have len: "sum_list (map length (msg_iov ?msg)) = 136" using length_msg_iov by simp
  have "\<exists>s'. respond monitor Daemon ?msg 3 s1 = Some (Ok (), s') \<and> m_world s' = 2"
    using recv(2) len by (simp add: respond_def sendmsg_vectored_def wrap_write_def Let_def
      loopM.simps tokio_result_def io_defs sample_defs monitor_def)
  then have "\<exists>s'. handle_syscall monitor (Client_new 3) msg s1 = Some (Ok ?msg, s') \<and> m_world s' = 2"
    by (auto simp: handle_syscall_def do Client_new_def matchR_def bindR_def map_err_def ret_def Let_def)
  moreover have "msg_fds ?msg = [8, 9]" using recv(3) by (simp add: msg_fds_def set_response_def Let_def)
  ultimately show ?thesis
    using recv(1) by (auto simp: main_round_def Client_new_def bindR_def on_failure_def ret_def)
qed

lemma monitor_eof:
  assumes "m_world s = 2"
  shows "\<exists>s'. main_round monitor (Client_new 3) msg s = Some (Ok (Inr ()), s')"
  using assms
  by (auto simp: main_round_def recv_def reset_def drop_opt_def cmsg_buffer_def recvmsg_vectored_def wrap_read_def tokio_result_def
    loopM.simps recv_message_def Client_new_def monitor_def io_defs sample_defs Let_def split: option.splits)

lemma monitor_new:
  assumes "m_sizes s = StaticInit (80, 24, 64)" and "m_world s = 0"
  shows "\<exists>msg s'. ProxyMessageBuffer_new monitor Daemon 64 s = Some (Ok msg :: (error, _) res, s') \<and> wf_msg msg
     \<and> b_pid_fd msg = None \<and> b_mem_fd msg = None \<and> m_world s' = 0"
proof -
  have "\<exists>msg s'. ProxyMessageBuffer_new monitor Daemon 64 s = Some (Ok msg :: (error, _) res, s')
     \<and> b_pid_fd msg = None \<and> b_mem_fd msg = None \<and> m_world s' = 0"
    using assms by (simp add: ProxyMessageBuffer_new_def SECCOMP_SIZES_def vec_uninitialized_def io_defs sample_defs monitor_def)
  then show ?thesis using wf_new assms(1) by (fastforce simp: sizes_checked_def)
qed

lemma monitor_connection:
  assumes "m_sizes s0 = StaticInit (80, 24, 64)" and "m_world s0 = 0"
  shows "\<exists>msg s. connection monitor (Client_new 3) s0 msg s \<and> m_world s = 2 \<and> msg_fds msg = [8, 9]"
  using monitor_new [OF assms] monitor_round by (metis opened round)

lemma monitor_client_main:
  assumes "m_sizes s0 = StaticInit (80, 24, 64)" and "m_world s0 = 0"
  shows "\<exists>s'. client_main monitor (Client_new 3) s0 = Some (Ok (), s')"
proof -
  obtain msg s s' where "connection monitor (Client_new 3) s0 msg s" "main_round monitor (Client_new 3) msg s = Some (Ok (Inr ()), s')"
    using monitor_connection [OF assms] monitor_eof by blast
  then have "main_do monitor (Client_new 3) s0 = Some (Ok (), s')"
    unfolding main_do_iff ends_loop_simps by blast
  then show ?thesis
    by (simp add: client_main_def wrap_error_def owning_def ensuring_def matchR_def drop_fd_def bindR_def sys_eq ret_def)
qed

section \<open>Properties\<close>

text \<open>C11: Between two requests a connection holds exactly the descriptors of its message. In every state that a
  connection reaches, and for every descriptor number, the daemon holds what it held when the connection began, and the
  two descriptors of the current message: nothing that a request opened is still open, however the request ended. And no
  descriptor was operated on or closed that the daemon did not hold at that moment.\<close>

theorem connection_keeps_books:
  assumes "connection E self s0 msg s" and "installs E" and "0 \<le> fd"
    and "int (tok fd (cl_socket self)) \<le> held fd (m_log s0)"
  shows "held fd (m_log s) = held fd (m_log s0) + int (count_list (msg_fds msg) fd)
    \<and> (\<exists>t. m_log s = m_log s0 @ t \<and> along (lawful fd) (m_log s0) t)"
  using connection_books [OF assms] by (auto simp: books_def owed_def)

theorem connection_keeps_books_witness:
  "\<exists>msg s. connection monitor (Client_new 3) ((boot 0)\<lparr>m_sizes := StaticInit (80, 24, 64)\<rparr>) msg s \<and> msg_fds msg = [8, 9]
     \<and> held 8 (m_log s) = 1 \<and> held 7 (m_log s) = 0"
proof -
  let ?s0 = "(boot 0 :: nat mach)\<lparr>m_sizes := StaticInit (80, 24, 64)\<rparr>"
  have s0: "m_sizes ?s0 = StaticInit (80, 24, 64)" "m_world ?s0 = 0" "m_log ?s0 = []" by (simp_all add: boot_def)
  obtain msg s where c: "connection monitor (Client_new 3) ?s0 msg s" "msg_fds msg = [8, 9]"
    using monitor_connection [OF s0(1,2)] by blast
  from connection_keeps_books [OF c(1) installs_monitor, of 8] connection_keeps_books [OF c(1) installs_monitor, of 7] c s0(3)
  show ?thesis by (auto simp: tok_def Client_new_def)
qed

text \<open>C12: A connection that ends has closed its socket and every other descriptor it was given, also after an error
  or a panic, and operated on and closed only what it held. The only descriptors it can leave open are those of one message: the last one, when
  it was declined (it was empty, or failed validation); after the receipt of that message nothing was done
  but to report the error and shut the connection down.\<close>

theorem client_main_closes_everything:
  assumes run: "client_main E self s = Some (r, s')" and "installs E" and "0 \<le> fd"
    and owner: "int (tok fd (cl_socket self)) \<le> held fd (m_log s)"
  shows "(\<exists>t. m_log s' = m_log s @ t \<and> along (lawful fd) (m_log s) t)
    \<and> (held fd (m_log s') = held fd (m_log s) - int (tok fd (cl_socket self))
       \<or> (\<exists>h ls n y t. m_log s' = h @ (Daemon, Recvmsg (cl_socket self) ls n, y) # t
            \<and> list_all (tears_down (cl_socket self)) t
            \<and> held fd (m_log s') = held fd (m_log s) - int (tok fd (cl_socket self)) + int (count_list (rights y) fd)))"
  using assms
proof (rule client_main_books)
  fix k h t
  assume sum: "books fd s s' (int k - int (tok fd (cl_socket self)))" and s': "m_log s' = h @ t"
    and tail: "list_all (tears_down (cl_socket self)) t" and decl: "k = 0 \<or> (\<exists>ls n z. h \<noteq> []
       \<and> last (h) = (Daemon, Recvmsg (cl_socket self) ls n, z) \<and> k = count_list (rights z) fd)"
  from decl show ?thesis
  proof
    assume "\<exists>ls n z. h \<noteq> [] \<and> last (h) = (Daemon, Recvmsg (cl_socket self) ls n, z) \<and> k = count_list (rights z) fd"
    then obtain h1 ls n z where "h = h1 @ [(Daemon, Recvmsg (cl_socket self) ls n, z)]" "k = count_list (rights z) fd"
      by (metis append_butlast_last_id)
    with s' sum have "m_log s' = h1 @ (Daemon, Recvmsg (cl_socket self) ls n, z) # t"
      "held fd (m_log s') = held fd (m_log s) - int (tok fd (cl_socket self)) + int (count_list (rights z) fd)"
      by (simp_all add: books_def)
    with tail sum show ?thesis unfolding books_def by blast
  qed (use sum in \<open>auto simp: books_def\<close>)
qed

theorem client_main_closes_everything_witness:
  "\<exists>s'. client_main monitor (Client_new 3)
        \<lparr>m_world = 0, m_log = [(Daemon, Accept4 4 0, returns 3)], m_sizes = StaticInit (80, 24, 64)\<rparr> = Some (Ok (), s')
     \<and> (\<exists>t. m_log s' = (Daemon, Accept4 4 0, returns 3) # t \<and> along (lawful 3) [(Daemon, Accept4 4 0, returns 3)] t)"
proof -
  let ?s = "\<lparr>m_world = 0, m_log = [(Daemon, Accept4 4 0, returns 3)], m_sizes = StaticInit (80, 24, 64)\<rparr> :: nat mach"
  obtain s' where run: "client_main monitor (Client_new 3) ?s = Some (Ok (), s')"
    using monitor_client_main [of ?s] by auto
  have "held 3 (m_log ?s) = 1" by (simp add: net_def gains_def drops_def returns_def)
  with client_main_closes_everything [OF run installs_monitor, of 3] run show ?thesis
    by (auto simp: tok_def Client_new_def)
qed

text \<open>C13: The server itself keeps its books: every socket it accepts is closed or handed to the task that is started
  for it, once; and when it ends, with an error or a panic, the listening socket and everything else it opened is
  closed, and nothing was operated on, closed or handed on that it did not hold.\<close>

theorem server_keeps_books:
  assumes "do_main E use_sd_notify path s = Some (r, s')" and "0 \<le> held fd (m_log s)"
  shows "held fd (m_log s') = held fd (m_log s) \<and> (\<exists>t. m_log s' = m_log s @ t \<and> along (lawful fd) (m_log s) t)"
  using books_owns [OF keeps_do_main [of fd 0] assms(1)] assms(2) by (simp add: books_def)

theorem server_keeps_books_witness:
  "\<exists>r s'. do_main script False (str ''/run/s'') (boot [returns 0, returns 4, returns 0, returns 0, returns 0, returns 0, returns 5, returns 0,
       returns 0, returns 0, fails EPERM]) = Some (r, s')
     \<and> (Daemon, Spawn 5, returns 0) \<in> set (m_log s') \<and> held 5 (m_log s') = 0 \<and> held 4 (m_log s') = 0"
proof -
  let ?s = "boot [returns 0, returns 4, returns 0, returns 0, returns 0, returns 0, returns 5, returns 0, returns 0, returns 0, fails EPERM]"
  have "\<exists>r s'. do_main script False (str ''/run/s'') ?s = Some (r, s') \<and> (Daemon, Spawn 5, returns 0) \<in> set (m_log s')"
    by (simp add: do_main_def remove_file_def SeqPacketListener_bind_def seq_packet_socket_def SeqPacketListener_accept_def
      SeqPacketSocket_new_def async_fd_new_def closing_on_error_def owned_fd_def accept_loop_def spawn_def wrap_read_def loopM.simps
      tokio_result_def nix_result_def would_block_def Client_new_def io_defs sample_defs)
  then obtain r s' where run: "do_main script False (str ''/run/s'') ?s = Some (r, s')" "(Daemon, Spawn 5, returns 0) \<in> set (m_log s')"
    by blast
  have "m_log ?s = []" by (simp add: boot_def)
  with server_keeps_books [OF run(1), of 5] server_keeps_books [OF run(1), of 4] run show ?thesis by auto
qed

end
