(* ===== verification/Tasks.thy ===== *)
theory Tasks
  imports Books
begin

text \<open>
  The server and its connections together. The daemon is one process with one table of descriptors; the task of the server
  and the tasks of the connections it has accepted run interleaved on it. A schedule is a sequence of their calls: each
  task, seen by itself, does what \<^const>\<open>do_main\<close> or \<^const>\<open>client_main\<close> does when its calls are answered as they were, and
  the kernel gives out only descriptor numbers that are not in use. The theory shows that the tasks do not get into each
  other's way: no task operates on, closes or is given a descriptor that another one holds.
\<close>

section \<open>Schedules\<close>

type_synonym schedule = "(nat \<times> event) list"

text \<open>Task 0 is the server; task \<open>k + 1\<close> is the connection whose socket was the \<open>k\<close>-th that the server handed on.\<close>

definition log_of :: "schedule \<Rightarrow> nat \<Rightarrow> event list" where
  "log_of tr i = map snd (filter (\<lambda>(j, e). j = i) tr)"

lemma log_of_simps [simp]: "log_of [] i = []" "log_of (tr @ [(j, e)]) i = log_of tr i @ (if j = i then [e] else [])"
  by (simp_all add: log_of_def)

definition handed :: "event \<Rightarrow> int list" where
  "handed e = (if ev_actor e = Daemon then (case ev_call e of Spawn x \<Rightarrow> [x] | _ \<Rightarrow> []) else [])"

definition sockets :: "schedule \<Rightarrow> int list" where
  "sockets tr = concat (map handed (log_of tr 0))"

lemma sockets_simps [simp]: "sockets [] = []" "sockets (tr @ [(j, e)]) = sockets tr @ (if j = 0 then handed e else [])"
  by (simp_all add: sockets_def)

text \<open>What a task holds: a connection was given its socket, the rest is in its log.\<close>

fun endowment :: "int list \<Rightarrow> nat \<Rightarrow> int \<Rightarrow> nat" where
  "endowment xs 0 fd = 0"
| "endowment xs (Suc k) fd = (if k < length xs then tok fd (xs ! k) else 0)"

definition holds :: "schedule \<Rightarrow> nat \<Rightarrow> int \<Rightarrow> int" where
  "holds tr i fd = int (endowment (sockets tr) i fd) + held fd (log_of tr i)"

text \<open>What a task can have done: the beginning of a run of its code. A connection starts with a log in which it holds its
  socket and nothing else. A task that never ends is covered: what it has done so far is also the beginning of a run
  in which its next calls fail, and the theorems hold for all environments.\<close>

definition server_does :: "'v env \<Rightarrow> event list \<Rightarrow> bool" where
  "server_does E l \<longleftrightarrow> (\<exists>use_sd_notify path s r s' u.
     m_log s = [] \<and> do_main E use_sd_notify path s = Some (r, s') \<and> m_log s' = l @ u)"

definition client_does :: "'w env \<Rightarrow> int \<Rightarrow> event list \<Rightarrow> bool" where
  "client_does E socket l \<longleftrightarrow> (\<exists>s r s' u. (\<forall>fd. held fd (m_log s) = int (tok fd socket))
     \<and> client_main E (Client_new socket) s = Some (r, s') \<and> m_log s' = m_log s @ l @ u)"

fun may_do :: "'v env \<Rightarrow> (nat \<Rightarrow> 'w env) \<Rightarrow> int list \<Rightarrow> nat \<Rightarrow> event list \<Rightarrow> bool" where
  "may_do S E xs 0 l = server_does S l"
| "may_do S E xs (Suc k) l = (k < length xs \<and> client_does (E k) (xs ! k) l)"

text \<open>The kernel gives out numbers that no task has open.\<close>

definition fresh :: "schedule \<Rightarrow> event \<Rightarrow> bool" where
  "fresh tr e \<longleftrightarrow> distinct (gains e) \<and> (\<forall>x \<in> set (gains e). \<forall>i. holds tr i x = 0)"

inductive schedules :: "'v env \<Rightarrow> (nat \<Rightarrow> 'w env) \<Rightarrow> schedule \<Rightarrow> bool" for S E where
  start: "schedules S E []"
| step: "schedules S E tr \<Longrightarrow> may_do S E (sockets tr) i (log_of tr i @ [e]) \<Longrightarrow> fresh tr e \<Longrightarrow> schedules S E (tr @ [(i, e)])"

inductive_cases schedules_snoc: "schedules S E (tr @ [(i, e)])"

lemma schedules_prefix: "schedules S E (p @ q) \<Longrightarrow> schedules S E p"
proof (induction q rule: rev_induct)
  case (snoc x q)
  then have "schedules S E ((p @ q) @ [(fst x, snd x)])" by simp
  then show ?case by (rule schedules_snoc) (use snoc.IH in auto)
qed simp

section \<open>One holder at a time\<close>

lemma event_shape:
  obtains (gives) "drops e = []" "handed e = []" | (takes) x where "gains e = []" "drops e = [x]" "handed e = [] \<or> handed e = [x]"
proof (cases "drops e = []")
  case True
  then have "handed e = []" by (auto simp: drops_def handed_def split: call.splits if_splits)
  with True show thesis by (rule gives)
next
  case False
  then show thesis
    by (intro takes [of "hd (drops e)"]) (auto simp: drops_def handed_def gains_def split: call.splits if_splits)
qed

lemma count_distinct: "distinct xs \<Longrightarrow> count_list xs x = (if x \<in> set xs then 1 else 0)"
  by (induction xs) auto

lemma holds_step:
  "holds (tr @ [(j, e)]) i fd = holds tr i fd + (if i = j then net fd e else 0)
     + (if j = 0 \<and> i = Suc (length (sockets tr)) then int (count_list (handed e) fd) else 0)"
proof -
  have "handed e = [] \<or> (\<exists>x. handed e = [x])" by (cases e rule: event_shape) auto
  then have "endowment (sockets tr @ handed e) i fd = endowment (sockets tr) i fd
      + (if i = Suc (length (sockets tr)) then count_list (handed e) fd else 0)"
    by (cases i) (auto simp: nth_append tok_def)
  then show ?thesis by (cases "j = 0") (simp_all add: holds_def del: endowment.simps)
qed

lemma may_do_lawful:
  assumes "may_do S E (sockets tr) i (log_of tr i @ [e])" and "\<And>k. installs (E k)" and "0 \<le> fd"
    and "fd \<in> set (drops e) \<union> set (uses e)"
  shows "0 < holds tr i fd"
proof (cases i)
  case 0
  with assms(1) obtain use_sd_notify path s r s' u where run: "m_log s = []" "do_main S use_sd_notify path s = Some (r, s')"
    "m_log s' = (log_of tr 0 @ [e]) @ u" by (auto simp: server_does_def)
  from books_owns [OF keeps_do_main [of fd 0] run(2)] run(1) have "books fd s s' 0" by simp
  with run have "lawful fd (log_of tr 0) e" by (simp add: books_def)
  with 0 assms(4) show ?thesis by (simp add: lawful_def holds_def)
next
  case (Suc k)
  let ?x = "sockets tr ! k"
  from assms(1) Suc obtain s r s' u where k: "k < length (sockets tr)" and own: "\<And>fd. held fd (m_log s) = int (tok fd ?x)"
    and run: "client_main (E k) (Client_new ?x) s = Some (r, s')" "m_log s' = m_log s @ (log_of tr i @ [e]) @ u"
    by (auto simp: client_does_def)
  from own have "int (tok fd (cl_socket (Client_new ?x))) \<le> held fd (m_log s)" by (simp add: Client_new_def)
  then obtain n where "books fd s s' n" using client_main_books [OF run(1) assms(2,3)] by metis
  with run(2) have "lawful fd (m_log s @ log_of tr i) e" by (simp add: books_def)
  with assms(4) k Suc own show ?thesis by (simp add: lawful_def holds_def)
qed

definition exclusive :: "schedule \<Rightarrow> int \<Rightarrow> bool" where
  "exclusive tr fd \<longleftrightarrow> (\<forall>i. holds tr i fd = 0) \<or> (\<exists>i. holds tr i fd = 1 \<and> (\<forall>j. j \<noteq> i \<longrightarrow> holds tr j fd = 0))"

lemma exclusiveD: "exclusive tr fd \<Longrightarrow> 0 < holds tr i fd \<Longrightarrow> holds tr i fd = 1 \<and> (\<forall>j. j \<noteq> i \<longrightarrow> holds tr j fd = 0)"
  unfolding exclusive_def by (metis less_irrefl)

lemma schedules_exclusive:
  assumes "schedules S E tr" and inst: "\<And>k. installs (E k)" and fd: "0 \<le> fd"
  shows "exclusive tr fd"
  using assms(1)
proof induction
  case start
  have "endowment [] i fd = 0" for i by (cases i) simp_all
  then show ?case by (simp add: exclusive_def holds_def)
next
  case (step tr j e)
  note after = holds_step [of tr j e _ fd]
  show ?case
  proof (cases e rule: event_shape)
    case gives
    show ?thesis
    proof (cases "fd \<in> set (gains e)")
      case True
      with step.hyps(3) have "count_list (gains e) fd = 1" "holds tr i fd = 0" for i
        by (auto simp: fresh_def count_distinct)
      with gives have "holds (tr @ [(j, e)]) i fd = (if i = j then 1 else 0)" for i by (simp add: after net_def)
      then show ?thesis by (auto simp: exclusive_def)
    next
      case False
      with gives have "holds (tr @ [(j, e)]) i fd = holds tr i fd" for i by (simp add: after net_def)
      with step.IH show ?thesis by (simp add: exclusive_def)
    qed
  next
    case (takes x)
    show ?thesis
    proof (cases "x = fd")
      case True
      have "0 < holds tr j fd" by (rule may_do_lawful [OF step.hyps(2) inst fd]) (simp add: takes True)
      from exclusiveD [OF step.IH this] have one: "holds tr i fd = (if i = j then 1 else 0)" for i by auto
      have "holds (tr @ [(j, e)]) i fd = (if j = 0 \<and> handed e = [fd] \<and> i = Suc (length (sockets tr)) then 1 else 0)" for i
        using takes True by (auto simp: after one net_def)
      then show ?thesis by (auto simp: exclusive_def)
    next
      case False
      with takes have "holds (tr @ [(j, e)]) i fd = holds tr i fd" for i by (auto simp: after net_def)
      with step.IH show ?thesis by (simp add: exclusive_def)
    qed
  qed
qed

section \<open>A sample schedule\<close>

text \<open>Several steps of one task.\<close>

lemma sockets_connection: "sockets (tr @ map (Pair (Suc k)) l) = sockets tr"
  by (induction l rule: rev_induct) (simp_all del: append_assoc add: append_assoc [symmetric])

lemma log_of_steps: "log_of (tr @ map (Pair i) l) j = log_of tr j @ (if i = j then l else [])"
  by (auto simp: log_of_def filter_map o_def)

lemma may_do_prefix: "may_do S E xs i (l @ m) \<Longrightarrow> may_do S E xs i l"
  by (cases i; simp add: server_does_def client_does_def) (blast, metis append_assoc)

lemma schedules_steps:
  assumes "schedules S E tr" and "may_do S E (sockets tr) i (log_of tr i @ l)"
    and "along (\<lambda>h. fresh (tr @ map (Pair i) h)) [] l"
  shows "schedules S E (tr @ map (Pair i) l)"
  using assms(2,3)
proof (induction l rule: rev_induct)
  case (snoc e l)
  then have "may_do S E (sockets tr) i ((log_of tr i @ l) @ [e])" by simp
  then have "may_do S E (sockets (tr @ map (Pair i) l)) i (log_of (tr @ map (Pair i) l) i @ [e])"
    by (cases i) (simp_all add: log_of_steps sockets_connection)
  with snoc may_do_prefix [of S E "sockets tr" i "log_of tr i @ l" "[e]"]
  have "schedules S E ((tr @ map (Pair i) l) @ [(i, e)])" by (intro step) simp_all
  then show ?case by simp
qed (simp add: assms(1))

text \<open>The server accepts a connection on descriptor 3; its monitor hangs up, the connection closes the descriptor, and the
  kernel gives the number to the next connection.\<close>

definition hung_up :: "unit env" where
  "hung_up = env_of (\<lambda>p c w. (returns 0, w))"

lemma installs_hung_up: "installs hung_up"
  by (auto simp: installs_def hung_up_def env_of_def returns_def ancillary_def scm_rights_def Let_def fill_def)

definition server_start :: "event list" where
  "server_start = [(Daemon, Unlink (str ''/run/s''), returns 0), (Daemon, Socket AF_UNIX SOCK_SEQPACKET SOCK_CLOEXEC, returns 4),
     (Daemon, Bind 4 (str ''/run/s''), returns 0), (Daemon, Listen 4 16, returns 0), (Daemon, AsyncFdNew 4, returns 0)]"

definition server_accepts :: "event list" where
  "server_accepts = [(Daemon, Readable 4, returns 0), (Daemon, Accept4 4 (SOCK_CLOEXEC OR SOCK_NONBLOCK), returns 3),
     (Daemon, AsyncFdNew 3, returns 0), (Daemon, Spawn 3, returns 0)]"

definition connection_waits :: "nat list \<Rightarrow> nat \<Rightarrow> event list" where
  "connection_waits ls n = [(Daemon, Alloc 64, returns 0), (Daemon, Alloc n, returns 0), (Daemon, Readable 3, returns 0),
     (Daemon, Recvmsg 3 ls n, returns 0)]"

lemma sample_server: "server_does script (server_start @ server_accepts @ server_accepts)"
proof -
  let ?a = "[returns 0, returns 3, returns 0, returns 0]"
  let ?s = "boot ([returns 0, returns 4, returns 0, returns 0, returns 0] @ ?a @ ?a @ [returns 0, fails EPERM])"
  have "\<exists>r s' u. do_main script False (str ''/run/s'') ?s = Some (r, s') \<and> m_log s' = server_start @ server_accepts @ server_accepts @ u"
    by (simp add: do_main_def remove_file_def SeqPacketListener_bind_def seq_packet_socket_def SeqPacketListener_accept_def
      SeqPacketSocket_new_def async_fd_new_def closing_on_error_def owned_fd_def accept_loop_def spawn_def wrap_read_def loopM.simps
      tokio_result_def nix_result_def would_block_def Client_new_def io_defs sample_defs server_start_def server_accepts_def)
  moreover have "m_log ?s = []" by (simp add: boot_def)
  ultimately show ?thesis unfolding server_does_def by (metis append_assoc)
qed

lemma sample_connection: "\<exists>ls n. client_does hung_up 3 (connection_waits ls n @ [(Daemon, Close 3, returns 0)])"
proof -
  let ?s = "\<lparr>m_world = (), m_log = [(Daemon, Accept4 4 0, returns 3)], m_sizes = StaticInit (80, 24, 64)\<rparr> :: unit mach"
  have "held fd (m_log ?s) = int (tok fd 3)" for fd by (simp add: net_def gains_def drops_def returns_def tok_def)
  moreover have "\<exists>ls n r s'. client_main hung_up (Client_new 3) ?s = Some (r, s')
      \<and> m_log s' = m_log ?s @ connection_waits ls n @ [(Daemon, Close 3, returns 0)]"
    by (simp add: client_main_def wrap_error_def main_do_def ProxyMessageBuffer_new_def SECCOMP_SIZES_def vec_uninitialized_def
      main_round_def recv_def reset_def drop_opt_def cmsg_buffer_def recvmsg_vectored_def wrap_read_def tokio_result_def
      loopM.simps recv_message_def Client_new_def io_defs sample_defs hung_up_def connection_waits_def Let_def)
  ultimately show ?thesis unfolding client_does_def by (metis append_Nil2)
qed

definition sample_schedule :: "nat list \<Rightarrow> nat \<Rightarrow> schedule" where
  "sample_schedule ls n = map (Pair 0) (server_start @ server_accepts) @ map (Pair 1) (connection_waits ls n)"

lemma sample_schedules:
  "\<exists>ls n. schedules script (\<lambda>_. hung_up)
     (sample_schedule ls n @ (1, (Daemon, Close 3, returns 0)) # map (Pair 0) server_accepts)"
proof -
  let ?close = "[(Daemon, Close 3, returns 0)] :: event list"
  obtain ls n where client: "client_does hung_up 3 (connection_waits ls n @ ?close)" using sample_connection by blast
  have free: "endowment [] i fd = 0" "endowment [x] i fd = (if i = 1 then tok fd x else 0)" for i fd x by (cases i; simp)+
  note evaluate = fresh_def holds_def free gains_def drops_def net_def returns_def handed_def server_start_def server_accepts_def
    connection_waits_def sockets_def log_of_def tok_def rights_def
  let ?E = "\<lambda>_ :: nat. hung_up" and ?first = "map (Pair (0 :: nat)) (server_start @ server_accepts)"
  have server: "server_does script (server_start @ server_accepts)"
    using sample_server may_do_prefix [of script ?E "[]" 0 "server_start @ server_accepts" server_accepts] by simp
  have started: "log_of ?first i = (if i = 0 then server_start @ server_accepts else [])" "sockets ?first = [3]" for i
    using log_of_steps [of "[]" 0 "server_start @ server_accepts" i]
    by (simp_all add: sockets_def log_of_def server_start_def server_accepts_def handed_def)
  let ?tr = "?first @ map (Pair 1) (connection_waits ls n @ ?close)"
  have "schedules script ?E ([] @ ?first)"
    by (rule schedules_steps [OF start]) (simp add: server, auto simp: evaluate)
  then have "schedules script ?E ?first" by simp
  then have "schedules script ?E ?tr"
  proof (rule schedules_steps)
    show "may_do script ?E (sockets ?first) 1 (log_of ?first 1 @ connection_waits ls n @ ?close)" unfolding started using client by simp
    show "along (\<lambda>h. fresh (?first @ map (Pair 1) h)) [] (connection_waits ls n @ ?close)" by (auto simp: evaluate)
  qed
  then have "schedules script ?E (?tr @ map (Pair 0) server_accepts)"
  proof (rule schedules_steps)
    show "may_do script ?E (sockets ?tr) 0 (log_of ?tr 0 @ server_accepts)" unfolding log_of_steps started using sample_server by simp
    show "along (\<lambda>h. fresh (?tr @ map (Pair 0) h)) [] server_accepts"
      by (auto simp: evaluate)
  qed
  then show ?thesis unfolding sample_schedule_def by (intro exI [of _ ls] exI [of _ n]) simp
qed

section \<open>Properties\<close>

text \<open>C14: Connections do not get into each other's way. However the calls of the server and of the connections it has started are
  interleaved, as long as the kernel gives out only descriptor numbers that are not in use: a task operates on, closes or
  hands on a descriptor only when it holds it, once, and no other task holds it at that moment; and no call of a task operates
  on, closes or returns a descriptor that another task holds.\<close>

theorem tasks_isolated:
  assumes "schedules S E (p @ (j, e) # q)" and "\<And>k. installs (E k)" and "0 \<le> fd"
  shows "(fd \<in> set (drops e) \<union> set (uses e) \<longrightarrow> holds p j fd = 1 \<and> (\<forall>i. i \<noteq> j \<longrightarrow> holds p i fd = 0))
    \<and> (\<forall>i. i \<noteq> j \<longrightarrow> holds p i fd \<noteq> 0 \<longrightarrow> fd \<notin> set (gains e) \<union> set (drops e) \<union> set (uses e))"
proof -
  from assms(1) have "schedules S E (p @ [(j, e)])" by (intro schedules_prefix [of S E "p @ [(j, e)]" q]) simp
  then obtain p: "schedules S E p" and doing: "may_do S E (sockets p) j (log_of p j @ [e])" and new: "fresh p e"
    by (rule schedules_snoc) auto
  note ex = schedules_exclusive [OF p assms(2,3)]
  have used: "holds p j fd = 1 \<and> (\<forall>i. i \<noteq> j \<longrightarrow> holds p i fd = 0)" if "fd \<in> set (drops e) \<union> set (uses e)"
    by (rule exclusiveD [OF ex may_do_lawful [OF doing assms(2,3) that]])
  moreover have "holds p i fd = 0" if "fd \<in> set (gains e)" for i using that new by (simp add: fresh_def)
  ultimately show ?thesis by blast
qed

theorem tasks_isolated_witness:
  "\<exists>ls n. schedules script (\<lambda>_. hung_up) (sample_schedule ls n @ (1, (Daemon, Close 3, returns 0)) # map (Pair 0) server_accepts)
     \<and> holds (sample_schedule ls n) 1 3 = 1 \<and> holds (sample_schedule ls n) 0 3 = 0"
proof -
  obtain ls n where tr: "schedules script (\<lambda>_. hung_up)
      (sample_schedule ls n @ (1, (Daemon, Close 3, returns 0)) # map (Pair 0) server_accepts)" using sample_schedules by blast
  have "3 \<in> set (drops (Daemon, Close 3, returns 0))" by (simp add: drops_def)
  with tasks_isolated [OF tr installs_hung_up, of 3] tr show ?thesis by auto
qed

end
